(* ===== verification/Mp_Prelude.thy ===== *)
theory Mp_Prelude
  imports Main "HOL-Library.Word"
begin

text \<open>
  Shared vocabulary of the development: the C types the components use, the collections of
  simplification rules, the linear scan over a fixed table that every registry of
  Embedded/mp_embed.c is built on, little-endian integers as laid out in the embedded blob, and
  the 64-bit signed arithmetic of file offsets.
\<close>

unbundle bit_operations_syntax

named_theorems blob_simps
named_theorems path_simps
named_theorems efile_simps
named_theorems fd_simps
named_theorems world_simps

type_synonym u8 = "8 word"
type_synonym u32 = "32 word"
type_synonym u64 = "64 word"

text \<open>A C string is the list of its characters before the terminating NUL.\<close>

type_synonym cstring = string

definition PATH_MAX :: nat where
  "PATH_MAX = 4096"

subsection \<open>Scanning a table for its first slot\<close>

text \<open>
  Every registry is an array of 512 slots, searched by a loop that stops at the first slot
  satisfying a test. \<open>first_slot\<close> is that loop: the index it stops at, or None.
\<close>

fun first_slot :: "('a \<Rightarrow> bool) \<Rightarrow> 'a list \<Rightarrow> nat option" where
  "first_slot P [] = None"
| "first_slot P (x # xs) = (if P x then Some 0 else map_option Suc (first_slot P xs))"

lemma first_slot_None [simp]: "first_slot P xs = None \<longleftrightarrow> (\<forall>x \<in> set xs. \<not> P x)"
  by (induction xs) auto

lemma first_slot_SomeD:
  "first_slot P xs = Some i \<Longrightarrow> i < length xs \<and> P (xs ! i) \<and> (\<forall>j < i. \<not> P (xs ! j))"
proof (induction xs arbitrary: i)
  case Nil
  then show ?case by simp
next
  case (Cons x xs)
  show ?case
  proof (cases "P x")
    case True
    with Cons.prems show ?thesis by simp
  next
    case False
    with Cons.prems obtain k where k: "first_slot P xs = Some k" "i = Suc k"
      by auto
    from Cons.IH [OF k(1)] False k(2) show ?thesis
      by (auto simp: less_Suc_eq_0_disj)
  qed
qed

lemma first_slot_lt: "first_slot P xs = Some i \<Longrightarrow> i < length xs"
  using first_slot_SomeD by blast

lemma first_slot_prop: "first_slot P xs = Some i \<Longrightarrow> P (xs ! i)"
  using first_slot_SomeD by blast

lemma first_slot_mem: "first_slot P xs = Some i \<Longrightarrow> xs ! i \<in> set xs"
  using first_slot_lt nth_mem by blast

lemma first_slot_unique:
  assumes "i < length xs" and "P (xs ! i)" and "\<And>j. j < length xs \<Longrightarrow> P (xs ! j) \<Longrightarrow> j = i"
  shows "first_slot P xs = Some i"
proof (cases "first_slot P xs")
  case None
  with assms(1,2) show ?thesis by (auto simp: nth_mem)
next
  case (Some k)
  with assms(3) first_slot_SomeD show ?thesis by blast
qed

lemma first_slot_replicate [simp]:
  "first_slot P (replicate n x) = (if 0 < n \<and> P x then Some 0 else None)"
  by (cases n) auto

subsection \<open>Little-endian integers\<close>

fun le_bytes :: "nat \<Rightarrow> nat \<Rightarrow> u8 list" where
  "le_bytes 0 v = []"
| "le_bytes (Suc n) v = word_of_nat (v mod 256) # le_bytes n (v div 256)"

fun le_val :: "u8 list \<Rightarrow> nat" where
  "le_val [] = 0"
| "le_val (b # bs) = unat b + 256 * le_val bs"

lemma length_le_bytes [simp]: "length (le_bytes n v) = n"
  by (induction n arbitrary: v) auto

lemma unat_byte_of_mod [simp]: "unat (word_of_nat (v mod 256) :: u8) = v mod 256"
  by (simp add: unat_of_nat)

lemma le_val_bytes: "le_val (le_bytes n v) = v mod 256 ^ n"
proof (induction n arbitrary: v)
  case 0
  show ?case by simp
next
  case (Suc n)
  then show ?case by (simp add: mod_mult2_eq ac_simps)
qed

lemma le_val_bytes_id: "v < 256 ^ n \<Longrightarrow> le_val (le_bytes n v) = v"
  by (simp add: le_val_bytes)

lemma le_val_bound: "le_val bs < 256 ^ length bs"
proof (induction bs)
  case Nil
  show ?case by simp
next
  case (Cons b bs)
  have "unat b < 256" using unsigned_less [of b] by simp
  with Cons show ?case by simp
qed

definition bytes_at :: "u8 list \<Rightarrow> nat \<Rightarrow> nat \<Rightarrow> u8 list" where
  "bytes_at m off n = take n (drop off m)"

definition uint_at :: "nat \<Rightarrow> u8 list \<Rightarrow> nat \<Rightarrow> nat" where
  "uint_at n m off = le_val (bytes_at m off n)"

lemma bytes_at_append_right:
  "length pre \<le> off \<Longrightarrow> bytes_at (pre @ m) off n = bytes_at m (off - length pre) n"
  by (simp add: bytes_at_def)

lemma bytes_at_append_left:
  "off + n \<le> length m \<Longrightarrow> bytes_at (m @ post) off n = bytes_at m off n"
  by (simp add: bytes_at_def)

lemma bytes_at_concat:
  assumes "\<forall>x \<in> set xs. length (f x) = w" and "i < length xs"
  shows "bytes_at (concat (map f xs) @ post) (w * i) w = f (xs ! i)"
  using assms
proof (induction xs arbitrary: i)
  case Nil
  then show ?case by simp
next
  case (Cons x xs)
  show ?case
  proof (cases i)
    case 0
    with Cons.prems show ?thesis by (simp add: bytes_at_def)
  next
    case (Suc j)
    have "bytes_at (concat (map f (x # xs)) @ post) (w * i) w
        = bytes_at (concat (map f xs) @ post) (w * j) w"
      using Cons.prems Suc by (simp add: bytes_at_append_right)
    also have "\<dots> = f (xs ! j)"
      using Cons.prems Suc by (intro Cons.IH) auto
    finally show ?thesis using Suc by simp
  qed
qed

lemma length_concat_const: "\<forall>x \<in> set xs. length (f x) = w \<Longrightarrow> length (concat (map f xs)) = w * length xs"
  by (induction xs) auto

subsection \<open>Signed 64-bit offsets\<close>

text \<open>
  File offsets are \<^verbatim>\<open>int64_t\<close>: a sum is taken modulo \<open>2 ^ 64\<close> and read as two's complement.
\<close>

definition wrap64 :: "int \<Rightarrow> int" where
  "wrap64 x = (x + 2 ^ 63) mod 2 ^ 64 - 2 ^ 63"

definition fits64 :: "int \<Rightarrow> bool" where
  "fits64 x \<longleftrightarrow> - (2 ^ 63) \<le> x \<and> x < 2 ^ 63"

lemma wrap64_id [simp]: "fits64 x \<Longrightarrow> wrap64 x = x"
  by (simp add: wrap64_def fits64_def)

lemma wrap64_fits [simp]: "fits64 (wrap64 x)"
  by (simp add: wrap64_def fits64_def)

end
