(* ===== verification/Blob.thy ===== *)
theory Blob
  imports Mp_Prelude
begin

text \<open>
  The embedded blob and its lookup (Embedded/mp_embed.c, section "FNV-1a 64 + CHD perfect hash +
  bloom", and the blob structs of Include/mp_embed.h). The blob is the byte array
  \<^verbatim>\<open>nuitka_embed_map\<close>; pointers into it are byte offsets, and a read at an offset decodes the
  little-endian integer stored there. The contents of the embedded files are zstd frames in
  \<^verbatim>\<open>nuitka_embed_data\<close>; the zstd library is a parameter.
\<close>

subsection \<open>Hashing\<close>

definition FNV_OFFSET :: u64 where "FNV_OFFSET = 0xcbf29ce484222325"
definition FNV_PRIME :: u64 where "FNV_PRIME = 0x100000001b3"
definition GOLDEN_RATIO :: u64 where "GOLDEN_RATIO = 0x9E3779B97F4A7C15"
definition SPLITMIX1 :: u64 where "SPLITMIX1 = 0xbf58476d1ce4e5b9"
definition SPLITMIX2 :: u64 where "SPLITMIX2 = 0x94d049bb133111eb"

fun mp_hash64_loop :: "u64 \<Rightarrow> cstring \<Rightarrow> u64" where
  "mp_hash64_loop h [] = h"
| "mp_hash64_loop h (c # s) = mp_hash64_loop ((h XOR of_char c) * FNV_PRIME) s"

definition mp_hash64 :: "cstring \<Rightarrow> u64" where
  "mp_hash64 s = mp_hash64_loop FNV_OFFSET s"

definition mp_chd_mix :: "u64 \<Rightarrow> nat \<Rightarrow> u64" where
  "mp_chd_mix h seed =
     (let x = h XOR (word_of_nat seed * GOLDEN_RATIO);
          x = (x XOR drop_bit 30 x) * SPLITMIX1;
          x = (x XOR drop_bit 27 x) * SPLITMIX2
      in x XOR drop_bit 31 x)"

subsection \<open>Header and entries\<close>

record blob_header =
  num_entries :: nat
  num_buckets :: nat
  bloom_size_words :: nat
  bloom_num_hashes :: nat
  bloom_num_bits :: nat
  bloom_offset :: nat
  seeds_offset :: nat
  child_slots_offset :: nat
  entries_offset :: nat
  paths_offset :: nat
  paths_size :: nat
  num_child_slots :: nat
  map_total_size :: nat
  mtimes_offset :: nat

definition HEADER_SIZE :: nat where "HEADER_SIZE = 64"
definition EMAP_SIZE :: nat where "EMAP_SIZE = 32"

abbreviation u16_at :: "u8 list \<Rightarrow> nat \<Rightarrow> nat" where "u16_at \<equiv> uint_at 2"
abbreviation u32_at :: "u8 list \<Rightarrow> nat \<Rightarrow> nat" where "u32_at \<equiv> uint_at 4"
abbreviation u64_at :: "u8 list \<Rightarrow> nat \<Rightarrow> nat" where "u64_at \<equiv> uint_at 8"

definition read_header :: "u8 list \<Rightarrow> blob_header" where
  "read_header m = \<lparr> num_entries = u32_at m 0, num_buckets = u32_at m 4,
     bloom_size_words = u32_at m 8, bloom_num_hashes = u32_at m 12, bloom_num_bits = u32_at m 16,
     bloom_offset = u32_at m 20, seeds_offset = u32_at m 24, child_slots_offset = u32_at m 28,
     entries_offset = u32_at m 32, paths_offset = u32_at m 36, paths_size = u32_at m 40,
     num_child_slots = u32_at m 44, map_total_size = u32_at m 48, mtimes_offset = u32_at m 52 \<rparr>"

datatype etype = ETYPE_DIRECTORY | ETYPE_FILE

record emap =
  em_hash :: u64
  data_pos :: nat
  data_size :: nat
  children_start :: nat
  path_offset :: nat
  children_count :: nat
  path_len :: nat
  em_type :: nat

text \<open>
  The code compares \<^verbatim>\<open>type\<close> with ETYPE_DIRECTORY (0) and ETYPE_FILE (1) separately, so the byte
  is kept as it is.
\<close>

definition is_dir :: "emap \<Rightarrow> bool" where "is_dir e \<longleftrightarrow> em_type e = 0"
definition is_file :: "emap \<Rightarrow> bool" where "is_file e \<longleftrightarrow> em_type e = 1"

definition read_emap :: "u8 list \<Rightarrow> nat \<Rightarrow> emap" where
  "read_emap m off = \<lparr> em_hash = word_of_nat (u64_at m off), data_pos = u32_at m (off + 8),
     data_size = u32_at m (off + 12), children_start = u32_at m (off + 16),
     path_offset = u32_at m (off + 20), children_count = u16_at m (off + 24),
     path_len = u16_at m (off + 26), em_type = uint_at 1 m (off + 28) \<rparr>"

subsection \<open>The image: blob, data and the zstd library\<close>

datatype zstd_size = ZSTD_CONTENTSIZE_ERROR | ZSTD_CONTENTSIZE_UNKNOWN | Zstd_Size nat

record image =
  nuitka_embed_map :: "u8 list"
  nuitka_embed_data :: "u8 list"
  zstd_frame_size :: "u8 list \<Rightarrow> zstd_size"
  zstd_decompress :: "nat \<Rightarrow> u8 list \<Rightarrow> u8 list option"

text \<open>
  \<^verbatim>\<open>mp_embed_init\<close> publishes pointers into the constant blob; every call computes the same values,
  so the model is a function of the blob. \<open>None\<close> is the state in which \<^verbatim>\<open>mp_hdr\<close> stays NULL.
\<close>

record embed_ptrs =
  mp_hdr :: blob_header
  mp_bloom :: nat
  mp_seeds :: nat
  mp_child_slots :: nat
  mp_entries :: nat
  mp_paths :: nat
  mp_mtimes :: "nat option"

definition mp_embed_init :: "image \<Rightarrow> embed_ptrs option" where
  "mp_embed_init img =
     (let m = nuitka_embed_map img in
      if length m < HEADER_SIZE then None
      else let h = read_header m in
      if num_entries h = 0
      then Some \<lparr> mp_hdr = h, mp_bloom = 0, mp_seeds = 0, mp_child_slots = 0, mp_entries = 0,
                  mp_paths = 0, mp_mtimes = None \<rparr>
      else Some \<lparr> mp_hdr = h, mp_bloom = bloom_offset h, mp_seeds = seeds_offset h,
                  mp_child_slots = child_slots_offset h, mp_entries = entries_offset h,
                  mp_paths = paths_offset h,
                  mp_mtimes = (if mtimes_offset h \<noteq> 0 then Some (mtimes_offset h) else None) \<rparr>)"

subsection \<open>Lookup\<close>

definition bloom_bit :: "u64 \<Rightarrow> nat \<Rightarrow> nat \<Rightarrow> nat" where
  "bloom_bit h i bits = unat (h * GOLDEN_RATIO + word_of_nat i * SPLITMIX1) mod bits"

definition mp_bloom_check :: "u8 list \<Rightarrow> embed_ptrs \<Rightarrow> u64 \<Rightarrow> bool" where
  "mp_bloom_check m p h \<longleftrightarrow>
     (let k = bloom_num_hashes (mp_hdr p); bits = bloom_num_bits (mp_hdr p) in
      \<forall>i \<in> set [0..<k].
        let b = bloom_bit h i bits in
        bit (u64_at m (mp_bloom p + 8 * (b div 64))) (b mod 64))"

definition entry_at :: "u8 list \<Rightarrow> embed_ptrs \<Rightarrow> nat \<Rightarrow> emap" where
  "entry_at m p slot = read_emap m (mp_entries p + EMAP_SIZE * slot)"

definition cstr_at :: "u8 list \<Rightarrow> nat \<Rightarrow> cstring" where
  "cstr_at m off = map (\<lambda>b. char_of (unat b)) (takeWhile (\<lambda>b. b \<noteq> 0) (drop off m))"

definition mp_embed_find :: "image \<Rightarrow> cstring \<Rightarrow> nat option" where
  "mp_embed_find img path =
     (case mp_embed_init img of None \<Rightarrow> None
      | Some p \<Rightarrow>
        if num_entries (mp_hdr p) = 0 then None
        else let m = nuitka_embed_map img; h = mp_hash64 path in
        if \<not> mp_bloom_check m p h then None
        else let bucket = unat h mod num_buckets (mp_hdr p);
                 seed = u32_at m (mp_seeds p + 4 * bucket);
                 slot = unat (mp_chd_mix h seed) mod num_entries (mp_hdr p)
             in if em_hash (entry_at m p slot) = h then Some slot else None)"

definition mp_ascii_lower :: "char \<Rightarrow> char" where
  "mp_ascii_lower c =
     (let n = (of_char c :: nat) in
      if of_char (CHR ''A'') \<le> n \<and> n \<le> of_char (CHR ''Z'')
      then char_of (n + (of_char (CHR ''a'') - of_char (CHR ''A''))) else c)"

text \<open>The debug output of \<^verbatim>\<open>find_embedded_file\<close> is left out.\<close>

definition find_embedded_file :: "image \<Rightarrow> cstring \<Rightarrow> nat option" where
  "find_embedded_file img search_path = mp_embed_find img (map mp_ascii_lower search_path)"

subsection \<open>Accessors of an entry\<close>

text \<open>
  A looked-up entry (\<^verbatim>\<open>EMAP *\<close>) is its slot: the pointer is \<^verbatim>\<open>mp_entries + slot\<close>. Entries exist only
  after \<^verbatim>\<open>mp_embed_init\<close> has run, so the accessors take the pointers it published.
\<close>

definition embed_ptrs_of :: "image \<Rightarrow> embed_ptrs" where
  "embed_ptrs_of img = (case mp_embed_init img of Some p \<Rightarrow> p
     | None \<Rightarrow> \<lparr> mp_hdr = read_header [], mp_bloom = 0, mp_seeds = 0, mp_child_slots = 0,
                 mp_entries = 0, mp_paths = 0, mp_mtimes = None \<rparr>)"

definition emap_of :: "image \<Rightarrow> nat \<Rightarrow> emap" where
  "emap_of img slot = entry_at (nuitka_embed_map img) (embed_ptrs_of img) slot"

definition mp_path_of :: "image \<Rightarrow> nat \<Rightarrow> cstring" where
  "mp_path_of img slot =
     cstr_at (nuitka_embed_map img) (mp_paths (embed_ptrs_of img) + path_offset (emap_of img slot))"

definition mp_embed_child_at :: "image \<Rightarrow> nat \<Rightarrow> nat \<Rightarrow> nat" where
  "mp_embed_child_at img dir i =
     u32_at (nuitka_embed_map img)
       (mp_child_slots (embed_ptrs_of img) + 4 * (children_start (emap_of img dir) + i))"

definition frame_of :: "image \<Rightarrow> nat \<Rightarrow> u8 list" where
  "frame_of img slot =
     take (data_size (emap_of img slot)) (drop (data_pos (emap_of img slot)) (nuitka_embed_data img))"

definition mp_uncompressed_size :: "image \<Rightarrow> nat \<Rightarrow> nat" where
  "mp_uncompressed_size img slot =
     (if data_size (emap_of img slot) = 0 then 0
      else case zstd_frame_size img (frame_of img slot) of
        ZSTD_CONTENTSIZE_ERROR \<Rightarrow> 0 | ZSTD_CONTENTSIZE_UNKNOWN \<Rightarrow> 0 | Zstd_Size n \<Rightarrow> n)"

definition int64_at :: "u8 list \<Rightarrow> nat \<Rightarrow> int" where
  "int64_at m off = wrap64 (int (u64_at m off))"

definition mp_mtime_ns :: "image \<Rightarrow> nat \<Rightarrow> int" where
  "mp_mtime_ns img slot =
     (case mp_mtimes (embed_ptrs_of img) of None \<Rightarrow> 0
      | Some off \<Rightarrow> int64_at (nuitka_embed_map img) (off + 8 * slot))"

end
