(* ===== verification/Vfile.thy ===== *)
theory Vfile
  imports Blob
begin

text \<open>
  Virtual file streams (Embedded/mp_embed.c: \<^verbatim>\<open>mp_decompress_entry\<close> to \<^verbatim>\<open>mp__get_stream_buffer_pointers\<close>,
  \<^verbatim>\<open>mp_virtual_seek\<close> and the virtual branches of the stdio functions; the EFILE struct of
  Include/mp_embed.h). Pointers into the decompressed buffer are offsets from its start, so NULL and
  the start of the buffer are both 0; they are told apart by \<open>owned_buf\<close>. The buffer holds one byte of
  headroom before the content. The spare byte \<^verbatim>\<open>malloc\<close> adds after it is never touched and left out.
  Functions with a Windows part take the platform: \<open>win\<close> is \<^verbatim>\<open>_WIN32\<close>.
\<close>

subsection \<open>Error numbers\<close>

abbreviation (input) ENOENT :: int where "ENOENT \<equiv> 2"
abbreviation (input) EIO :: int where "EIO \<equiv> 5"
abbreviation (input) EBADF :: int where "EBADF \<equiv> 9"
abbreviation (input) ENOMEM :: int where "ENOMEM \<equiv> 12"
abbreviation (input) EACCES :: int where "EACCES \<equiv> 13"
abbreviation (input) ENODEV :: int where "ENODEV \<equiv> 19"
abbreviation (input) ENOTDIR :: int where "ENOTDIR \<equiv> 20"
abbreviation (input) EISDIR :: int where "EISDIR \<equiv> 21"
abbreviation (input) EINVAL :: int where "EINVAL \<equiv> 22"
abbreviation (input) EMFILE :: int where "EMFILE \<equiv> 24"
abbreviation (input) EROFS :: int where "EROFS \<equiv> 30"

subsection \<open>The EFILE\<close>

datatype handle_kind = EHANDLE_NONE | EHANDLE_VIRTUAL | EHANDLE_NATIVE

record efile =
  handle_type :: handle_kind
  ename :: cstring
  pos :: int
  eend :: int
  esize :: nat
  err :: u32
  fptr :: "nat option"
  emap_slot :: nat
  owned_buf :: "u8 list option"
  crt_base :: int
  crt_ptr :: int
  crt_cnt :: int
  unget_saved :: nat
  unget_at :: nat

text \<open>What \<^verbatim>\<open>calloc\<close> (or \<^verbatim>\<open>memset\<close>) gives.\<close>

definition zero_efile :: efile where
  "zero_efile = \<lparr> handle_type = EHANDLE_NONE, ename = [], pos = 0, eend = 0, esize = 0, err = 0,
     fptr = None, emap_slot = 0, owned_buf = None, crt_base = 0, crt_ptr = 0, crt_cnt = 0,
     unget_saved = 0, unget_at = 0 \<rparr>"

text \<open>
  Decompression: \<open>mem\<close> says whether \<^verbatim>\<open>malloc\<close> succeeds; failures carry the value of \<^verbatim>\<open>errno\<close>.
\<close>

definition mp_decompress_entry :: "image \<Rightarrow> bool \<Rightarrow> nat \<Rightarrow> nat \<Rightarrow> int + u8 list \<times> nat" where
  "mp_decompress_entry img mem slot headroom =
     (let frame = frame_of img slot;
          ucs = (if data_size (emap_of img slot) \<noteq> 0 then
                   case zstd_frame_size img frame of
                     ZSTD_CONTENTSIZE_ERROR \<Rightarrow> None | ZSTD_CONTENTSIZE_UNKNOWN \<Rightarrow> None | Zstd_Size n \<Rightarrow> Some n
                 else Some 0)
      in case ucs of None \<Rightarrow> Inl EIO
         | Some n \<Rightarrow>
           if \<not> mem then Inl ENOMEM
           else if n \<noteq> 0 then
             (case zstd_decompress img n frame of
                None \<Rightarrow> Inl EIO
              | Some out \<Rightarrow> if length out \<noteq> n then Inl EIO else Inr (replicate headroom 0 @ out, n))
           else Inr (replicate headroom 0, 0))"

definition mp_efile_init_virtual :: "image \<Rightarrow> bool \<Rightarrow> bool \<Rightarrow> nat \<Rightarrow> efile \<Rightarrow> int + efile" where
  "mp_efile_init_virtual img win mem slot e =
     (case (if is_file (emap_of img slot)
            then map_sum id (\<lambda>(buf, ucs). (Some buf, ucs, 1)) (mp_decompress_entry img mem slot 1)
            else Inr (None, 0, 0)) of
        Inl x \<Rightarrow> Inl x
      | Inr (buf, ucs, base) \<Rightarrow>
        let e = e\<lparr>handle_type := EHANDLE_VIRTUAL, ename := mp_path_of img slot, pos := base,
                  eend := (if base \<noteq> 0 then base + int ucs else 0), esize := ucs, err := 0, fptr := None,
                  emap_slot := slot, owned_buf := buf, unget_saved := 0\<rparr>
        in Inr (if win then e\<lparr>crt_base := base, crt_ptr := base, crt_cnt := sint (word_of_nat ucs :: 32 word)\<rparr>
                else e))"

definition mp_efile_init_metadata :: "image \<Rightarrow> nat \<Rightarrow> efile \<Rightarrow> efile" where
  "mp_efile_init_metadata img slot e =
     e\<lparr>handle_type := EHANDLE_VIRTUAL, ename := mp_path_of img slot,
       esize := mp_uncompressed_size img slot, emap_slot := slot\<rparr>"

definition mp_avail :: "efile \<Rightarrow> nat" where
  "mp_avail e = (if pos e < eend e then nat (eend e - pos e) else 0)"

definition MP_EFILE_EOF :: u32 where "MP_EFILE_EOF = 1"
definition MP_EFILE_ERR :: u32 where "MP_EFILE_ERR = 2"

definition mp_unget_restore :: "efile \<Rightarrow> efile" where
  "mp_unget_restore e =
     (if unget_saved e \<noteq> 0
      then e\<lparr>owned_buf := map_option (\<lambda>b. b[unget_at e := word_of_nat (unget_saved e AND 0xff)]) (owned_buf e),
             unget_saved := 0\<rparr>
      else e)"

definition mp_unget :: "u8 \<Rightarrow> efile \<Rightarrow> bool \<times> efile" where
  "mp_unget c e =
     (if owned_buf e = None \<or> pos e \<le> 0 \<or> pos e > eend e then (False, e)
      else let e = (if unget_saved e \<noteq> 0 \<and> pos e > int (unget_at e) then mp_unget_restore e else e);
               at = nat (pos e - 1);
               old = the (owned_buf e) ! at
      in if old \<noteq> c then
           if unget_saved e \<noteq> 0 then (False, e)
           else (True, e\<lparr>unget_saved := 0x100 OR unat old, unget_at := at,
                         owned_buf := map_option (\<lambda>b. b[at := c]) (owned_buf e),
                         pos := int at, err := err e AND NOT MP_EFILE_EOF\<rparr>)
         else (True, e\<lparr>pos := int at, err := err e AND NOT MP_EFILE_EOF\<rparr>))"

definition mp_sync_in :: "efile \<Rightarrow> efile" where
  "mp_sync_in e = (if handle_type e \<noteq> EHANDLE_VIRTUAL then e else e\<lparr>pos := crt_ptr e\<rparr>)"

definition mp_sync_out :: "efile \<Rightarrow> efile" where
  "mp_sync_out e = (if handle_type e \<noteq> EHANDLE_VIRTUAL then e
     else e\<lparr>crt_ptr := pos e, crt_cnt := sint (word_of_nat (mp_avail e) :: 32 word)\<rparr>)"

abbreviation sync_in :: "bool \<Rightarrow> efile \<Rightarrow> efile" where
  "sync_in win e \<equiv> (if win then mp_sync_in e else e)"

abbreviation sync_out :: "bool \<Rightarrow> efile \<Rightarrow> efile" where
  "sync_out win e \<equiv> (if win then mp_sync_out e else e)"

text \<open>The virtual branch of \<^verbatim>\<open>mp__get_stream_buffer_pointers\<close>: the mirror fields it exposes.\<close>

definition stream_buffer_pointers :: "efile \<Rightarrow> (int \<times> int \<times> int) \<times> efile" where
  "stream_buffer_pointers e =
     (let e = e\<lparr>pos := crt_ptr e\<rparr>; e = e\<lparr>crt_cnt := sint (word_of_nat (mp_avail e) :: 32 word)\<rparr>
      in ((crt_base e, crt_ptr e, crt_cnt e), e))"

subsection \<open>Seeking\<close>

abbreviation (input) SEEK_SET :: int where "SEEK_SET \<equiv> 0"
abbreviation (input) SEEK_CUR :: int where "SEEK_CUR \<equiv> 1"
abbreviation (input) SEEK_END :: int where "SEEK_END \<equiv> 2"

abbreviation ebase :: "efile \<Rightarrow> int" where "ebase e \<equiv> eend e - int (esize e)"

text \<open>The result is the new position; a failed seek (\<open>None\<close>) sets EINVAL.\<close>

definition mp_virtual_seek :: "bool \<Rightarrow> int \<Rightarrow> int \<Rightarrow> efile \<Rightarrow> int option \<times> efile" where
  "mp_virtual_seek win offset whence e =
     (let target = (if whence = SEEK_SET then Some offset
                    else if whence = SEEK_CUR then Some (wrap64 (pos e - ebase e + offset))
                    else if whence = SEEK_END then Some (wrap64 (int (esize e) + offset))
                    else None)
      in case target of None \<Rightarrow> (None, e)
         | Some t \<Rightarrow> if t < 0 then (None, e)
           else let e = mp_unget_restore e; e = e\<lparr>pos := ebase e + t\<rparr>
                in (Some t, sync_out win e))"

subsection \<open>Reading\<close>

text \<open>The \<open>n\<close> bytes \<^verbatim>\<open>memcpy\<close> takes from \<^verbatim>\<open>e->pos\<close>.\<close>

definition bytes_here :: "nat \<Rightarrow> efile \<Rightarrow> u8 list" where
  "bytes_here n e = take n (drop (nat (pos e)) (case owned_buf e of None \<Rightarrow> [] | Some b \<Rightarrow> b))"

definition SIZE_MAX :: nat where "SIZE_MAX = 2 ^ 64 - 1"

text \<open>
  The virtual branches. The value returned comes first, then the bytes stored in the caller's buffer.
\<close>

definition fread_virtual :: "bool \<Rightarrow> nat \<Rightarrow> nat \<Rightarrow> efile \<Rightarrow> (nat \<times> u8 list) \<times> efile" where
  "fread_virtual win sz count e =
     (if sz = 0 \<or> count = 0 then ((0, []), e)
      else let e = sync_in win e;
               avail = mp_avail e;
               want = (if count > SIZE_MAX div sz then SIZE_MAX else sz * count)
      in if avail < want then
           let bs = bytes_here avail e;
               e = e\<lparr>pos := pos e + int avail, err := err e OR MP_EFILE_EOF\<rparr>
           in ((avail div sz, bs), sync_out win e)
         else
           let bs = bytes_here want e; e = e\<lparr>pos := pos e + int want\<rparr>
           in ((count, bs), sync_out win e))"

definition read_virtual :: "bool \<Rightarrow> nat \<Rightarrow> efile \<Rightarrow> u8 list \<times> efile" where
  "read_virtual win count e =
     (let e = sync_in win e;
          n = mp_avail e; n = (if count < n then count else n);
          bs = bytes_here n e; e = e\<lparr>pos := pos e + int n\<rparr>
      in (bs, sync_out win e))"

text \<open>\<^verbatim>\<open>mp_pread\<close> leaves the stream alone.\<close>

definition pread_virtual :: "nat \<Rightarrow> int \<Rightarrow> efile \<Rightarrow> int \<times> int option \<times> u8 list" where
  "pread_virtual count offset e =
     (if offset < 0 then (- 1, Some EINVAL, [])
      else if offset \<ge> int (esize e) then (0, None, [])
      else let n = esize e - nat offset; n = (if count < n then count else n)
           in (int n, None, bytes_here n (e\<lparr>pos := ebase e + offset\<rparr>)))"

definition fgetc_virtual :: "bool \<Rightarrow> efile \<Rightarrow> u8 option \<times> efile" where
  "fgetc_virtual win e =
     (let e = sync_in win e in
      if mp_avail e = 0 then (None, e\<lparr>err := err e OR MP_EFILE_EOF\<rparr>)
      else let ch = hd (bytes_here 1 e); e = e\<lparr>pos := pos e + 1\<rparr>
           in (Some ch, sync_out win e))"

abbreviation (input) NEWLINE :: u8 where "NEWLINE \<equiv> 10"

text \<open>\<open>room\<close> is \<open>num - 1 - i\<close>, so the loop is entered with \<open>0 < room\<close>.\<close>

fun fgets_loop :: "nat \<Rightarrow> efile \<Rightarrow> u8 list \<times> efile" where
  "fgets_loop 0 e = ([], e)"
| "fgets_loop (Suc room) e =
     (let c = hd (bytes_here 1 e); e = e\<lparr>pos := pos e + 1\<rparr> in
      if c = NEWLINE then ([c], e)
      else if room = 0 then ([c], e)
      else if mp_avail e = 0 then ([c], e\<lparr>err := err e OR MP_EFILE_EOF\<rparr>)
      else let (cs, e) = fgets_loop room e in (c # cs, e))"

definition fgets_virtual :: "bool \<Rightarrow> int \<Rightarrow> efile \<Rightarrow> u8 list option \<times> efile" where
  "fgets_virtual win num e =
     (let e = sync_in win e in
      if num \<le> 1 then (None, e)
      else if mp_avail e = 0 then (None, e\<lparr>err := err e OR MP_EFILE_EOF\<rparr>)
      else let (s, e) = fgets_loop (nat (num - 1)) e in (Some s, sync_out win e))"

text \<open>
  The loop of \<^verbatim>\<open>mp_getline\<close>: \<open>mem k\<close> says whether the \<open>k\<close>-th \<^verbatim>\<open>realloc\<close> succeeds, \<open>cap\<close> is \<^verbatim>\<open>*n\<close>, \<open>line\<close>
  the bytes stored so far.
\<close>

lemma fgetc_avail: "fgetc_virtual False e = (Some c, e') \<Longrightarrow> mp_avail e' < mp_avail e"
  by (auto simp: fgetc_virtual_def mp_avail_def Let_def split: if_splits)

function getline_loop :: "(nat \<Rightarrow> bool) \<Rightarrow> nat \<Rightarrow> nat \<Rightarrow> u8 list \<Rightarrow> efile
    \<Rightarrow> (int \<times> u8 list \<times> nat) \<times> efile" where
  "getline_loop mem k cap line e =
     (case fgetc_virtual False e of
        (None, e) \<Rightarrow> ((if line = [] then - 1 else int (length line), line, cap), e)
      | (Some c, e) \<Rightarrow>
        if length line + 1 \<ge> cap \<and> \<not> mem k then ((- 1, line, cap), e)
        else let (cap, k) = (if length line + 1 \<ge> cap then (cap * 2, k + 1) else (cap, k));
                 line = line @ [c]
             in if c = NEWLINE then ((int (length line), line, cap), e)
                else getline_loop mem k cap line e)"
  by pat_completeness auto
termination
  by (relation "measure (\<lambda>(mem, k, cap, line, e). mp_avail e)") (auto dest: fgetc_avail [OF sym])

declare getline_loop.simps [simp del]

text \<open>
  \<open>args\<close> is \<open>None\<close> when \<^verbatim>\<open>lineptr\<close> or \<^verbatim>\<open>n\<close> is NULL, else \<^verbatim>\<open>*lineptr\<close> (as whether it is a buffer) and \<^verbatim>\<open>*n\<close>.
  The result is the value returned, \<^verbatim>\<open>errno\<close> where the function sets it, the line and the new \<^verbatim>\<open>*n\<close>.
\<close>

definition getline_virtual :: "(nat \<Rightarrow> bool) \<Rightarrow> (bool \<times> nat) option \<Rightarrow> efile
    \<Rightarrow> (int \<times> int option \<times> u8 list \<times> nat) \<times> efile" where
  "getline_virtual mem args e =
     (case args of None \<Rightarrow> ((- 1, Some EINVAL, [], 0), e)
      | Some (has_buf, n) \<Rightarrow>
        if \<not> has_buf \<or> n = 0 then
          if \<not> mem 0 then ((- 1, None, [], n), e)
          else let ((r, line, cap), e) = getline_loop mem 1 128 [] e in ((r, None, line, cap), e)
        else let ((r, line, cap), e) = getline_loop mem 0 n [] e in ((r, None, line, cap), e))"

definition WEOF :: int where "WEOF = 0xFFFFFFFF"

definition fgetwc_virtual :: "bool \<Rightarrow> efile \<Rightarrow> int \<times> efile" where
  "fgetwc_virtual win e =
     (let e = sync_in win e in
      if mp_avail e = 0 then (WEOF, e\<lparr>err := err e OR MP_EFILE_EOF\<rparr>)
      else let c = uint (hd (bytes_here 1 e)); e = e\<lparr>pos := pos e + 1\<rparr> in (c, sync_out win e))"

text \<open>
  \<open>scan\<close> is \<^verbatim>\<open>vfscanf\<close> on a private stream over the unread bytes: its result, \<^verbatim>\<open>ftell\<close> afterwards and
  \<^verbatim>\<open>feof\<close>; \<open>None\<close> when that stream cannot be made.
\<close>

definition fscanf_virtual :: "bool \<Rightarrow> (u8 list \<Rightarrow> (int \<times> int \<times> bool) option) \<Rightarrow> efile \<Rightarrow> int \<times> efile" where
  "fscanf_virtual win scan e =
     (let e = sync_in win e; avail = mp_avail e in
      if avail = 0 then (- 1, e\<lparr>err := err e OR MP_EFILE_EOF\<rparr>)
      else case scan (bytes_here avail e) of
        None \<Rightarrow> (- 1, e)
      | Some (result, used, at_eof) \<Rightarrow>
        let e = (if at_eof then e\<lparr>err := err e OR MP_EFILE_EOF\<rparr> else e);
            e = (if used > 0 then e\<lparr>pos := pos e + used\<rparr> else e)
        in (result, sync_out win e))"

subsection \<open>Position, state and push-back\<close>

definition ftell_virtual :: "bool \<Rightarrow> efile \<Rightarrow> int \<times> efile" where
  "ftell_virtual win e = (let e = sync_in win e in (pos e - ebase e, e))"

definition fgetpos_virtual :: "bool \<Rightarrow> efile \<Rightarrow> int option \<times> efile" where
  "fgetpos_virtual win e =
     (let e = sync_in win e; offset = pos e - ebase e
      in (if offset < 0 then None else Some offset, e))"

definition fseek_virtual :: "bool \<Rightarrow> int \<Rightarrow> int \<Rightarrow> efile \<Rightarrow> int \<times> int option \<times> efile" where
  "fseek_virtual win offset origin e =
     (case mp_virtual_seek win offset origin (sync_in win e) of
        (None, e) \<Rightarrow> (- 1, Some EINVAL, e)
      | (Some t, e) \<Rightarrow> (0, None, e\<lparr>err := err e AND NOT MP_EFILE_EOF\<rparr>))"

definition rewind_virtual :: "bool \<Rightarrow> efile \<Rightarrow> efile" where
  "rewind_virtual win e =
     (let e = mp_unget_restore e; e = e\<lparr>pos := ebase e, err := 0\<rparr> in sync_out win e)"

definition clearerr_virtual :: "efile \<Rightarrow> efile" where
  "clearerr_virtual e = e\<lparr>err := 0\<rparr>"

definition feof_virtual :: "efile \<Rightarrow> bool" where
  "feof_virtual e \<longleftrightarrow> err e AND MP_EFILE_EOF \<noteq> 0"

definition ferror_virtual :: "efile \<Rightarrow> bool" where
  "ferror_virtual e \<longleftrightarrow> err e AND MP_EFILE_ERR \<noteq> 0"

definition ungetc_virtual :: "bool \<Rightarrow> int \<Rightarrow> efile \<Rightarrow> int \<times> efile" where
  "ungetc_virtual win character e =
     (if character = - 1 then (- 1, e)
      else let e = sync_in win e; c = word_of_int character :: u8 in
      case mp_unget c e of
        (False, e) \<Rightarrow> (- 1, e) | (True, e) \<Rightarrow> (uint c, sync_out win e))"

definition ungetwc_virtual :: "bool \<Rightarrow> int \<Rightarrow> efile \<Rightarrow> int \<times> efile" where
  "ungetwc_virtual win c e =
     (if c = WEOF \<or> c > 0xff then (WEOF, e)
      else let e = sync_in win e in
      case mp_unget (word_of_int c) e of
        (False, e) \<Rightarrow> (WEOF, e) | (True, e) \<Rightarrow> (c, sync_out win e))"

text \<open>Every function that would write sets the error flag, EBADF, and fails.\<close>

definition write_virtual :: "efile \<Rightarrow> efile" where
  "write_virtual e = e\<lparr>err := err e OR MP_EFILE_ERR\<rparr>"

subsection \<open>Copies\<close>

definition mp_efile_dup :: "image \<Rightarrow> bool \<Rightarrow> (nat \<Rightarrow> bool) \<Rightarrow> efile \<Rightarrow> int + efile" where
  "mp_efile_dup img win mem src =
     (if \<not> mem 0 then Inl ENOMEM
      else if owned_buf src = None then Inr src
      else case mp_efile_init_virtual img win (mem 1) (emap_slot src) zero_efile of
        Inl x \<Rightarrow> Inl x
      | Inr e \<Rightarrow>
        let at = pos src - ebase src;
            e = (if at > 0 then snd (mp_virtual_seek win at SEEK_SET e) else e)
        in Inr (e\<lparr>err := err src\<rparr>))"

end
