(* ===== verification/Vfile_Spec.thy ===== *)
theory Vfile_Spec
  imports Vfile
begin

text \<open>
  What the operations on a virtual stream do, stated over two views of an EFILE: \<open>content_of\<close>, the
  bytes of the file, which no operation changes, and \<open>unread\<close>, the bytes still to be read (a byte
  pushed back included). The statements are for the POSIX build, where the position is \<open>pos\<close>.
\<close>

subsection \<open>Views and well-formedness\<close>

definition content_of :: "efile \<Rightarrow> u8 list" where
  "content_of e = (case owned_buf (mp_unget_restore e) of None \<Rightarrow> [] | Some b \<Rightarrow> tl b)"

definition unread :: "efile \<Rightarrow> u8 list" where
  "unread e = (case owned_buf e of None \<Rightarrow> [] | Some b \<Rightarrow> drop (nat (pos e)) b)"

definition efile_ok :: "efile \<Rightarrow> bool" where
  "efile_ok e \<longleftrightarrow> handle_type e = EHANDLE_VIRTUAL \<and> 0 \<le> pos e
     \<and> (case owned_buf e of
          None \<Rightarrow> eend e = 0 \<and> esize e = 0 \<and> unget_saved e = 0
        | Some b \<Rightarrow> length b = Suc (esize e) \<and> eend e = int (Suc (esize e))
            \<and> (unget_saved e \<noteq> 0 \<longrightarrow> unget_at e < length b))"

lemma efile_ok_cases:
  assumes "efile_ok e"
    and "\<lbrakk>owned_buf e = None; eend e = 0; esize e = 0; unget_saved e = 0; 0 \<le> pos e;
       handle_type e = EHANDLE_VIRTUAL\<rbrakk> \<Longrightarrow> P"
    and "\<And>b. \<lbrakk>owned_buf e = Some b; length b = Suc (esize e); eend e = int (Suc (esize e));
       unget_saved e \<noteq> 0 \<Longrightarrow> unget_at e < length b; 0 \<le> pos e; handle_type e = EHANDLE_VIRTUAL\<rbrakk> \<Longrightarrow> P"
  shows P
  using assms by (cases "owned_buf e") (auto simp: efile_ok_def)

lemma avail_unread [efile_simps]: "efile_ok e \<Longrightarrow> mp_avail e = length (unread e)"
  by (erule efile_ok_cases) (auto simp: mp_avail_def unread_def)

lemma bytes_here_unread [efile_simps]: "bytes_here n e = take n (unread e)"
  by (auto simp: bytes_here_def unread_def split: option.splits)

lemma ok_upd_err [efile_simps]: "efile_ok (e\<lparr>err := x\<rparr>) = efile_ok e"
  "unread (e\<lparr>err := x\<rparr>) = unread e" "content_of (e\<lparr>err := x\<rparr>) = content_of e"
  by (simp_all add: efile_ok_def unread_def content_of_def mp_unget_restore_def cong: option.case_cong)

lemma ok_upd_pos [efile_simps]:
  "efile_ok e \<Longrightarrow> 0 \<le> p \<Longrightarrow> efile_ok (e\<lparr>pos := p\<rparr>)"
  "content_of (e\<lparr>pos := p\<rparr>) = content_of e"
  by (simp_all add: efile_ok_def content_of_def mp_unget_restore_def cong: option.case_cong)

lemma unread_advance [efile_simps]:
  "efile_ok e \<Longrightarrow> unread (e\<lparr>pos := pos e + int n\<rparr>) = drop n (unread e)"
  by (erule efile_ok_cases) (auto simp: unread_def nat_add_distrib add.commute)

lemma unread_advance1 [efile_simps]:
  "efile_ok e \<Longrightarrow> unread (e\<lparr>pos := pos e + 1\<rparr>) = drop 1 (unread e)"
  using unread_advance [of e 1] by simp

lemma ok_pos: "efile_ok e \<Longrightarrow> 0 \<le> pos e"
  by (simp add: efile_ok_def)

lemma length_content: "efile_ok e \<Longrightarrow> length (content_of e) = esize e"
  by (erule efile_ok_cases) (auto simp: content_of_def mp_unget_restore_def)

text \<open>The step most operations make: advance and set flags.\<close>

definition advances :: "nat \<Rightarrow> efile \<Rightarrow> efile \<Rightarrow> bool" where
  "advances n e e' \<longleftrightarrow> efile_ok e' \<and> unread e' = drop n (unread e) \<and> content_of e' = content_of e
     \<and> emap_slot e' = emap_slot e"

lemma advances_refl: "efile_ok e \<Longrightarrow> advances 0 e e"
  by (simp add: advances_def)

lemma advances_trans: "advances m e e' \<Longrightarrow> advances n e' e'' \<Longrightarrow> advances (m + n) e e''"
  by (simp add: advances_def add.commute)

lemma advances_step: "efile_ok e \<Longrightarrow> advances n e (e\<lparr>pos := pos e + int n\<rparr>)"
  by (simp add: advances_def efile_simps ok_pos)

lemma advances_err: "advances n e (e'\<lparr>err := x\<rparr>) = advances n e e'"
  by (simp add: advances_def efile_simps)

subsection \<open>Reading\<close>

lemma read_virtual_ok:
  assumes "efile_ok e"
  shows "fst (read_virtual False n e) = take n (unread e)"
    and "advances n e (snd (read_virtual False n e))"
proof -
  have "take (min n (length (unread e))) (unread e) = take n (unread e)"
    and "drop (min n (length (unread e))) (unread e) = drop n (unread e)"
    by (simp_all add: min_def)
  moreover have "(if n < length (unread e) then n else length (unread e)) = min n (length (unread e))"
    by auto
  ultimately show "fst (read_virtual False n e) = take n (unread e)"
    and "advances n e (snd (read_virtual False n e))"
    using assms advances_step [OF assms, of "min n (length (unread e))"]
    by (simp_all add: read_virtual_def efile_simps advances_def)
qed

definition wanted :: "nat \<Rightarrow> nat \<Rightarrow> nat" where
  "wanted sz count = (if count > SIZE_MAX div sz then SIZE_MAX else sz * count)"

lemma fread_virtual_ok:
  assumes "efile_ok e" "sz \<noteq> 0" "count \<noteq> 0"
  defines "r \<equiv> fread_virtual False sz count e"
  shows "snd (fst r) = take (wanted sz count) (unread e)"
    and "fst (fst r) = (if length (unread e) < wanted sz count then length (unread e) div sz else count)"
    and "advances (wanted sz count) e (snd r)"
    and "feof_virtual (snd r) \<longleftrightarrow> feof_virtual e \<or> length (unread e) < wanted sz count"
proof -
  have eof: "(x OR MP_EFILE_EOF) AND MP_EFILE_EOF \<noteq> 0" for x
    by (simp only: word_ao_absorbs) (simp add: MP_EFILE_EOF_def)
  show "snd (fst r) = take (wanted sz count) (unread e)"
    and "fst (fst r) = (if length (unread e) < wanted sz count then length (unread e) div sz else count)"
    using assms by (auto simp: fread_virtual_def efile_simps wanted_def Let_def)
  show "advances (wanted sz count) e (snd r)"
  proof (cases "length (unread e) < wanted sz count")
    case True
    with assms advances_step [OF assms(1), of "length (unread e)"] show ?thesis
      by (simp add: fread_virtual_def efile_simps wanted_def [symmetric] Let_def advances_def)
  next
    case False
    with assms advances_step [OF assms(1), of "wanted sz count"] show ?thesis
      by (simp add: fread_virtual_def efile_simps wanted_def [symmetric] Let_def)
  qed
  show "feof_virtual (snd r) \<longleftrightarrow> feof_virtual e \<or> length (unread e) < wanted sz count"
    using assms eof by (simp add: fread_virtual_def efile_simps wanted_def [symmetric] Let_def feof_virtual_def)
qed

lemma fgetc_virtual_ok:
  assumes "efile_ok e"
  shows "fst (fgetc_virtual False e) = (case unread e of [] \<Rightarrow> None | c # cs \<Rightarrow> Some c)"
    and "advances 1 e (snd (fgetc_virtual False e))"
  using assms advances_step [OF assms, of 1] advances_refl [OF assms]
  by (cases "unread e"; simp add: fgetc_virtual_def efile_simps Let_def advances_def)+

text \<open>The line a bounded read returns: up to and including the first newline, at most \<open>k\<close> bytes.\<close>

fun take_line :: "nat \<Rightarrow> u8 list \<Rightarrow> u8 list" where
  "take_line 0 bs = []"
| "take_line (Suc k) [] = []"
| "take_line (Suc k) (b # bs) = (if b = NEWLINE then [b] else b # take_line k bs)"

lemma take_line_prefix: "take (length (take_line k bs)) bs = take_line k bs"
  by (induction k bs rule: take_line.induct) auto

lemma take_line_nil [simp]: "take_line k [] = []"
  by (cases k) auto

lemma fgets_loop_ok:
  "efile_ok e \<Longrightarrow> unread e \<noteq> [] \<Longrightarrow> 0 < room
    \<Longrightarrow> fst (fgets_loop room e) = take_line room (unread e)
      \<and> advances (length (take_line room (unread e))) e (snd (fgets_loop room e))"
proof (induction room e rule: fgets_loop.induct)
  case (1 e)
  then show ?case by simp
next
  case (2 room e)
  let ?e = "e\<lparr>pos := pos e + 1\<rparr>"
  obtain c cs where u: "unread e = c # cs" using 2 by (cases "unread e") auto
  have adv: "advances 1 e ?e" using advances_step [OF 2(2), of 1] by simp
  then have ok: "efile_ok ?e" and u': "unread ?e = cs" using u by (simp_all add: advances_def)
  have hd: "hd (bytes_here 1 e) = c" using u by (simp add: efile_simps)
  show ?case
  proof (cases "c = NEWLINE \<or> room = 0 \<or> cs = []")
    case True
    with adv ok u u' hd show ?thesis
      by (cases room) (auto simp: Let_def efile_simps advances_err)
  next
    case False
    with 2(1) [OF refl refl] hd ok u u' have
      IH: "fst (fgets_loop room ?e) = take_line room cs"
        "advances (length (take_line room cs)) ?e (snd (fgets_loop room ?e))"
      by (simp_all add: efile_simps)
    from False hd u u' ok IH advances_trans [OF adv IH(2)] show ?thesis
      by (simp add: Let_def split_beta efile_simps)
  qed
qed


lemma fgets_virtual_ok:
  assumes "efile_ok e"
  shows "fst (fgets_virtual False num e)
      = (if num \<le> 1 \<or> unread e = [] then None else Some (take_line (nat (num - 1)) (unread e)))"
    and "advances (if num \<le> 1 then 0 else length (take_line (nat (num - 1)) (unread e))) e
           (snd (fgets_virtual False num e))"
  using assms fgets_loop_ok [OF assms, of "nat (num - 1)"] advances_refl [OF assms]
  by (auto simp: fgets_virtual_def efile_simps Let_def split_beta advances_err)

text \<open>Without a bound: the first line.\<close>

fun first_line :: "u8 list \<Rightarrow> u8 list" where
  "first_line [] = []"
| "first_line (b # bs) = (if b = NEWLINE then [b] else b # first_line bs)"

lemma fgetc_virtual_cases:
  assumes "efile_ok e"
  obtains (eof) e' where "unread e = []" "fgetc_virtual False e = (None, e')" "advances 0 e e'"
  | (byte) c e' where "unread e = c # unread e'" "fgetc_virtual False e = (Some c, e')" "advances 1 e e'"
proof (cases "unread e")
  case Nil
  with fgetc_virtual_ok [OF assms] eof [of "snd (fgetc_virtual False e)"] show thesis
    by (cases "fgetc_virtual False e") (auto simp: advances_def)
next
  case (Cons c cs)
  with fgetc_virtual_ok [OF assms] byte [of c "snd (fgetc_virtual False e)"] show thesis
    by (cases "fgetc_virtual False e") (auto simp: advances_def)
qed

lemma getline_loop_ok:
  assumes "efile_ok e" "length line < cap"
  shows "(case getline_loop mem k cap line e of ((r, l, cap'), e') \<Rightarrow>
     length l < cap' \<and> (\<exists>n. advances n e e')
     \<and> ((\<forall>i. mem i) \<longrightarrow> l = line @ first_line (unread e) \<and> r = (if l = [] then - 1 else int (length l))
          \<and> advances (length (first_line (unread e))) e e'))"
  using assms
proof (induction mem k cap line e rule: getline_loop.induct)
  case (1 mem k cap line e)
  from \<open>efile_ok e\<close> show ?case
  proof (cases rule: fgetc_virtual_cases)
    case (eof e')
    with 1 show ?thesis by (subst getline_loop.simps) auto
  next
    case (byte c e')
    then have ok: "efile_ok e'" by (simp add: advances_def)
    show ?thesis
    proof (cases "length line + 1 \<ge> cap \<and> \<not> mem k")
      case True
      with byte 1 show ?thesis by (subst getline_loop.simps) auto
    next
      case room: False
      define cap' where "cap' = (if length line + 1 \<ge> cap then cap * 2 else cap)"
      define k' where "k' = (if length line + 1 \<ge> cap then k + 1 else k)"
      have lt: "length (line @ [c]) < cap'" using 1(3) by (auto simp: cap'_def)
      have eq: "getline_loop mem k cap line e =
        (if c = NEWLINE then ((int (length (line @ [c])), line @ [c], cap'), e')
         else getline_loop mem k' cap' (line @ [c]) e')"
        using room byte(2) by (subst getline_loop.simps) (auto simp: cap'_def k'_def)
      show ?thesis
      proof (cases "c = NEWLINE")
        case True
        with eq lt byte show ?thesis by auto
      next
        case False
        from 1(1) [OF byte(2) [symmetric] refl room _ refl refl False ok, of cap' k'] lt
        have IH: "case getline_loop mem k' cap' (line @ [c]) e' of ((r, l, cap''), e'') \<Rightarrow>
           length l < cap'' \<and> (\<exists>n. advances n e' e'')
           \<and> ((\<forall>i. mem i) \<longrightarrow> l = (line @ [c]) @ first_line (unread e')
                \<and> r = (if l = [] then - 1 else int (length l))
                \<and> advances (length (first_line (unread e'))) e' e'')"
          by (simp add: cap'_def k'_def)
        then show ?thesis using eq False byte advances_trans [OF byte(3)] by (auto split: prod.splits)
      qed
    qed
  qed
qed

subsection \<open>Positioning\<close>

lemma restore_ok:
  assumes "efile_ok e"
  shows "efile_ok (mp_unget_restore e)" "content_of (mp_unget_restore e) = content_of e"
    "unget_saved (mp_unget_restore e) = 0"
    "ebase (mp_unget_restore e) = ebase e" "emap_slot (mp_unget_restore e) = emap_slot e"
  using assms
  by (auto simp: mp_unget_restore_def efile_ok_def content_of_def split: option.splits)

lemma unread_at:
  assumes "efile_ok e" "unget_saved e = 0" "0 \<le> t"
  shows "unread (e\<lparr>pos := ebase e + t\<rparr>) = drop (nat t) (content_of e)"
    and "efile_ok (e\<lparr>pos := ebase e + t\<rparr>)"
  using assms(2,3)
  by (rule_tac [!] efile_ok_cases [OF assms(1)])
    (simp_all add: unread_def content_of_def mp_unget_restore_def efile_ok_def nat_add_distrib drop_Suc)

definition seek_target :: "int \<Rightarrow> int \<Rightarrow> efile \<Rightarrow> int option" where
  "seek_target offset whence e =
     (let t = (if whence = SEEK_SET then offset
               else if whence = SEEK_CUR then wrap64 (pos e - ebase e + offset)
               else wrap64 (int (esize e) + offset))
      in if whence \<notin> {SEEK_SET, SEEK_CUR, SEEK_END} \<or> t < 0 then None else Some t)"

lemma virtual_seek_ok:
  fixes offset whence t :: int
  assumes "efile_ok e"
  defines "r \<equiv> mp_virtual_seek False offset whence e"
  shows "fst r = seek_target offset whence e"
    and "efile_ok (snd r)" and "content_of (snd r) = content_of e" and "emap_slot (snd r) = emap_slot e"
    and "fst r = None \<Longrightarrow> snd r = e"
    and "fst r = Some t \<Longrightarrow> unread (snd r) = drop (nat t) (content_of e) \<and> unget_saved (snd r) = 0
          \<and> pos (snd r) = ebase (snd r) + t"
proof -
  note rest = restore_ok [OF assms(1)]
  show "fst r = seek_target offset whence e"
    by (auto simp: r_def mp_virtual_seek_def seek_target_def Let_def)
  show "fst r = None \<Longrightarrow> snd r = e"
    by (auto simp: r_def mp_virtual_seek_def Let_def split: if_splits)
  have eq: "snd r = (case seek_target offset whence e of None \<Rightarrow> e
      | Some t \<Rightarrow> (mp_unget_restore e)\<lparr>pos := ebase (mp_unget_restore e) + t\<rparr>)"
    by (auto simp: r_def mp_virtual_seek_def seek_target_def Let_def)
  have nonneg: "0 \<le> t" if "seek_target offset whence e = Some t" for t
    using that by (auto simp: seek_target_def Let_def split: if_splits)
  show "efile_ok (snd r)" "content_of (snd r) = content_of e" "emap_slot (snd r) = emap_slot e"
    using eq nonneg unread_at [OF rest(1,3)] rest assms(1)
    by (auto split: option.splits simp: efile_simps)
  show "fst r = Some t \<Longrightarrow> unread (snd r) = drop (nat t) (content_of e) \<and> unget_saved (snd r) = 0
          \<and> pos (snd r) = ebase (snd r) + t"
    using eq nonneg unread_at [OF rest(1,3)] rest \<open>fst r = seek_target offset whence e\<close>
    by (auto split: option.splits)
qed


lemma rewind_virtual_ok:
  assumes "efile_ok e"
  shows "efile_ok (rewind_virtual False e)" "unread (rewind_virtual False e) = content_of e"
    "content_of (rewind_virtual False e) = content_of e" "err (rewind_virtual False e) = 0"
    "emap_slot (rewind_virtual False e) = emap_slot e"
  using unread_at [OF restore_ok(1,3) [OF assms], of 0] restore_ok [OF assms]
  by (simp_all add: rewind_virtual_def Let_def efile_simps)

lemma fseek_virtual_ok:
  assumes "efile_ok e"
  shows "efile_ok (snd (snd (fseek_virtual False offset whence e)))"
    and "content_of (snd (snd (fseek_virtual False offset whence e))) = content_of e"
    and "fst (fseek_virtual False offset whence e) = (if seek_target offset whence e = None then - 1 else 0)"
    and "seek_target offset whence e = Some t \<Longrightarrow>
          unread (snd (snd (fseek_virtual False offset whence e))) = drop (nat t) (content_of e)"
    and "emap_slot (snd (snd (fseek_virtual False offset whence e))) = emap_slot e"
  using virtual_seek_ok [OF assms, of offset whence]
  by (cases "mp_virtual_seek False offset whence e"; cases "seek_target offset whence e";
      simp add: fseek_virtual_def efile_simps)+

lemma pread_virtual_ok:
  assumes "efile_ok e" "unget_saved e = 0" "0 \<le> offset" "content_of e \<noteq> []"
  shows "pread_virtual count offset e
    = (int (length (take count (drop (nat offset) (content_of e)))), None,
       take count (drop (nat offset) (content_of e)))"
proof -
  have "take (min count (length x)) x = take count x" for x :: "u8 list" by (simp add: min_def)
  with unread_at(1) [OF assms(1-3)] length_content [OF assms(1)] assms(3) show ?thesis
    by (auto simp: pread_virtual_def efile_simps Let_def min_def nat_le_iff)
qed

subsection \<open>Push-back\<close>

text \<open>When a byte can be pushed back: the one guaranteed by stdio, or one equal to the content.\<close>

definition can_unget :: "u8 \<Rightarrow> efile \<Rightarrow> bool" where
  "can_unget c e \<longleftrightarrow> owned_buf e \<noteq> None \<and> 0 < pos e \<and> pos e \<le> eend e
     \<and> (unget_saved e = 0 \<or> int (unget_at e) < pos e \<or> the (owned_buf e) ! nat (pos e - 1) = c)"

lemma saved_byte: "word_of_nat ((0x100 OR unat (b :: u8)) AND 0xff) = b"
proof -
  have "(0x100 OR n) AND 0xff = (n :: nat)" if "n < 256" for n
  proof -
    have "(0x100 OR n) AND 0xff = take_bit 8 (0x100 OR n)"
      by (simp add: take_bit_eq_mask mask_eq_exp_minus_1)
    also have "\<dots> = take_bit 8 0x100 OR take_bit 8 n" by (rule take_bit_or)
    also have "\<dots> = n" using that by (simp add: take_bit_nat_eq_self)
    finally show ?thesis .
  qed
  moreover have "unat b < 256" using unsigned_less [of b] by simp
  ultimately show ?thesis by simp
qed

lemma unread_cons_at:
  assumes "owned_buf e = Some b" "0 < pos e" "pos e \<le> int (length b)"
  shows "drop (nat (pos e - 1)) b = b ! nat (pos e - 1) # unread e"
proof -
  have "nat (pos e - 1) < length b" using assms by linarith
  moreover have "Suc (nat (pos e - 1)) = nat (pos e)" using assms by linarith
  ultimately show ?thesis using assms(1) by (simp add: unread_def Cons_nth_drop_Suc [symmetric])
qed

text \<open>The stream as \<^verbatim>\<open>mp_unget\<close> goes on with it once a read push-back is put back.\<close>

definition settled :: "efile \<Rightarrow> efile" where
  "settled e = (if unget_saved e \<noteq> 0 \<and> pos e > int (unget_at e) then mp_unget_restore e else e)"

lemma settled_ok:
  assumes "efile_ok e"
  shows "efile_ok (settled e)" "content_of (settled e) = content_of e" "unread (settled e) = unread e"
    "pos (settled e) = pos e" "eend (settled e) = eend e" "emap_slot (settled e) = emap_slot e"
    "err (settled e) = err e" "owned_buf (settled e) = None \<longleftrightarrow> owned_buf e = None"
    "unget_saved (settled e) = 0 \<longleftrightarrow> unget_saved e = 0 \<or> int (unget_at e) < pos e"
    "\<not> (unget_saved e = 0 \<or> int (unget_at e) < pos e) \<Longrightarrow> settled e = e"
  using assms restore_ok [OF assms]
  by (auto simp: settled_def mp_unget_restore_def unread_def split: option.splits)

lemma unget_settled:
  "mp_unget c e = (if owned_buf e = None \<or> pos e \<le> 0 \<or> pos e > eend e then (False, e)
     else let e = settled e; at = nat (pos e - 1)
      in if the (owned_buf e) ! at \<noteq> c then
           if unget_saved e \<noteq> 0 then (False, e)
           else (True, e\<lparr>unget_saved := 0x100 OR unat (the (owned_buf e) ! at), unget_at := at,
                         owned_buf := map_option (\<lambda>b. b[at := c]) (owned_buf e),
                         pos := int at, err := err e AND NOT MP_EFILE_EOF\<rparr>)
         else (True, e\<lparr>pos := int at, err := err e AND NOT MP_EFILE_EOF\<rparr>))"
  by (simp add: mp_unget_def settled_def Let_def)

lemma unget_step:
  assumes ok: "efile_ok e" and b: "owned_buf e = Some b" and p: "0 < pos e" "pos e \<le> eend e"
    and saved: "unget_saved e = 0 \<or> b ! nat (pos e - 1) = c"
  defines "at \<equiv> nat (pos e - 1)"
  defines "e' \<equiv> (if b ! at \<noteq> c
      then e\<lparr>unget_saved := 0x100 OR unat (b ! at), unget_at := at,
             owned_buf := Some (b[at := c]), pos := int at, err := err e AND NOT MP_EFILE_EOF\<rparr>
      else e\<lparr>pos := int at, err := err e AND NOT MP_EFILE_EOF\<rparr>)"
  shows "efile_ok e'" "content_of e' = content_of e" "unread e' = c # unread e" "emap_slot e' = emap_slot e"
proof -
  have len: "length b = Suc (esize e)" "eend e = int (length b)" using ok b by (auto simp: efile_ok_def)
  have at: "at < length b" using p len by (simp add: at_def nat_less_iff)
  have drop: "drop at b = b ! at # unread e"
    using unread_cons_at [OF b p(1)] p(2) len by (simp add: at_def)
  show "emap_slot e' = emap_slot e" by (simp add: e'_def)
  show "efile_ok e'" using ok b at by (auto simp: e'_def efile_ok_def)
  have "drop at (b[at := c]) = c # unread e"
    using drop at by (metis drop_update_swap le_refl diff_self_eq_0 list_update_code(2))
  with drop show "unread e' = c # unread e" using b by (auto simp: e'_def unread_def)
  show "content_of e' = content_of e"
  proof (cases "b ! at = c")
    case True
    then show ?thesis by (simp add: e'_def content_of_def mp_unget_restore_def)
  next
    case False
    with saved have "unget_saved e = 0" by (simp add: at_def)
    moreover have "b[at := c, at := word_of_nat ((0x100 OR unat (b ! at)) AND 0xff)] = b"
      using saved_byte [of "b ! at"] by (simp only: list_update_overwrite list_update_id)
    moreover have "0x100 OR unat (b ! at) \<noteq> (0 :: nat)"
      by (metis or_eq_0_iff zero_neq_numeral)
    ultimately show ?thesis using False b by (simp add: e'_def content_of_def mp_unget_restore_def)
  qed
qed

lemma unget_ok:
  assumes "efile_ok e"
  shows "fst (mp_unget c e) \<longleftrightarrow> can_unget c e"
    and "efile_ok (snd (mp_unget c e))" and "content_of (snd (mp_unget c e)) = content_of e"
    and "unread (snd (mp_unget c e)) = (if can_unget c e then c # unread e else unread e)"
    and "emap_slot (snd (mp_unget c e)) = emap_slot e"
proof -
  note set = settled_ok [OF assms]
  have *: "(fst (mp_unget c e) \<longleftrightarrow> can_unget c e) \<and> efile_ok (snd (mp_unget c e))
     \<and> content_of (snd (mp_unget c e)) = content_of e \<and> emap_slot (snd (mp_unget c e)) = emap_slot e
     \<and> unread (snd (mp_unget c e)) = (if can_unget c e then c # unread e else unread e)"
  proof (cases "owned_buf e = None \<or> pos e \<le> 0 \<or> pos e > eend e")
    case True
    with assms show ?thesis by (auto simp: unget_settled can_unget_def)
  next
    case False
    then obtain b where b: "owned_buf (settled e) = Some b" using set(8) by auto
    let ?at = "nat (pos e - 1)"
    show ?thesis
    proof (cases "unget_saved (settled e) = 0 \<or> b ! ?at = c")
      case True
      have can: "can_unget c e"
        using True False b set(9,10) by (cases "unget_saved e = 0 \<or> int (unget_at e) < pos e")
          (auto simp: can_unget_def)
      have "0 < pos (settled e)" "pos (settled e) \<le> eend (settled e)" using False set by auto
      note step = unget_step [OF set(1) b this, of c]
      have "fst (mp_unget c e)" using True False b by (auto simp: unget_settled Let_def set(4))
      moreover have "snd (mp_unget c e) = (if b ! ?at \<noteq> c
          then (settled e)\<lparr>unget_saved := 0x100 OR unat (b ! ?at), unget_at := ?at,
             owned_buf := Some (b[?at := c]), pos := int ?at, err := err (settled e) AND NOT MP_EFILE_EOF\<rparr>
          else (settled e)\<lparr>pos := int ?at, err := err (settled e) AND NOT MP_EFILE_EOF\<rparr>)"
        using True False b by (auto simp: unget_settled Let_def set(4))
      ultimately show ?thesis using step True can set by (simp only: set) simp
    next
      case no: False
      then have "settled e = e" "\<not> can_unget c e"
        using set(9,10) b by (auto simp: can_unget_def)
      with no False b assms show ?thesis by (auto simp: unget_settled Let_def)
    qed
  qed
  then show "fst (mp_unget c e) \<longleftrightarrow> can_unget c e" "efile_ok (snd (mp_unget c e))"
    "content_of (snd (mp_unget c e)) = content_of e"
    "unread (snd (mp_unget c e)) = (if can_unget c e then c # unread e else unread e)"
    "emap_slot (snd (mp_unget c e)) = emap_slot e" by auto
qed


lemma ungetc_virtual_eq:
  "ungetc_virtual False ch e = (if ch = - 1 then (- 1, e)
     else (if fst (mp_unget (word_of_int ch) e) then uint (word_of_int ch :: u8) else - 1,
           snd (mp_unget (word_of_int ch) e)))"
  by (simp add: ungetc_virtual_def Let_def split: prod.split bool.split)

lemma ungetc_virtual_ok:
  assumes "efile_ok e"
  shows "efile_ok (snd (ungetc_virtual False ch e))"
    and "content_of (snd (ungetc_virtual False ch e)) = content_of e"
    and "fst (ungetc_virtual False ch e)
      = (if ch \<noteq> - 1 \<and> can_unget (word_of_int ch) e then uint (word_of_int ch :: u8) else - 1)"
    and "unread (snd (ungetc_virtual False ch e))
      = (if ch \<noteq> - 1 \<and> can_unget (word_of_int ch) e then word_of_int ch # unread e else unread e)"
    and "emap_slot (snd (ungetc_virtual False ch e)) = emap_slot e"
  using assms by (simp_all add: ungetc_virtual_eq unget_ok)

lemma ungetwc_virtual_ok:
  assumes "efile_ok e"
  shows "efile_ok (snd (ungetwc_virtual False ch e))"
    and "content_of (snd (ungetwc_virtual False ch e)) = content_of e"
    and "emap_slot (snd (ungetwc_virtual False ch e)) = emap_slot e"
proof -
  have "snd (ungetwc_virtual False ch e) = e
      \<or> snd (ungetwc_virtual False ch e) = snd (mp_unget (word_of_int ch) e)"
    by (simp add: ungetwc_virtual_def Let_def split: prod.split bool.split)
  then show "efile_ok (snd (ungetwc_virtual False ch e))"
    "content_of (snd (ungetwc_virtual False ch e)) = content_of e"
    "emap_slot (snd (ungetwc_virtual False ch e)) = emap_slot e"
    using assms unget_ok [OF assms] by auto
qed

subsection \<open>Opening\<close>

text \<open>The content a file entry decompresses to; \<open>None\<close> when its frame is damaged.\<close>

definition file_content :: "image \<Rightarrow> nat \<Rightarrow> u8 list option" where
  "file_content img slot =
     (if data_size (emap_of img slot) = 0 then Some []
      else case zstd_frame_size img (frame_of img slot) of
        Zstd_Size n \<Rightarrow>
          if n = 0 then Some []
          else (case zstd_decompress img n (frame_of img slot) of
                  Some out \<Rightarrow> if length out = n then Some out else None | None \<Rightarrow> None)
      | _ \<Rightarrow> None)"

lemma decompress_entry_content:
  "mp_decompress_entry img mem slot h =
     (case file_content img slot of
        Some c \<Rightarrow> if mem then Inr (replicate h 0 @ c, length c) else Inl ENOMEM
      | None \<Rightarrow> Inl (case mp_decompress_entry img mem slot h of Inl x \<Rightarrow> x | Inr _ \<Rightarrow> 0))"
  by (auto simp: mp_decompress_entry_def file_content_def Let_def split: zstd_size.splits option.splits)

lemma decompress_entry_fails:
  "file_content img slot = None \<Longrightarrow> mp_decompress_entry img mem slot h \<in> {Inl EIO, Inl ENOMEM}"
  by (auto simp: mp_decompress_entry_def file_content_def Let_def split: zstd_size.splits option.splits if_splits)

lemma init_virtual_file:
  assumes "is_file (emap_of img slot)" "file_content img slot = Some c"
  shows "mp_efile_init_virtual img False True slot e = Inr (e\<lparr>handle_type := EHANDLE_VIRTUAL,
     ename := mp_path_of img slot, pos := 1, eend := 1 + int (length c), esize := length c, err := 0,
     fptr := None, emap_slot := slot, owned_buf := Some (0 # c), unget_saved := 0\<rparr>)"
  using assms decompress_entry_content [of img True slot 1]
  by (simp add: mp_efile_init_virtual_def)

lemma init_virtual_ok:
  assumes "mp_efile_init_virtual img False mem slot e = Inr e'"
  shows "efile_ok e' \<and> unget_saved e' = 0 \<and> err e' = 0 \<and> emap_slot e' = slot \<and> ename e' = mp_path_of img slot
     \<and> unread e' = content_of e' \<and> (owned_buf e' \<noteq> None \<longleftrightarrow> is_file (emap_of img slot))
     \<and> (is_file (emap_of img slot) \<longrightarrow> file_content img slot = Some (content_of e'))"
proof (cases "is_file (emap_of img slot)")
  case True
  with assms decompress_entry_fails [of img slot mem 1] obtain c where c: "file_content img slot = Some c"
    by (cases "file_content img slot") (auto simp: mp_efile_init_virtual_def)
  moreover have mem
    using assms True c decompress_entry_content [of img mem slot 1]
    by (cases mem) (auto simp: mp_efile_init_virtual_def)
  ultimately show ?thesis
    using assms init_virtual_file [OF True c, of e] True
    by (auto simp: efile_ok_def unread_def content_of_def mp_unget_restore_def)
next
  case False
  with assms show ?thesis
    by (auto simp: mp_efile_init_virtual_def efile_ok_def unread_def content_of_def mp_unget_restore_def)
qed

subsection \<open>Streams as state machines\<close>

datatype stream_op =
    Fread nat nat
  | Read nat
  | Fgetc
  | Fgets int
  | Getline "nat \<Rightarrow> bool" "(bool \<times> nat) option"
  | Fgetwc
  | Fscanf "u8 list \<Rightarrow> (int \<times> int \<times> bool) option"
  | Fseek int int
  | Lseek int int
  | Rewind
  | Ungetc int
  | Ungetwc int
  | Clearerr
  | Write

fun stream_step :: "stream_op \<Rightarrow> efile \<Rightarrow> efile" where
  "stream_step (Fread sz n) e = snd (fread_virtual False sz n e)"
| "stream_step (Read n) e = snd (read_virtual False n e)"
| "stream_step Fgetc e = snd (fgetc_virtual False e)"
| "stream_step (Fgets n) e = snd (fgets_virtual False n e)"
| "stream_step (Getline mem args) e = snd (getline_virtual mem args e)"
| "stream_step Fgetwc e = snd (fgetwc_virtual False e)"
| "stream_step (Fscanf scan) e = snd (fscanf_virtual False scan e)"
| "stream_step (Fseek off wh) e = snd (snd (fseek_virtual False off wh e))"
| "stream_step (Lseek off wh) e = snd (mp_virtual_seek False off wh e)"
| "stream_step Rewind e = rewind_virtual False e"
| "stream_step (Ungetc c) e = snd (ungetc_virtual False c e)"
| "stream_step (Ungetwc c) e = snd (ungetwc_virtual False c e)"
| "stream_step Clearerr e = clearerr_virtual e"
| "stream_step Write e = write_virtual e"

inductive stream_reach :: "image \<Rightarrow> nat \<Rightarrow> efile \<Rightarrow> bool" for img slot where
  opened: "mp_efile_init_virtual img False mem slot zero_efile = Inr e \<Longrightarrow> stream_reach img slot e"
| stepped: "stream_reach img slot e \<Longrightarrow> stream_reach img slot (stream_step op e)"

text \<open>Operations keep the file: well-formedness, content and entry.\<close>

definition keeps :: "efile \<Rightarrow> efile \<Rightarrow> bool" where
  "keeps e e' \<longleftrightarrow> efile_ok e' \<and> content_of e' = content_of e \<and> emap_slot e' = emap_slot e"

lemma advances_keeps: "advances n e e' \<Longrightarrow> keeps e e'"
  by (simp add: advances_def keeps_def)

lemma getline_virtual_keeps: "efile_ok e \<Longrightarrow> keeps e (snd (getline_virtual mem args e))"
proof -
  assume ok: "efile_ok e"
  have loop: "keeps e (snd (getline_loop mem k cap [] e))" if "0 < cap" for k cap
    using getline_loop_ok [OF ok, of "[]" cap mem k] that advances_keeps by (auto split: prod.splits)
  have refl: "keeps e e" using ok by (simp add: keeps_def)
  show ?thesis
    using loop [of 128 1] loop [of _ 0] refl
    by (simp add: getline_virtual_def split_beta split: option.splits)
qed

lemma fgetwc_keeps: "efile_ok e \<Longrightarrow> keeps e (snd (fgetwc_virtual False e))"
  by (auto simp: fgetwc_virtual_def keeps_def efile_simps Let_def ok_pos)

lemma fscanf_keeps: "efile_ok e \<Longrightarrow> keeps e (snd (fscanf_virtual False scan e))"
  using ok_pos [of e]
  by (auto simp: fscanf_virtual_def keeps_def efile_simps Let_def split: option.splits)

lemma stream_step_keeps: "efile_ok e \<Longrightarrow> keeps e (stream_step op e)"
proof (cases op)
  case (Fread sz n)
  assume ok: "efile_ok e"
  with Fread show ?thesis
  proof (cases "sz = 0 \<or> n = 0")
    case True
    with Fread ok show ?thesis by (auto simp: fread_virtual_def keeps_def)
  next
    case False
    with Fread ok fread_virtual_ok(3) [OF ok, of sz n] show ?thesis by (auto intro: advances_keeps)
  qed
qed (auto simp: keeps_def efile_simps getline_virtual_keeps [unfolded keeps_def]
      fgetwc_keeps [unfolded keeps_def] fscanf_keeps [unfolded keeps_def] fseek_virtual_ok virtual_seek_ok
      rewind_virtual_ok ungetc_virtual_ok ungetwc_virtual_ok clearerr_virtual_def write_virtual_def
      read_virtual_ok(2) [THEN advances_keeps, unfolded keeps_def]
      fgetc_virtual_ok(2) [THEN advances_keeps, unfolded keeps_def]
      fgets_virtual_ok(2) [THEN advances_keeps, unfolded keeps_def])

lemma stream_reach_ok:
  "stream_reach img slot e \<Longrightarrow> efile_ok e \<and> emap_slot e = slot
     \<and> (is_file (emap_of img slot) \<longrightarrow> file_content img slot = Some (content_of e))"
proof (induction rule: stream_reach.induct)
  case (opened mem e)
  from init_virtual_ok [OF opened] show ?case by blast
next
  case (stepped e op)
  then show ?case using stream_step_keeps [of e op] by (simp add: keeps_def)
qed

end
