(* ===== verification/Registry.thy ===== *)
theory Registry
  imports Vfile
begin

text \<open>
  The registries of Embedded/mp_embed.c: fixed tables of 512 slots that map an fd, a HANDLE or a
  pointer the program holds to the object behind it. A free slot carries a reserved key (-1 for fds,
  NULL for the rest). The loops are instances of three scans; the interface \<open>registry\<close> says what their
  clients rely on, and each table is an interpretation of it.
\<close>

definition REGISTRY_SLOTS :: nat where "REGISTRY_SLOTS = 512"

subsection \<open>The scans\<close>

text \<open>\<open>claim\<close> fills the first free slot, \<open>find_slot\<close> reads the first match, \<open>release\<close> clears it.\<close>

definition claim :: "('s \<Rightarrow> bool) \<Rightarrow> 's \<Rightarrow> 's list \<Rightarrow> 's list option" where
  "claim P s t = map_option (\<lambda>i. t[i := s]) (first_slot P t)"

definition find_slot :: "('s \<Rightarrow> bool) \<Rightarrow> 's list \<Rightarrow> 's option" where
  "find_slot P t = map_option (\<lambda>i. t ! i) (first_slot P t)"

definition release :: "('s \<Rightarrow> bool) \<Rightarrow> 's \<Rightarrow> 's list \<Rightarrow> 's list" where
  "release P s0 t = (case first_slot P t of None \<Rightarrow> t | Some i \<Rightarrow> t[i := s0])"

lemma length_claim [simp]: "claim P s t = Some t' \<Longrightarrow> length t' = length t"
  by (auto simp: claim_def)

lemma length_release [simp]: "length (release P s0 t) = length t"
  by (simp add: release_def split: option.split)

lemma claim_None: "claim P s t = None \<longleftrightarrow> (\<forall>x \<in> set t. \<not> P x)"
  by (simp add: claim_def)

lemma find_slot_None: "find_slot P t = None \<longleftrightarrow> (\<forall>x \<in> set t. \<not> P x)"
  by (simp add: find_slot_def)

lemma find_slot_SomeD: "find_slot P t = Some s \<Longrightarrow> s \<in> set t \<and> P s"
  by (auto simp: find_slot_def dest: first_slot_mem first_slot_prop)

text \<open>A table of equal slots, as the tables start out.\<close>

lemma find_slot_replicate: "find_slot P (replicate n x) = (if P x \<and> 0 < n then Some x else None)"
  by (induction n) (auto simp: find_slot_def)

lemma claim_replicate: "P x \<Longrightarrow> 0 < n \<Longrightarrow> claim P y (replicate n x) = Some (y # replicate (n - 1) x)"
  by (cases n) (simp_all add: claim_def)

subsection \<open>Tables with one slot per key\<close>

definition one_per_key :: "('s \<Rightarrow> 'k) \<Rightarrow> 'k \<Rightarrow> 's list \<Rightarrow> bool" where
  "one_per_key key free t \<longleftrightarrow> (\<forall>i j. i < length t \<longrightarrow> j < length t \<longrightarrow> key (t ! i) = key (t ! j)
     \<longrightarrow> key (t ! i) \<noteq> free \<longrightarrow> i = j)"

lemma one_per_keyD:
  "one_per_key key free t \<Longrightarrow> i < length t \<Longrightarrow> j < length t \<Longrightarrow> key (t ! i) = key (t ! j)
    \<Longrightarrow> key (t ! i) \<noteq> free \<Longrightarrow> i = j"
  by (simp add: one_per_key_def)

lemma find_slot_at:
  assumes "one_per_key key free t" "i < length t" "key (t ! i) = k" "k \<noteq> free"
  shows "find_slot (\<lambda>s. key s = k) t = Some (t ! i)"
proof -
  have "first_slot (\<lambda>s. key s = k) t = Some i"
  proof (rule first_slot_unique)
    show "j = i" if "j < length t" "key (t ! j) = k" for j
      using that assms by (intro one_per_keyD [OF assms(1)]) auto
  qed (use assms in auto)
  then show ?thesis by (simp add: find_slot_def)
qed

lemma find_slot_iff:
  assumes "one_per_key key free t" "k \<noteq> free"
  shows "find_slot (\<lambda>s. key s = k) t = Some s \<longleftrightarrow> (\<exists>i < length t. t ! i = s \<and> key s = k)"
proof
  assume "find_slot (\<lambda>s. key s = k) t = Some s"
  from find_slot_SomeD [OF this] show "\<exists>i < length t. t ! i = s \<and> key s = k"
    by (simp add: in_set_conv_nth)
next
  assume "\<exists>i < length t. t ! i = s \<and> key s = k"
  then obtain i where i: "i < length t" "t ! i = s" "key (t ! i) = k" by blast
  from find_slot_at [OF assms(1) i(1,3) assms(2)] i(2) show "find_slot (\<lambda>s. key s = k) t = Some s" by simp
qed

lemma claim_table:
  assumes one: "one_per_key key free t" and c: "claim (\<lambda>s. key s = free) s t = Some t'"
    and k: "key s \<noteq> free" and new: "find_slot (\<lambda>x. key x = key s) t = None"
  shows "one_per_key key free t'"
    and "k \<noteq> free \<Longrightarrow> find_slot (\<lambda>x. key x = k) t' = (if k = key s then Some s else find_slot (\<lambda>x. key x = k) t)"
proof -
  obtain i where i: "first_slot (\<lambda>s. key s = free) t = Some i" "t' = t[i := s]"
    using c by (auto simp: claim_def)
  then have lt: "i < length t" and fr: "key (t ! i) = free"
    by (auto dest: first_slot_lt first_slot_prop)
  have fresh: "key (t ! j) \<noteq> key s" if "j < length t" for j
    using new that by (auto simp: find_slot_None)
  show one': "one_per_key key free t'"
    unfolding one_per_key_def i(2)
  proof (intro allI impI)
    fix a b
    assume ab: "a < length (t[i := s])" "b < length (t[i := s])" "key (t[i := s] ! a) = key (t[i := s] ! b)"
      "key (t[i := s] ! a) \<noteq> free"
    show "a = b"
    proof (cases "a = i \<or> b = i")
      case True
      with ab fresh [of a] fresh [of b] lt show ?thesis by (cases "a = i"; cases "b = i") auto
    next
      case False
      with ab one_per_keyD [OF one, of a b] show ?thesis by simp
    qed
  qed
  show "find_slot (\<lambda>x. key x = k) t' = (if k = key s then Some s else find_slot (\<lambda>x. key x = k) t)"
    if "k \<noteq> free"
  proof (cases "k = key s")
    case True
    with find_slot_at [OF one', of i k] lt i(2) that show ?thesis by simp
  next
    case False
    have "find_slot (\<lambda>x. key x = k) t' = Some x \<longleftrightarrow> find_slot (\<lambda>x. key x = k) t = Some x" for x
      unfolding find_slot_iff [OF one that] find_slot_iff [OF one' that]
      using i(2) lt fr False that by (auto simp: nth_list_update)
    with False show ?thesis by (metis option.exhaust)
  qed
qed

lemma release_table:
  assumes one: "one_per_key key free t" and s0: "key s0 = free" and k: "k \<noteq> free"
  shows "one_per_key key free (release (\<lambda>s. key s = k) s0 t)"
    and "k' \<noteq> free \<Longrightarrow> find_slot (\<lambda>x. key x = k') (release (\<lambda>s. key s = k) s0 t)
      = (if k' = k then None else find_slot (\<lambda>x. key x = k') t)"
proof -
  let ?t' = "release (\<lambda>s. key s = k) s0 t"
  have "one_per_key key free ?t' \<and> (k' \<noteq> free \<longrightarrow> find_slot (\<lambda>x. key x = k') ?t'
      = (if k' = k then None else find_slot (\<lambda>x. key x = k') t))" for k'
  proof (cases "first_slot (\<lambda>s. key s = k) t")
    case None
    have "?t' = t" unfolding release_def None by simp
    moreover have "find_slot (\<lambda>x. key x = k) t = None" unfolding find_slot_def None by simp
    ultimately show ?thesis using one by simp
  next
    case (Some i)
    then have t': "?t' = t[i := s0]" and lt: "i < length t" and ki: "key (t ! i) = k"
      by (auto simp: release_def dest: first_slot_lt first_slot_prop)
    have one': "one_per_key key free ?t'"
      unfolding one_per_key_def t'
    proof (intro allI impI)
      fix a b
      assume ab: "a < length (t[i := s0])" "b < length (t[i := s0])" "key (t[i := s0] ! a) = key (t[i := s0] ! b)"
        "key (t[i := s0] ! a) \<noteq> free"
      then have "a \<noteq> i" "b \<noteq> i" using s0 by auto
      with ab one_per_keyD [OF one, of a b] show "a = b" by simp
    qed
    moreover have "find_slot (\<lambda>x. key x = k') ?t' = (if k' = k then None else find_slot (\<lambda>x. key x = k') t)"
      if "k' \<noteq> free"
    proof -
      have "\<nexists>j. j < length t \<and> j \<noteq> i \<and> key (t ! j) = k"
        using one_per_keyD [OF one lt] ki k by metis
      then have "(\<exists>j < length ?t'. ?t' ! j = x \<and> key x = k')
          \<longleftrightarrow> k' \<noteq> k \<and> (\<exists>j < length t. t ! j = x \<and> key x = k')" for x
        using that lt ki s0 by (simp add: t' nth_list_update) metis
      then have "find_slot (\<lambda>x. key x = k') ?t' = Some x
          \<longleftrightarrow> (if k' = k then None else find_slot (\<lambda>x. key x = k') t) = Some x" for x
        unfolding find_slot_iff [OF one' that] by (simp add: find_slot_iff [OF one that])
      then show ?thesis by (metis option.exhaust)
    qed
    ultimately show ?thesis by simp
  qed
  then show "one_per_key key free ?t'" "k' \<noteq> free \<Longrightarrow> find_slot (\<lambda>x. key x = k') ?t'
      = (if k' = k then None else find_slot (\<lambda>x. key x = k') t)" by blast+
qed

text \<open>How many slots are in use, and how the operations change that.\<close>

definition used :: "('s \<Rightarrow> 'k) \<Rightarrow> 'k \<Rightarrow> 's list \<Rightarrow> nat" where
  "used key free t = length (filter (\<lambda>s. key s \<noteq> free) t)"

lemma used_update:
  "i < length t \<Longrightarrow> used key free (t[i := s]) + (if key (t ! i) \<noteq> free then 1 else 0)
     = used key free t + (if key s \<noteq> free then 1 else 0)"
proof (induction t arbitrary: i)
  case Nil
  then show ?case by simp
next
  case (Cons x t)
  then show ?case by (cases i) (auto simp: used_def)
qed

lemma claim_full: "claim (\<lambda>s. key s = free) s t = None \<longleftrightarrow> used key free t = length t"
  unfolding claim_None used_def by (metis (mono_tags, lifting) filter_id_conv length_filter_less nless_le)

lemma used_claim:
  assumes "claim (\<lambda>s. key s = free) s t = Some t'" "key s \<noteq> free"
  shows "used key free t' = Suc (used key free t)"
proof -
  obtain i where i: "first_slot (\<lambda>s. key s = free) t = Some i" "t' = t[i := s]"
    using assms(1) by (auto simp: claim_def)
  note first_slot_lt [OF i(1)] first_slot_prop [OF i(1)]
  with used_update [of i t key free s] i(2) assms(2) show ?thesis by simp
qed


lemma one_per_key_Cons:
  "one_per_key key free (x # t) \<Longrightarrow> one_per_key key free t \<and> (key x \<noteq> free \<longrightarrow> key x \<notin> key ` set t)"
proof -
  assume a: "one_per_key key free (x # t)"
  have "one_per_key key free t"
    unfolding one_per_key_def using one_per_keyD [OF a, of "Suc _" "Suc _"] by auto
  moreover have "key x \<notin> key ` set t" if k: "key x \<noteq> free"
  proof
    assume "key x \<in> key ` set t"
    then obtain j where "j < length t" "key x = key (t ! j)" by (auto simp: in_set_conv_nth)
    with one_per_keyD [OF a, of 0 "Suc j"] k show False by simp
  qed
  ultimately show ?thesis by blast
qed

lemma used_card:
  "one_per_key key free t \<Longrightarrow> used key free t = card {k. k \<noteq> free \<and> k \<in> key ` set t}
     \<and> finite {k. k \<noteq> free \<and> k \<in> key ` set t}"
proof (induction t)
  case Nil
  show ?case by (simp add: used_def)
next
  case (Cons x t)
  note c = one_per_key_Cons [OF Cons.prems]
  let ?K = "{k. k \<noteq> free \<and> k \<in> key ` set t}"
  have "{k. k \<noteq> free \<and> k \<in> key ` set (x # t)} = (if key x = free then ?K else insert (key x) ?K)" by auto
  with Cons.IH c show ?case by (auto simp: used_def)
qed

subsection \<open>The interface\<close>

text \<open>
  What the code relies on: within its capacity a registry is a finite map. \<open>get\<close> is the lookup, \<open>put\<close>
  the registration (which fails when no slot is free) and \<open>del\<close> the removal; \<open>valid\<close> are the keys that
  may be stored.
\<close>

locale registry =
  fixes ok :: "'t \<Rightarrow> bool" and get :: "'t \<Rightarrow> 'k \<Rightarrow> 'v option"
    and put :: "'k \<Rightarrow> 'v \<Rightarrow> 't \<Rightarrow> 't option" and del :: "'k \<Rightarrow> 't \<Rightarrow> 't" and valid :: "'k \<Rightarrow> bool"
  assumes get_valid: "ok t \<Longrightarrow> get t k = Some v \<Longrightarrow> valid k"
    and get_finite: "ok t \<Longrightarrow> finite (dom (get t))"
    and get_card: "ok t \<Longrightarrow> card (dom (get t)) \<le> REGISTRY_SLOTS"
    and put_ok: "ok t \<Longrightarrow> valid k \<Longrightarrow> get t k = None \<Longrightarrow> put k v t = Some t' \<Longrightarrow> ok t'"
    and put_get: "ok t \<Longrightarrow> valid k \<Longrightarrow> get t k = None \<Longrightarrow> put k v t = Some t' \<Longrightarrow> get t' = (get t)(k \<mapsto> v)"
    and put_full: "ok t \<Longrightarrow> put k v t = None \<longleftrightarrow> card (dom (get t)) = REGISTRY_SLOTS"
    and del_ok: "ok t \<Longrightarrow> valid k \<Longrightarrow> ok (del k t)"
    and del_get: "ok t \<Longrightarrow> valid k \<Longrightarrow> get (del k t) = (get t)(k := None)"

text \<open>Sequences of registrations and removals, on a registry and on the map it stands for.\<close>

datatype ('k, 'v) reg_op = Put 'k 'v | Del 'k

fun reg_run :: "('k \<Rightarrow> 'v \<Rightarrow> 't \<Rightarrow> 't option) \<Rightarrow> ('k \<Rightarrow> 't \<Rightarrow> 't) \<Rightarrow> ('k, 'v) reg_op list \<Rightarrow> 't \<Rightarrow> 't" where
  "reg_run put del [] t = t"
| "reg_run put del (Put k v # ops) t = reg_run put del ops (case put k v t of None \<Rightarrow> t | Some t' \<Rightarrow> t')"
| "reg_run put del (Del k # ops) t = reg_run put del ops (del k t)"

fun map_run :: "nat \<Rightarrow> ('k, 'v) reg_op list \<Rightarrow> ('k \<rightharpoonup> 'v) \<Rightarrow> ('k \<rightharpoonup> 'v)" where
  "map_run cap [] m = m"
| "map_run cap (Put k v # ops) m = map_run cap ops (if card (dom m) = cap then m else m(k \<mapsto> v))"
| "map_run cap (Del k # ops) m = map_run cap ops (m(k := None))"

text \<open>The discipline of the callers: a key is registered only while it is not in use.\<close>

fun disciplined :: "nat \<Rightarrow> ('k \<Rightarrow> bool) \<Rightarrow> ('k, 'v) reg_op list \<Rightarrow> ('k \<rightharpoonup> 'v) \<Rightarrow> bool" where
  "disciplined cap valid [] m \<longleftrightarrow> True"
| "disciplined cap valid (Put k v # ops) m \<longleftrightarrow> valid k \<and> m k = None
     \<and> disciplined cap valid ops (if card (dom m) = cap then m else m(k \<mapsto> v))"
| "disciplined cap valid (Del k # ops) m \<longleftrightarrow> valid k \<and> disciplined cap valid ops (m(k := None))"

context registry
begin

lemma put_del: "ok t \<Longrightarrow> valid k \<Longrightarrow> get t k = None \<Longrightarrow> put k v t = Some t' \<Longrightarrow> get (del k t') = get t"
  using put_get [of t k v t'] put_ok [of t k v t'] del_get [of t' k] by (simp add: fun_upd_idem)

lemma put_other: "ok t \<Longrightarrow> valid k \<Longrightarrow> get t k = None \<Longrightarrow> put k v t = Some t' \<Longrightarrow> k' \<noteq> k \<Longrightarrow> get t' k' = get t k'"
  using put_get [of t k v t'] by simp

lemma del_none: "ok t \<Longrightarrow> get t k = None \<Longrightarrow> valid k \<Longrightarrow> get (del k t) = get t"
  by (simp add: del_get fun_upd_idem)

lemma room_after_del:
  "ok t \<Longrightarrow> get t k = Some v \<Longrightarrow> put k' v' (del k t) \<noteq> None"
proof
  assume a: "ok t" "get t k = Some v" "put k' v' (del k t) = None"
  have k: "valid k" using a get_valid by blast
  have "card (dom (get (del k t))) = REGISTRY_SLOTS" using put_full [OF del_ok [OF a(1) k]] a(3) by blast
  moreover have "dom (get (del k t)) = dom (get t) - {k}" using del_get [OF a(1) k] by simp
  moreover have "k \<in> dom (get t)" using a(2) by blast
  ultimately have "card (dom (get t)) = Suc REGISTRY_SLOTS"
    using get_finite [OF a(1)] card_Suc_Diff1 [of "dom (get t)" k] by simp
  with get_card [OF a(1)] show False by simp
qed

lemma run_refines:
  "ok t \<Longrightarrow> disciplined REGISTRY_SLOTS valid ops (get t) \<Longrightarrow>
     ok (reg_run put del ops t) \<and> get (reg_run put del ops t) = map_run REGISTRY_SLOTS ops (get t)"
proof (induction ops arbitrary: t)
  case Nil
  then show ?case by simp
next
  case (Cons op ops)
  show ?case
  proof (cases op)
    case (Put k v)
    show ?thesis
    proof (cases "put k v t")
      case None
      with Put Cons put_full [OF Cons.prems(1)] show ?thesis by simp
    next
      case (Some t')
      then have "card (dom (get t)) \<noteq> REGISTRY_SLOTS" using put_full [OF Cons.prems(1), of k v] by simp
      with Some Put Cons.prems Cons.IH [of t'] put_ok [of t k v t'] put_get [of t k v t'] show ?thesis
        by (simp del: fun_upd_apply)
    qed
  next
    case (Del k)
    with Cons.prems Cons.IH [of "del k t"] del_ok [of t k] del_get [of t k] show ?thesis
      by (simp del: fun_upd_apply)
  qed
qed

end


subsection \<open>The fd table\<close>

text \<open>
  \<^verbatim>\<open>mp_fd2file\<close> with \<^verbatim>\<open>mp_fd2file_initialized\<close>: before the first registration the array is zero-filled
  and not looked at. A slot is the fd and the EFILE it stands for.
\<close>

type_synonym fdtable = "bool \<times> (int \<times> nat option) list"

definition fd2file_initial :: fdtable where
  "fd2file_initial = (False, replicate REGISTRY_SLOTS (0, None))"

fun init_fd2file :: "fdtable \<Rightarrow> fdtable" where
  "init_fd2file (initialized, t) =
     (if initialized then (initialized, t) else (True, replicate REGISTRY_SLOTS (- 1, None)))"

definition fd_register :: "int \<Rightarrow> nat \<Rightarrow> fdtable \<Rightarrow> fdtable option" where
  "fd_register fd e tab =
     map_option (Pair True) (claim (\<lambda>s. fst s = - 1) (fd, Some e) (snd (init_fd2file tab)))"

definition mp_fd_lookup :: "int \<Rightarrow> fdtable \<Rightarrow> nat option" where
  "mp_fd_lookup fd tab =
     (if fd < 0 \<or> \<not> fst tab then None
      else Option.bind (find_slot (\<lambda>s. fst s = fd) (snd tab)) snd)"

definition fd_unregister :: "int \<Rightarrow> fdtable \<Rightarrow> nat option \<times> fdtable" where
  "fd_unregister fd tab =
     (if fd < 0 \<or> \<not> fst tab then (None, tab)
      else (Option.bind (find_slot (\<lambda>s. fst s = fd) (snd tab)) snd,
            (fst tab, release (\<lambda>s. fst s = fd) (- 1, None) (snd tab))))"

definition mp_fd_of :: "nat \<Rightarrow> fdtable \<Rightarrow> int" where
  "mp_fd_of e tab =
     (if \<not> fst tab then - 1
      else case find_slot (\<lambda>s. snd s = Some e \<and> fst s \<noteq> - 1) (snd tab) of
        None \<Rightarrow> - 1 | Some s \<Rightarrow> fst s)"

definition fdtable_ok :: "fdtable \<Rightarrow> bool" where
  "fdtable_ok tab \<longleftrightarrow> length (snd tab) = REGISTRY_SLOTS
     \<and> (fst tab \<longrightarrow> one_per_key fst (- 1) (snd tab)
          \<and> (\<forall>s \<in> set (snd tab). fst s \<noteq> - 1 \<longrightarrow> 0 \<le> fst s \<and> snd s \<noteq> None))"

lemma fdtable_ok_initial: "fdtable_ok fd2file_initial"
  by (simp add: fdtable_ok_def fd2file_initial_def)

lemma fdtable_ok_init: "fdtable_ok tab \<Longrightarrow> fdtable_ok (init_fd2file tab) \<and> fst (init_fd2file tab)
    \<and> mp_fd_lookup fd (init_fd2file tab) = mp_fd_lookup fd tab"
proof (cases tab)
  case (Pair i t)
  assume "fdtable_ok tab"
  moreover have "one_per_key fst (- 1 :: int) (replicate n (- 1, x))" for n and x :: "nat option"
    by (simp add: one_per_key_def)
  ultimately show ?thesis
    by (cases i) (auto simp: Pair fdtable_ok_def mp_fd_lookup_def find_slot_def)
qed

lemma fd_register_init: "fd_register fd e tab = fd_register fd e (init_fd2file tab)"
  by (cases tab) (simp add: fd_register_def)

lemma fd_lookup_iff:
  assumes "fdtable_ok tab"
  shows "mp_fd_lookup fd tab = Some e \<longleftrightarrow> fst tab \<and> 0 \<le> fd \<and> (\<exists>i < length (snd tab). snd tab ! i = (fd, Some e))"
proof (cases "fst tab \<and> 0 \<le> fd")
  case True
  then have one: "one_per_key fst (- 1) (snd tab)" and "fd \<noteq> - 1"
    using assms by (auto simp: fdtable_ok_def)
  have "mp_fd_lookup fd tab = Some e \<longleftrightarrow> (\<exists>s. find_slot (\<lambda>s. fst s = fd) (snd tab) = Some s \<and> snd s = Some e)"
    using True by (auto simp: mp_fd_lookup_def Option.bind_eq_Some_conv)
  also have "\<dots> \<longleftrightarrow> (\<exists>i < length (snd tab). snd tab ! i = (fd, Some e))"
    unfolding find_slot_iff [OF one \<open>fd \<noteq> - 1\<close>] by (metis fst_conv prod.collapse snd_conv)
  finally show ?thesis using True by blast
next
  case False
  then show ?thesis by (auto simp: mp_fd_lookup_def)
qed

lemma fd_dom:
  assumes "fdtable_ok tab" "fst tab"
  shows "dom (\<lambda>fd. mp_fd_lookup fd tab) = {k. k \<noteq> - 1 \<and> k \<in> fst ` set (snd tab)}"
proof -
  have "mp_fd_lookup fd tab \<noteq> None \<longleftrightarrow> fd \<noteq> - 1 \<and> fd \<in> fst ` set (snd tab)" for fd
  proof
    assume "mp_fd_lookup fd tab \<noteq> None"
    then obtain e where "mp_fd_lookup fd tab = Some e" by blast
    with fd_lookup_iff [OF assms(1), of fd e] show "fd \<noteq> - 1 \<and> fd \<in> fst ` set (snd tab)"
      by (auto simp: image_iff in_set_conv_nth intro!: bexI [of _ "(fd, Some e)"])
  next
    assume a: "fd \<noteq> - 1 \<and> fd \<in> fst ` set (snd tab)"
    then obtain s where s: "s \<in> set (snd tab)" "fst s = fd" by blast
    with assms a obtain e where "s = (fd, Some e)" "0 \<le> fd"
      by (cases s) (fastforce simp: fdtable_ok_def)
    with s(1) fd_lookup_iff [OF assms(1), of fd e] assms(2) show "mp_fd_lookup fd tab \<noteq> None"
      by (auto simp: in_set_conv_nth)
  qed
  then show ?thesis by (auto simp: dom_def)
qed

lemma fd_register_ok:
  assumes ok: "fdtable_ok tab" and fd: "0 \<le> fd" and new: "mp_fd_lookup fd tab = None"
    and r: "fd_register fd e tab = Some tab'"
  shows "fdtable_ok tab'" and "fst tab'" and "(\<lambda>x. mp_fd_lookup x tab') = (\<lambda>x. mp_fd_lookup x tab)(fd \<mapsto> e)"
proof -
  define tab0 where "tab0 = init_fd2file tab"
  have ok0: "fdtable_ok tab0" "fst tab0" and same: "\<And>x. mp_fd_lookup x tab0 = mp_fd_lookup x tab"
    using fdtable_ok_init [OF ok] by (auto simp: tab0_def)
  then have one: "one_per_key fst (- 1) (snd tab0)" by (simp add: fdtable_ok_def)
  obtain t' where t': "claim (\<lambda>s. fst s = - 1) (fd, Some e) (snd tab0) = Some t'" "tab' = (True, t')"
    using r by (auto simp: fd_register_def tab0_def)
  have "fd \<noteq> - 1" using fd by simp
  have "find_slot (\<lambda>s. fst s = fd) (snd tab0) = None"
  proof (rule ccontr)
    assume "\<not> ?thesis"
    then have "fd \<in> fst ` set (snd tab0)" by (auto simp: find_slot_None)
    with fd_dom [OF ok0] \<open>fd \<noteq> - 1\<close> have "mp_fd_lookup fd tab0 \<noteq> None" by (auto simp: dom_def)
    with new same show False by simp
  qed
  with claim_table [OF one t'(1)] \<open>fd \<noteq> - 1\<close> have one': "one_per_key fst (- 1) t'"
    and find: "\<And>k. k \<noteq> - 1 \<Longrightarrow> find_slot (\<lambda>x. fst x = k) t'
      = (if k = fd then Some (fd, Some e) else find_slot (\<lambda>x. fst x = k) (snd tab0))" by simp_all
  have "set t' \<subseteq> insert (fd, Some e) (set (snd tab0))"
    using t'(1) set_update_subset_insert by (fastforce simp: claim_def)
  with ok0 one' t' fd show "fdtable_ok tab'" by (auto simp: fdtable_ok_def)
  show "fst tab'" using t'(2) by simp
  show "(\<lambda>x. mp_fd_lookup x tab') = (\<lambda>x. mp_fd_lookup x tab)(fd \<mapsto> e)"
  proof
    fix x
    show "mp_fd_lookup x tab' = ((\<lambda>x. mp_fd_lookup x tab)(fd \<mapsto> e)) x"
    proof -
      have "mp_fd_lookup x tab' = (if x = fd then Some e else mp_fd_lookup x tab0)"
        using find [of x] fd t'(2) ok0(2) by (auto simp: mp_fd_lookup_def)
      then show ?thesis by (simp add: same)
    qed
  qed
qed

lemma fd_register_full:
  assumes "fdtable_ok tab"
  shows "fd_register fd e tab = None \<longleftrightarrow> card (dom (\<lambda>x. mp_fd_lookup x tab)) = REGISTRY_SLOTS"
proof -
  define tab0 where "tab0 = init_fd2file tab"
  have ok0: "fdtable_ok tab0" "fst tab0" and same: "(\<lambda>x. mp_fd_lookup x tab0) = (\<lambda>x. mp_fd_lookup x tab)"
    using fdtable_ok_init [OF assms] by (auto simp: tab0_def)
  have "fd_register fd e tab = None \<longleftrightarrow> used fst (- 1) (snd tab0) = length (snd tab0)"
    unfolding fd_register_def tab0_def [symmetric] by (simp add: claim_full)
  moreover have "used fst (- 1) (snd tab0) = card (dom (\<lambda>x. mp_fd_lookup x tab))"
    using used_card [of fst "- 1" "snd tab0"] ok0 fd_dom [OF ok0] same by (simp add: fdtable_ok_def)
  moreover have "length (snd tab0) = REGISTRY_SLOTS" using ok0 by (simp add: fdtable_ok_def)
  ultimately show ?thesis by simp
qed

lemma fd_card:
  assumes "fdtable_ok tab"
  shows "finite (dom (\<lambda>x. mp_fd_lookup x tab)) \<and> card (dom (\<lambda>x. mp_fd_lookup x tab)) \<le> REGISTRY_SLOTS"
proof -
  define tab0 where "tab0 = init_fd2file tab"
  have ok0: "fdtable_ok tab0" "fst tab0" and same: "(\<lambda>x. mp_fd_lookup x tab0) = (\<lambda>x. mp_fd_lookup x tab)"
    using fdtable_ok_init [OF assms] by (auto simp: tab0_def)
  have one: "one_per_key fst (- 1) (snd tab0)" using ok0 by (simp add: fdtable_ok_def)
  have "used fst (- 1) (snd tab0) \<le> REGISTRY_SLOTS"
    using ok0 length_filter_le by (metis fdtable_ok_def used_def)
  with used_card [OF one] fd_dom [OF ok0] same show ?thesis by simp
qed

lemma fd_unregister_fst: "fst (fd_unregister fd tab) = mp_fd_lookup fd tab"
  by (simp add: fd_unregister_def mp_fd_lookup_def)

lemma fd_unregister_ok:
  assumes ok: "fdtable_ok tab"
  shows "fdtable_ok (snd (fd_unregister fd tab))"
    and "(\<lambda>x. mp_fd_lookup x (snd (fd_unregister fd tab))) = (\<lambda>x. mp_fd_lookup x tab)(fd := None)"
proof -
  have "fdtable_ok (snd (fd_unregister fd tab))
    \<and> (\<lambda>x. mp_fd_lookup x (snd (fd_unregister fd tab))) = (\<lambda>x. mp_fd_lookup x tab)(fd := None)"
  proof (cases "fd < 0 \<or> \<not> fst tab")
    case True
    with ok show ?thesis by (auto simp: fd_unregister_def mp_fd_lookup_def)
  next
    case False
    then have one: "one_per_key fst (- 1) (snd tab)" and k: "fd \<noteq> - 1"
      using ok by (auto simp: fdtable_ok_def)
    let ?t' = "release (\<lambda>s. fst s = fd) (- 1, None) (snd tab)"
    note rel = release_table [of fst "- 1" "snd tab" "(- 1, None)" fd, OF one _ k, simplified]
    have "set ?t' \<subseteq> insert (- 1, None) (set (snd tab))"
      using set_update_subset_insert by (fastforce simp: release_def split: option.splits)
    then have "fdtable_ok (fst tab, ?t')" using ok rel(1) False by (auto simp: fdtable_ok_def)
    moreover have "mp_fd_lookup x (fst tab, ?t') = (if x = fd then None else mp_fd_lookup x tab)" for x
      using rel(2) [of x] False by (auto simp: mp_fd_lookup_def)
    ultimately show ?thesis using False by (auto simp: fd_unregister_def)
  qed
  then show "fdtable_ok (snd (fd_unregister fd tab))"
    "(\<lambda>x. mp_fd_lookup x (snd (fd_unregister fd tab))) = (\<lambda>x. mp_fd_lookup x tab)(fd := None)" by blast+
qed

interpretation fdreg: registry fdtable_ok "\<lambda>tab fd. mp_fd_lookup fd tab" fd_register
  "\<lambda>fd tab. snd (fd_unregister fd tab)" "\<lambda>fd. 0 \<le> fd"
proof unfold_locales
  show "0 \<le> k" if "fdtable_ok t" "mp_fd_lookup k t = Some v" for t k v
    using that(2) by (auto simp: mp_fd_lookup_def split: if_splits)
qed (use fd_card fd_register_ok fd_register_full fd_unregister_ok in auto)


text \<open>The reverse lookup finds an fd of the EFILE whenever it has one.\<close>

lemma fd_of_ok:
  assumes "fdtable_ok tab"
  shows "mp_fd_of e tab = - 1 \<longleftrightarrow> (\<forall>fd. mp_fd_lookup fd tab \<noteq> Some e)"
    and "mp_fd_of e tab = fd \<Longrightarrow> fd \<noteq> - 1 \<Longrightarrow> mp_fd_lookup fd tab = Some e"
proof -
  let ?P = "\<lambda>s. snd s = Some e \<and> fst s \<noteq> - 1"
  have hit: "mp_fd_lookup (fst s) tab = Some e" if f: "find_slot ?P (snd tab) = Some s" and init: "fst tab" for s
  proof -
    from find_slot_SomeD [OF f] have "s \<in> set (snd tab)" "snd s = Some e" "fst s \<noteq> - 1" by auto
    then obtain i where "i < length (snd tab)" "snd tab ! i = (fst s, Some e)" "0 \<le> fst s"
      using assms init by (metis fdtable_ok_def in_set_conv_nth prod.collapse)
    with fd_lookup_iff [OF assms] init show ?thesis by blast
  qed
  show "mp_fd_lookup fd tab = Some e" if "mp_fd_of e tab = fd" "fd \<noteq> - 1"
    using that hit by (auto simp: mp_fd_of_def split: if_splits option.splits)
  have miss: "mp_fd_lookup fd tab \<noteq> Some e" if "find_slot ?P (snd tab) = None" for fd
  proof
    assume "mp_fd_lookup fd tab = Some e"
    then obtain i where "i < length (snd tab)" "snd tab ! i = (fd, Some e)" "0 \<le> fd"
      using fd_lookup_iff [OF assms] by blast
    then have "(fd, Some e) \<in> set (snd tab)" "fd \<noteq> - 1" by (auto simp: in_set_conv_nth)
    with that show False by (auto simp: find_slot_None)
  qed
  show "mp_fd_of e tab = - 1 \<longleftrightarrow> (\<forall>fd. mp_fd_lookup fd tab \<noteq> Some e)"
  proof (cases "fst tab")
    case False
    then show ?thesis by (simp add: mp_fd_of_def mp_fd_lookup_def)
  next
    case True
    show ?thesis
    proof (cases "find_slot ?P (snd tab)")
      case None
      with True miss show ?thesis by (simp add: mp_fd_of_def)
    next
      case (Some s)
      with True hit find_slot_SomeD [OF Some] show ?thesis by (auto simp: mp_fd_of_def)
    qed
  qed
qed


text \<open>
  C9. The fd registry is a finite map of capacity 512: after any sequence of registrations (of fds not
  in use) and removals, starting from the zero-filled table, every lookup answers what the map
  holding the same registrations answers; registration fails exactly when 512 fds are registered.
\<close>

theorem fd_registry_refines_map:
  assumes "disciplined REGISTRY_SLOTS (\<lambda>fd. 0 \<le> fd) ops Map.empty"
  defines "tab \<equiv> reg_run fd_register (\<lambda>fd tab. snd (fd_unregister fd tab)) ops fd2file_initial"
  shows "(\<lambda>fd. mp_fd_lookup fd tab) = map_run REGISTRY_SLOTS ops Map.empty
     \<and> (fd_register fd e tab = None \<longleftrightarrow> card (dom (map_run REGISTRY_SLOTS ops Map.empty)) = REGISTRY_SLOTS)"
proof -
  have e: "(\<lambda>fd. mp_fd_lookup fd fd2file_initial) = Map.empty"
    by (simp add: mp_fd_lookup_def fd2file_initial_def)
  from fdreg.run_refines [OF fdtable_ok_initial] assms(1) have
    "fdtable_ok tab" "(\<lambda>fd. mp_fd_lookup fd tab) = map_run REGISTRY_SLOTS ops Map.empty"
    by (simp_all add: e tab_def)
  with fd_register_full [of tab fd e] show ?thesis by simp
qed

theorem fd_registry_refines_map_witness:
  "mp_fd_lookup 4 (reg_run fd_register (\<lambda>fd tab. snd (fd_unregister fd tab))
     [Put 3 7, Put 4 8, Del 3] fd2file_initial) = Some 8"
proof -
  have d: "disciplined REGISTRY_SLOTS (\<lambda>fd. 0 \<le> fd) [Put 3 (7::nat), Put (4::int) 8, Del 3] Map.empty"
    by (simp add: REGISTRY_SLOTS_def)
  show ?thesis
    using conjunct1 [OF fd_registry_refines_map [OF d], THEN fun_cong, of 4] by (simp add: REGISTRY_SLOTS_def)
qed

subsection \<open>Tables keyed by a handle or pointer\<close>

text \<open>
  The remaining tables mark a free slot by a NULL key. \<open>slot_registry\<close> is their common shape: a slot
  holds a key and a value; any such table is a registry.
\<close>

locale slot_registry =
  fixes key :: "'s \<Rightarrow> nat" and val :: "'s \<Rightarrow> 'v option" and mk :: "nat \<Rightarrow> 'v \<Rightarrow> 's" and empty :: 's
  assumes key_mk: "key (mk k v) = k" and val_mk: "val (mk k v) = Some v" and key_empty: "key empty = 0"

definition slots_ok :: "('s \<Rightarrow> nat) \<Rightarrow> ('s \<Rightarrow> 'v option) \<Rightarrow> 's list \<Rightarrow> bool" where
  "slots_ok key val t \<longleftrightarrow> length t = REGISTRY_SLOTS \<and> one_per_key key 0 t
     \<and> (\<forall>s \<in> set t. key s \<noteq> 0 \<longrightarrow> val s \<noteq> None)"

definition slots_get :: "('s \<Rightarrow> nat) \<Rightarrow> ('s \<Rightarrow> 'v option) \<Rightarrow> 's list \<Rightarrow> nat \<Rightarrow> 'v option" where
  "slots_get key val t k = (if k = 0 then None else Option.bind (find_slot (\<lambda>s. key s = k) t) val)"

lemma set_claim: "claim P s t = Some t' \<Longrightarrow> set t' \<subseteq> insert s (set t)"
  by (auto simp: claim_def dest: set_update_subset_insert [THEN subsetD])

lemma set_release: "set (release P s t) \<subseteq> insert s (set t)"
  by (auto simp: release_def dest: set_update_subset_insert [THEN subsetD] split: option.splits)

lemma slots_get_iff:
  assumes "slots_ok key val t" "k \<noteq> 0"
  shows "slots_get key val t k \<noteq> None \<longleftrightarrow> k \<in> key ` set t"
proof (cases "find_slot (\<lambda>s. key s = k) t")
  case None
  then have "\<forall>x \<in> set t. key x \<noteq> k" by (simp add: find_slot_None)
  with None show ?thesis by (auto simp: slots_get_def)
next
  case (Some s)
  with find_slot_SomeD [OF Some] assms show ?thesis by (auto simp: slots_get_def slots_ok_def)
qed

lemma slots_get_dom: "slots_ok key val t \<Longrightarrow> dom (slots_get key val t) = {k. k \<noteq> 0 \<and> k \<in> key ` set t}"
proof -
  assume ok: "slots_ok key val t"
  have "k \<in> dom (slots_get key val t) \<longleftrightarrow> k \<noteq> 0 \<and> k \<in> key ` set t" for k
    using slots_get_iff [OF ok, of k] by (cases "k = 0") (simp_all add: dom_def slots_get_def)
  then show ?thesis by blast
qed

sublocale slot_registry \<subseteq> registry "slots_ok key val" "slots_get key val"
  "\<lambda>k v. claim (\<lambda>s. key s = 0) (mk k v)" "\<lambda>k. release (\<lambda>s. key s = k) empty" "\<lambda>k. k \<noteq> 0"
proof
  fix t k v
  assume ok: "slots_ok key val t"
  then have one: "one_per_key key 0 t" and len: "length t = REGISTRY_SLOTS" by (simp_all add: slots_ok_def)
  show "k \<noteq> 0" if "slots_get key val t k = Some v"
    using that by (auto simp: slots_get_def split: if_splits)
  show "finite (dom (slots_get key val t))" using used_card [OF one] slots_get_dom [OF ok] by simp
  show "card (dom (slots_get key val t)) \<le> REGISTRY_SLOTS"
    using used_card [OF one] slots_get_dom [OF ok] len length_filter_le by (metis used_def)
  show "claim (\<lambda>s. key s = 0) (mk k v) t = None \<longleftrightarrow> card (dom (slots_get key val t)) = REGISTRY_SLOTS"
    using used_card [OF one] slots_get_dom [OF ok] len by (simp add: claim_full)
  show "slots_ok key val t'"
    if k: "k \<noteq> 0" and g: "slots_get key val t k = None" and c: "claim (\<lambda>s. key s = 0) (mk k v) t = Some t'" for t'
  proof -
    have "find_slot (\<lambda>x. key x = k) t = None" using slots_get_iff [OF ok k] g by (auto simp: find_slot_None)
    with claim_table(1) [OF one c] k have "one_per_key key 0 t'" by (simp add: key_mk)
    with ok set_claim [OF c] c show ?thesis by (auto simp: slots_ok_def val_mk)
  qed
  show "slots_get key val t' = (slots_get key val t)(k \<mapsto> v)"
    if k: "k \<noteq> 0" and g: "slots_get key val t k = None" and c: "claim (\<lambda>s. key s = 0) (mk k v) t = Some t'" for t'
  proof -
    have "find_slot (\<lambda>x. key x = k) t = None" using slots_get_iff [OF ok k] g by (auto simp: find_slot_None)
    with claim_table(2) [OF one c] k show ?thesis by (auto simp: slots_get_def key_mk val_mk)
  qed
  show "slots_ok key val (release (\<lambda>s. key s = k) empty t)" if k: "k \<noteq> 0"
    using release_table(1) [OF one key_empty k] ok set_release [of "\<lambda>s. key s = k" empty t]
    by (auto simp: slots_ok_def key_empty)
  show "slots_get key val (release (\<lambda>s. key s = k) empty t) = (slots_get key val t)(k := None)" if k: "k \<noteq> 0"
    using release_table(2) [OF one key_empty k] by (auto simp: slots_get_def)
qed


subsection \<open>The HANDLE table of the Windows build\<close>

text \<open>
  A slot of \<^verbatim>\<open>mp_handle2file\<close> is the HANDLE, the EFILE and whether an fd owns the EFILE. HANDLEs are
  their numeric value; 0 is NULL.
\<close>

type_synonym handle_slot = "nat \<times> nat option \<times> bool"

definition INVALID_HANDLE_VALUE :: nat where "INVALID_HANDLE_VALUE = 2 ^ 64 - 1"

abbreviation (input) free_handle :: handle_slot where "free_handle \<equiv> (0, None, False)"

definition handle_scan :: "nat \<Rightarrow> handle_slot list \<Rightarrow> nat option" where
  "handle_scan h t = Option.bind (find_slot (\<lambda>s. fst s = h) t) (\<lambda>s. fst (snd s))"

definition mp_handle_lookup :: "nat \<Rightarrow> handle_slot list \<Rightarrow> nat option" where
  "mp_handle_lookup h t = (if h = 0 \<or> h = INVALID_HANDLE_VALUE then None else handle_scan h t)"

definition mp_handle_register :: "nat \<Rightarrow> nat \<Rightarrow> handle_slot list \<Rightarrow> handle_slot list option" where
  "mp_handle_register h e t = claim (\<lambda>s. fst s = 0) (h, Some e, False) t"

definition mp_handle_unregister :: "nat \<Rightarrow> handle_slot list \<Rightarrow> nat option \<times> handle_slot list" where
  "mp_handle_unregister h t =
     (if mp_handle_lookup h t = None then (None, t)
      else (case find_slot (\<lambda>s. fst s = h) t of
              Some (_, f, fd_owned) \<Rightarrow> if fd_owned then None else f | None \<Rightarrow> None,
            release (\<lambda>s. fst s = h) free_handle t))"

text \<open>The Windows parts of \<^verbatim>\<open>mp_fd_register\<close> and \<^verbatim>\<open>mp_fd_unregister\<close>.\<close>

definition fd_claim_handle :: "nat \<Rightarrow> nat \<Rightarrow> handle_slot list \<Rightarrow> handle_slot list" where
  "fd_claim_handle h e t =
     (if h = INVALID_HANDLE_VALUE then t
      else case claim (\<lambda>s. fst s = 0) (h, Some e, True) t of None \<Rightarrow> t | Some t' \<Rightarrow> t')"

definition fd_release_handles :: "nat \<Rightarrow> handle_slot list \<Rightarrow> handle_slot list" where
  "fd_release_handles e t =
     map (\<lambda>s. if snd (snd s) \<and> fst (snd s) = Some e then free_handle else s) t"

interpretation hndreg: slot_registry "fst :: handle_slot \<Rightarrow> nat" "\<lambda>s. fst (snd s)"
  "\<lambda>h e. (h, Some e, False)" free_handle
  by unfold_locales simp_all

abbreviation handles_ok :: "handle_slot list \<Rightarrow> bool" where
  "handles_ok \<equiv> slots_ok fst (\<lambda>s. fst (snd s))"

lemma handle_lookup_get:
  "mp_handle_lookup h t = (if h = INVALID_HANDLE_VALUE then None else slots_get fst (\<lambda>s. fst (snd s)) t h)"
  by (simp add: mp_handle_lookup_def handle_scan_def slots_get_def)

lemma handle_register_get:
  assumes "handles_ok t" "h \<noteq> 0" "h \<noteq> INVALID_HANDLE_VALUE" "mp_handle_lookup h t = None"
    and "mp_handle_register h e t = Some t'"
  shows "handles_ok t'" "mp_handle_lookup k t' = (if k = h then Some e else mp_handle_lookup k t)"
proof -
  have g: "slots_get fst (\<lambda>s. fst (snd s)) t h = None"
    using assms(2-4) by (simp add: mp_handle_lookup_def handle_scan_def slots_get_def)
  note c = assms(5) [unfolded mp_handle_register_def]
  show "handles_ok t'" using hndreg.put_ok [OF assms(1,2) g c] .
  show "mp_handle_lookup k t' = (if k = h then Some e else mp_handle_lookup k t)"
    using hndreg.put_get [OF assms(1,2) g c] assms(3) by (auto simp: handle_lookup_get)
qed

lemma handle_unregister_get:
  assumes "handles_ok t"
  shows "handles_ok (snd (mp_handle_unregister h t))"
    "mp_handle_lookup k (snd (mp_handle_unregister h t)) = (if k = h then None else mp_handle_lookup k t)"
proof -
  have "handles_ok (snd (mp_handle_unregister h t)) \<and> mp_handle_lookup k (snd (mp_handle_unregister h t))
      = (if k = h then None else mp_handle_lookup k t)" for k
  proof (cases "mp_handle_lookup h t")
    case None
    with assms show ?thesis by (simp add: mp_handle_unregister_def)
  next
    case (Some e)
    then have h: "h \<noteq> 0" by (auto simp: mp_handle_lookup_def split: if_splits)
    from Some hndreg.del_ok [OF assms h] hndreg.del_get [OF assms h] show ?thesis
      by (auto simp: mp_handle_unregister_def handle_lookup_get)
  qed
  then show "handles_ok (snd (mp_handle_unregister h t))"
    "mp_handle_lookup k (snd (mp_handle_unregister h t)) = (if k = h then None else mp_handle_lookup k t)"
    by blast+
qed

subsection \<open>Tables keyed by the address of their object\<close>

text \<open>
  Find handles and file mappings are known to the program by the address of the object; directory
  streams are their address. Addresses are numbers, 0 is NULL.
\<close>

type_synonym ptr_slot = "nat \<times> nat option"

definition ptr_scan :: "nat \<Rightarrow> ptr_slot list \<Rightarrow> nat option" where
  "ptr_scan h t = Option.bind (find_slot (\<lambda>s. fst s = h) t) snd"

definition ptr_claim :: "nat \<Rightarrow> ptr_slot list \<Rightarrow> ptr_slot list option" where
  "ptr_claim p t = claim (\<lambda>s. fst s = 0) (p, Some p) t"

definition ptr_release :: "nat \<Rightarrow> ptr_slot list \<Rightarrow> ptr_slot list" where
  "ptr_release p t = release (\<lambda>s. fst s = p) (0, None) t"

interpretation ptrreg: slot_registry "fst :: ptr_slot \<Rightarrow> nat" snd "\<lambda>k v. (k, Some v)" "(0, None)"
  by unfold_locales simp_all

definition vdir_scan :: "nat \<Rightarrow> nat list \<Rightarrow> nat option" where
  "vdir_scan p t = find_slot (\<lambda>s. s = p) t"

definition vdir_claim :: "nat \<Rightarrow> nat list \<Rightarrow> nat list option" where
  "vdir_claim p t = claim (\<lambda>s. s = 0) p t"

definition vdir_release :: "nat \<Rightarrow> nat list \<Rightarrow> nat list" where
  "vdir_release p t = release (\<lambda>s. s = p) 0 t"

interpretation vdirreg: slot_registry "\<lambda>p. p" "\<lambda>p. Some ()" "\<lambda>p u. p" 0
  by unfold_locales simp_all

end
