(* ===== verification/Blob_Builder.thy ===== *)
theory Blob_Builder
  imports Blob
begin

text \<open>
  The build-time half of the embedding: Lib/mkembeddata.py, which turns a directory tree into the
  blob that Blob reads. Python integers that stay non-negative are \<open>nat\<close>; every \<^verbatim>\<open>& MASK64\<close> is
  written out. A raised exception is a value of \<open>build_error\<close>. The directory walk is an input (one
  record per visited directory, names in the sorted order the script gives them), and so is the
  compressor.
\<close>

subsection \<open>Hash functions of the script\<close>

definition MASK64 :: nat where "MASK64 = 2 ^ 64 - 1"

fun fnv1a_64_loop :: "nat \<Rightarrow> cstring \<Rightarrow> nat" where
  "fnv1a_64_loop h [] = h"
| "fnv1a_64_loop h (b # s) = fnv1a_64_loop (((h XOR of_char b) * 0x100000001b3) AND MASK64) s"

definition fnv1a_64 :: "cstring \<Rightarrow> nat" where
  "fnv1a_64 s = fnv1a_64_loop 0xcbf29ce484222325 s"

definition chd_mix :: "nat \<Rightarrow> nat \<Rightarrow> nat" where
  "chd_mix h seed =
     (let x = (h XOR ((seed * 0x9E3779B97F4A7C15) AND MASK64)) AND MASK64;
          x = ((x XOR (drop_bit 30 x)) * 0xbf58476d1ce4e5b9) AND MASK64;
          x = ((x XOR (drop_bit 27 x)) * 0x94d049bb133111eb) AND MASK64
      in (x XOR (drop_bit 31 x)) AND MASK64)"

definition bloom_bit_for :: "nat \<Rightarrow> nat \<Rightarrow> nat \<Rightarrow> nat" where
  "bloom_bit_for h i num_bits =
     (let mixed = (h * 0x9E3779B97F4A7C15 + i * 0xbf58476d1ce4e5b9) AND MASK64 in mixed mod num_bits)"

subsection \<open>Entries and the directory walk\<close>

datatype build_error =
    DuplicateDirectory cstring
  | DuplicateFile cstring
  | HashCollision cstring
  | OutOfSeeds nat
  | SlotsUnoccupied
  | StructError

record entry =
  vpath :: cstring
  ehash :: nat
  etype :: nat
  content :: "u8 list"
  mtime_ns :: int
  parent_vpath :: cstring
  edata_pos :: nat
  edata_size :: nat
  epath_offset :: nat
  echildren_start :: nat
  echildren_count :: nat

definition mk_entry :: "cstring \<Rightarrow> nat \<Rightarrow> u8 list \<Rightarrow> int \<Rightarrow> cstring \<Rightarrow> entry" where
  "mk_entry v t c m parent = \<lparr> vpath = v, ehash = fnv1a_64 (map mp_ascii_lower v), etype = t,
     content = c, mtime_ns = m, parent_vpath = parent, edata_pos = 0, edata_size = 0,
     epath_offset = 0, echildren_start = 0, echildren_count = 0 \<rparr>"

text \<open>
  \<open>mkfspath\<close> takes the path relative to the base directory, with \<^verbatim>\<open>/\<close> separators; \<open>None\<close> is the base
  itself.
\<close>

definition mkfspath :: "cstring option \<Rightarrow> cstring" where
  "mkfspath rel =
     (case rel of None \<Rightarrow> ''/''
      | Some r \<Rightarrow>
        let path = ''/'' @ r in
        if take (length ''/__relative__'') path = ''/__relative__''
        then ''~'' @ drop (length ''/__relative__'') path else path)"

definition py_dirname :: "cstring \<Rightarrow> cstring option" where
  "py_dirname r = (if CHR ''/'' \<in> set r
     then Some (rev (drop 1 (dropWhile (\<lambda>c. c \<noteq> CHR ''/'') (rev r)))) else None)"

record walk_dir =
  wd_rel :: "cstring option"
  wd_mtime :: int
  wd_files :: "(cstring \<times> u8 list \<times> int) list"

fun collect_files :: "cstring list \<Rightarrow> cstring \<Rightarrow> (cstring \<times> u8 list \<times> int) list
    \<Rightarrow> build_error + cstring list \<times> entry list" where
  "collect_files seen vdir [] = Inr (seen, [])"
| "collect_files seen vdir ((fname, c, m) # fs) =
     (let vfile = vdir @ ''/'' @ fname; key = map mp_ascii_lower vfile in
      if key \<in> set seen then Inl (DuplicateFile vfile)
      else case collect_files (key # seen) vdir fs of
        Inl e \<Rightarrow> Inl e
      | Inr (seen', es) \<Rightarrow> Inr (seen', mk_entry vfile 1 c m vdir # es))"

fun collect_dirs :: "cstring list \<Rightarrow> walk_dir list \<Rightarrow> build_error + entry list" where
  "collect_dirs seen [] = Inr []"
| "collect_dirs seen (w # ws) =
     (let vdir = mkfspath (wd_rel w) in
      if vdir = ''/'' \<or> vdir = ''~'' then collect_dirs seen ws
      else let key = map mp_ascii_lower vdir in
      if key \<in> set seen then Inl (DuplicateDirectory vdir)
      else case collect_files (key # seen) vdir (wd_files w) of
        Inl e \<Rightarrow> Inl e
      | Inr (seen', es) \<Rightarrow>
        (case collect_dirs seen' ws of
          Inl e \<Rightarrow> Inl e
        | Inr es' \<Rightarrow>
            Inr (mk_entry vdir 0 [] (wd_mtime w) (mkfspath (Option.bind (wd_rel w) py_dirname))
                 # es @ es')))"

definition collect_entries :: "walk_dir list \<Rightarrow> build_error + entry list" where
  "collect_entries ws = collect_dirs [] ws"

fun verify_no_hash_collisions :: "nat list \<Rightarrow> entry list \<Rightarrow> build_error option" where
  "verify_no_hash_collisions by_hash [] = None"
| "verify_no_hash_collisions by_hash (e # es) =
     (if ehash e \<in> set by_hash then Some (HashCollision (vpath e))
      else verify_no_hash_collisions (ehash e # by_hash) es)"

subsection \<open>The bucket count\<close>

text \<open>
  \<open>odd_trial\<close> is the trial division loop of \<open>is_prime\<close>, which starts at 3: the guard \<open>0 < i\<close>
  always holds there and only makes the recursion total.
\<close>

function odd_trial :: "nat \<Rightarrow> nat \<Rightarrow> bool" where
  "odd_trial x i = (if i * i \<le> x \<and> 0 < i then (if x mod i = 0 then False else odd_trial x (i + 2)) else True)"
  by pat_completeness auto
termination
proof (relation "measure (\<lambda>(x, i). Suc x - i)")
  fix x i :: nat
  assume a: "i * i \<le> x \<and> 0 < i" "\<not> x mod i = 0"
  then have "i \<le> i * i" by simp
  with a have "i \<le> x" by linarith
  then show "((x, i + 2), (x, i)) \<in> measure (\<lambda>(x, i). Suc x - i)" by auto
qed simp

definition is_prime :: "nat \<Rightarrow> bool" where
  "is_prime x = (if x < 2 then False else if x < 4 then True
     else if x mod 2 = 0 then False else odd_trial x 3)"

declare odd_trial.simps [simp del]

definition divisor_free :: "nat \<Rightarrow> bool" where
  "divisor_free x \<longleftrightarrow> 2 \<le> x \<and> (\<forall>d. d dvd x \<longrightarrow> d = 1 \<or> d = x)"

lemma odd_trial_free: "divisor_free x \<Longrightarrow> 1 < i \<Longrightarrow> odd_trial x i"
proof (induction x i rule: odd_trial.induct)
  case (1 x i)
  have "x mod i \<noteq> 0" if "i * i \<le> x"
  proof
    assume "x mod i = 0"
    then have "i dvd x" by auto
    with 1 have "i = x" by (auto simp: divisor_free_def)
    with 1 that have "i * i \<le> i * 1" by simp
    with 1 show False by simp
  qed
  with 1 show ?case by (subst odd_trial.simps) auto
qed

lemma is_prime_free: "divisor_free x \<Longrightarrow> is_prime x"
proof -
  assume p: "divisor_free x"
  have "x mod 2 \<noteq> 0" if "4 \<le> x"
    using p that by (auto simp: divisor_free_def dvd_eq_mod_eq_0 [symmetric])
  with p odd_trial_free [OF p] show ?thesis
    by (auto simp: is_prime_def divisor_free_def)
qed

lemma least_divisor_free:
  assumes "2 \<le> (x::nat)"
  obtains p where "divisor_free p" "p dvd x"
proof -
  define p where "p = (LEAST d. 2 \<le> d \<and> d dvd x)"
  have p: "2 \<le> p \<and> p dvd x"
    unfolding p_def by (rule LeastI [of _ x]) (use assms in simp)
  have "d = 1 \<or> d = p" if "d dvd p" for d
  proof (cases "2 \<le> d")
    case True
    from that p have "d dvd x" using dvd_trans by blast
    with True have "p \<le> d" unfolding p_def by (auto intro: Least_le)
    moreover have "d \<le> p" using that p by (auto dest: dvd_imp_le)
    ultimately show ?thesis by simp
  next
    case False
    with that p have "d \<noteq> 0" by (cases "d = 0") auto
    with False show ?thesis by simp
  qed
  with p that show thesis by (auto simp: divisor_free_def)
qed

lemma divisor_free_above: "\<exists>p \<ge> n. divisor_free p"
proof -
  have "(2::nat) \<le> fact n + 1" using fact_ge_1 [of n, where ?'a = nat] by simp
  then obtain p where p: "divisor_free p" "p dvd fact n + 1"
    by (rule least_divisor_free)
  have "n \<le> p"
  proof (rule ccontr)
    assume "\<not> n \<le> p"
    with p(1) have "p dvd fact n" by (auto simp: divisor_free_def intro: dvd_fact)
    with p(2) have "p dvd 1" by (metis dvd_add_right_iff)
    with p(1) show False by (auto simp: divisor_free_def)
  qed
  with p(1) show ?thesis by blast
qed

text \<open>The \<^verbatim>\<open>while not is_prime(n): n += 1\<close> loop stops because there is a prime above any number.\<close>

function next_prime_loop :: "nat \<Rightarrow> nat" where
  "next_prime_loop n = (if is_prime n then n else next_prime_loop (n + 1))"
  by pat_completeness auto
termination
proof (relation "measure (\<lambda>n. (LEAST p. n \<le> p \<and> divisor_free p) - n)")
  fix n
  assume np: "\<not> is_prime n"
  obtain p where p: "n \<le> p" "divisor_free p" using divisor_free_above by blast
  define q where "q = (LEAST p. n \<le> p \<and> divisor_free p)"
  have q: "n \<le> q \<and> divisor_free q" unfolding q_def by (rule LeastI [of _ p]) (use p in simp)
  with np is_prime_free have "n \<noteq> q" by auto
  with q have lt: "n < q" by simp
  have "(LEAST p. n + 1 \<le> p \<and> divisor_free p) \<le> q" using lt q by (intro Least_le) simp
  with lt show "(n + 1, n) \<in> measure (\<lambda>n. (LEAST p. n \<le> p \<and> divisor_free p) - n)"
    unfolding q_def by auto
qed simp

declare next_prime_loop.simps [simp del]

definition next_prime :: "nat \<Rightarrow> nat" where
  "next_prime n = (if n < 2 then 2 else next_prime_loop n)"

subsection \<open>The perfect hash\<close>

definition MAX_SEED :: nat where "MAX_SEED = 2 ^ 31"

text \<open>
  One attempt at placing a bucket: \<open>seen\<close> is the dict from slot to entry index, as the list of its
  items in insertion order.
\<close>

fun try_seed :: "nat list \<Rightarrow> nat \<Rightarrow> bool list \<Rightarrow> nat \<Rightarrow> (nat \<times> nat) list \<Rightarrow> nat list
    \<Rightarrow> (nat \<times> nat) list option" where
  "try_seed hs n occupied seed seen [] = Some seen"
| "try_seed hs n occupied seed seen (i # is) =
     (let slot = chd_mix (hs ! i) seed mod n in
      if occupied ! slot \<or> slot \<in> fst ` set seen then None
      else try_seed hs n occupied seed (seen @ [(slot, i)]) is)"

function find_seed :: "nat list \<Rightarrow> nat \<Rightarrow> bool list \<Rightarrow> nat list \<Rightarrow> nat
    \<Rightarrow> (nat \<times> (nat \<times> nat) list) option" where
  "find_seed hs n occupied bucket seed =
     (if seed < MAX_SEED then
        (case try_seed hs n occupied seed [] bucket of
           Some seen \<Rightarrow> Some (seed, seen)
         | None \<Rightarrow> find_seed hs n occupied bucket (seed + 1))
      else None)"
  by pat_completeness auto
termination
  by (relation "measure (\<lambda>(hs, n, occ, b, seed). MAX_SEED - seed)") auto

declare find_seed.simps [simp del]

record chd_state =
  cs_seeds :: "nat list"
  cs_slots :: "nat list"
  cs_occupied :: "bool list"

definition commit_bucket :: "nat \<Rightarrow> nat \<Rightarrow> (nat \<times> nat) list \<Rightarrow> chd_state \<Rightarrow> chd_state" where
  "commit_bucket b seed seen st =
     \<lparr> cs_seeds = (cs_seeds st)[b := seed],
       cs_slots = foldl (\<lambda>sf (slot, i). sf[i := slot]) (cs_slots st) seen,
       cs_occupied = foldl (\<lambda>oc (slot, i). oc[slot := True]) (cs_occupied st) seen \<rparr>"

fun place_buckets :: "nat list \<Rightarrow> nat \<Rightarrow> nat list list \<Rightarrow> nat list \<Rightarrow> chd_state
    \<Rightarrow> build_error + chd_state" where
  "place_buckets hs n buckets [] st = Inr st"
| "place_buckets hs n buckets (b # bs) st =
     (let bucket = buckets ! b in
      if bucket = [] then place_buckets hs n buckets bs st
      else case find_seed hs n (cs_occupied st) bucket 1 of
        None \<Rightarrow> Inl (OutOfSeeds (length bucket))
      | Some (seed, seen) \<Rightarrow> place_buckets hs n buckets bs (commit_bucket b seed seen st))"

definition bucket_count :: "nat \<Rightarrow> nat" where
  "bucket_count n = next_prime (max 1 ((n + 4 - 1) div 4))"

definition group_buckets :: "nat list \<Rightarrow> nat \<Rightarrow> nat list list" where
  "group_buckets hs r = map (\<lambda>b. filter (\<lambda>i. hs ! i mod r = b) [0..<length hs]) [0..<r]"

definition build_chd :: "nat list \<Rightarrow> build_error + nat list \<times> nat list" where
  "build_chd hs =
     (let n = length hs in
      if n = 0 then Inr ([], [])
      else let r = bucket_count n; buckets = group_buckets hs r;
               order = sort_key (\<lambda>b. - int (length (buckets ! b))) [0..<r]
      in case place_buckets hs n buckets order
               \<lparr> cs_seeds = replicate r 0, cs_slots = replicate n 0xFFFFFFFF,
                 cs_occupied = replicate n False \<rparr> of
           Inl e \<Rightarrow> Inl e
         | Inr st \<Rightarrow> if list_all id (cs_occupied st) then Inr (cs_seeds st, cs_slots st)
                     else Inl SlotsUnoccupied)"

subsection \<open>The bloom filter\<close>

definition BLOOM_NUM_HASHES :: nat where "BLOOM_NUM_HASHES = 7"

definition set_bloom_bit :: "nat \<Rightarrow> nat list \<Rightarrow> nat list" where
  "set_bloom_bit b ws = ws[b div 64 := (ws ! (b div 64)) OR push_bit (b mod 64) 1]"

definition bloom_add :: "nat \<Rightarrow> nat \<Rightarrow> nat list \<Rightarrow> nat list" where
  "bloom_add num_bits h ws =
     fold (\<lambda>i ws. set_bloom_bit (bloom_bit_for h i num_bits) ws) [0..<BLOOM_NUM_HASHES] ws"

definition build_bloom :: "nat list \<Rightarrow> nat list \<times> nat" where
  "build_bloom hs =
     (let n = length hs in
      if n = 0 then ([], 0)
      else let num_bits = ((n * 12 + 63) div 64) * 64
           in (fold (bloom_add num_bits) hs (replicate (num_bits div 64) 0), num_bits))"

subsection \<open>Assembling the blob\<close>

text \<open>
  \<^verbatim>\<open>struct.pack\<close> raises for a value outside its field; \<open>pack_all\<close> packs (width, value) pairs.
\<close>

definition pack_all :: "(nat \<times> nat) list \<Rightarrow> build_error + u8 list" where
  "pack_all fs = (if list_all (\<lambda>(w, v). v < 256 ^ w) fs
     then Inr (concat (map (\<lambda>(w, v). le_bytes w v) fs)) else Inl StructError)"

text \<open>File data: frames in entry order; an empty file has no frame.\<close>

fun lay_data :: "(u8 list \<Rightarrow> u8 list) \<Rightarrow> nat \<Rightarrow> entry list \<Rightarrow> entry list \<times> u8 list" where
  "lay_data compress p [] = ([], [])"
| "lay_data compress p (e # es) =
     (let frame = (if etype e = 1 \<and> content e \<noteq> [] then compress (content e) else []);
          e' = (if etype e = 1 \<and> content e \<noteq> []
                then e\<lparr>edata_pos := p, edata_size := length frame\<rparr>
                else e\<lparr>edata_pos := 0, edata_size := 0\<rparr>);
          (es', d) = lay_data compress (p + length frame) es
      in (e' # es', frame @ d))"

definition slot_entries :: "entry list \<Rightarrow> nat list \<Rightarrow> entry list" where
  "slot_entries es slots =
     map the (foldl (\<lambda>se (i, slot). se[slot := Some (es ! i)]) (replicate (length es) None)
                (enumerate 0 slots))"

definition kids_of :: "entry list \<Rightarrow> entry \<Rightarrow> nat list" where
  "kids_of se e = filter (\<lambda>k. parent_vpath (se ! k) = vpath e) [0..<length se]"

fun lay_children :: "entry list \<Rightarrow> nat \<Rightarrow> entry list \<Rightarrow> entry list \<times> nat list" where
  "lay_children se start [] = ([], [])"
| "lay_children se start (e # es) =
     (let kids = (if etype e = 0 then kids_of se e else []);
          e' = (if etype e = 0
                then e\<lparr>echildren_start := start, echildren_count := length kids\<rparr>
                else e\<lparr>echildren_start := 0, echildren_count := 0\<rparr>);
          (es', cs) = lay_children se (start + length kids) es
      in (e' # es', kids @ cs))"

definition path_bytes :: "cstring \<Rightarrow> u8 list" where
  "path_bytes p = map (\<lambda>c. word_of_nat (of_char c)) p"

fun lay_paths :: "nat \<Rightarrow> entry list \<Rightarrow> entry list \<times> u8 list" where
  "lay_paths off [] = ([], [])"
| "lay_paths off (e # es) =
     (let bs = path_bytes (vpath e) @ [0];
          (es', d) = lay_paths (off + length bs) es
      in (e\<lparr>epath_offset := off\<rparr> # es', bs @ d))"

definition emap_fields :: "entry \<Rightarrow> (nat \<times> nat) list" where
  "emap_fields e = [(8, ehash e), (4, edata_pos e), (4, edata_size e), (4, echildren_start e),
     (4, epath_offset e), (2, echildren_count e), (2, length (path_bytes (vpath e))),
     (1, etype e), (1, 0), (2, 0)]"

definition blob_fields :: "entry list \<Rightarrow> nat list \<Rightarrow> nat list \<Rightarrow> nat list \<Rightarrow> nat \<Rightarrow> u8 list
    \<Rightarrow> (nat \<times> nat) list" where
  "blob_fields se seeds child_slots bloom bloom_bits paths =
     (let n = length se;
          bloom_off = HEADER_SIZE;
          seeds_off = bloom_off + length bloom * 8;
          child_off = seeds_off + length seeds * 4;
          entries_off = child_off + length child_slots * 4;
          paths_off = entries_off + n * EMAP_SIZE;
          mtimes_off = ((paths_off + length paths + 7) div 8) * 8;
          total = mtimes_off + n * 8
      in map (Pair 4) [n, length seeds, length bloom, BLOOM_NUM_HASHES, bloom_bits, bloom_off,
           seeds_off, child_off, entries_off, paths_off, length paths, length child_slots, total,
           mtimes_off]
         @ [(8, 0)] @ map (Pair 8) bloom @ map (Pair 4) seeds @ map (Pair 4) child_slots
         @ concat (map emap_fields se) @ map (\<lambda>b. (1, unat b)) paths
         @ replicate (mtimes_off - (paths_off + length paths)) (1, 0)
         @ map (\<lambda>e. (8, nat (mtime_ns e mod 2 ^ 64))) se)"

text \<open>\<open>build_blob\<close> is \<^verbatim>\<open>main()\<close>: the two byte arrays it writes, or the exception that stopped it.\<close>

definition build_blob :: "(u8 list \<Rightarrow> u8 list) \<Rightarrow> walk_dir list \<Rightarrow> build_error + u8 list \<times> u8 list" where
  "build_blob compress ws =
     (case collect_entries ws of Inl x \<Rightarrow> Inl x | Inr es0 \<Rightarrow>
      (case verify_no_hash_collisions [] es0 of Some x \<Rightarrow> Inl x | None \<Rightarrow>
       (let (es, data) = lay_data compress 0 es0 in
        case build_chd (map ehash es) of Inl x \<Rightarrow> Inl x | Inr (seeds, slots) \<Rightarrow>
        (let se = slot_entries es slots;
             (se, child_slots) = lay_children se 0 se;
             (se, paths) = lay_paths 0 se;
             (bloom, bits) = build_bloom (map ehash se)
         in if list_all (\<lambda>e. fits64 (mtime_ns e)) se then
              (case pack_all (blob_fields se seeds child_slots bloom bits paths) of
                 Inl x \<Rightarrow> Inl x | Inr m \<Rightarrow> Inr (m, data))
            else Inl StructError))))"

end
