(* ===== verification/Blob_Correct.thy ===== *)
theory Blob_Correct
  imports Blob_Builder
begin

text \<open>
  The builder and the runtime agree: the two hash functions are the same function, every field the
  builder packs is read back by the accessors of Blob, the bloom filter has no false negatives, the
  displacement table is a perfect hash, and so every entry is found under any casing of its path
  and nothing else is.
\<close>

subsection \<open>The script's hashes are the runtime's\<close>

lemma MASK64_and: "x AND MASK64 = x mod 2 ^ 64"
proof -
  have "MASK64 = mask 64" by (simp add: MASK64_def mask_eq_exp_minus_1)
  then have "x AND MASK64 = take_bit 64 x" by (simp only: take_bit_eq_mask)
  then show ?thesis by (simp only: take_bit_eq_mod)
qed

lemma of_char_lt: "of_char c < (256::nat)"
  by (metis of_char_mod_256 mod_less_divisor zero_less_numeral)

lemma unat_of_char [simp]: "unat (of_char c :: u64) = of_char c"
proof -
  have "of_char c < (2 ^ 64 :: nat)"
    by (rule less_trans [OF of_char_lt]) simp
  then have "unat (word_of_nat (of_char c) :: u64) = of_char c"
    unfolding unat_of_nat by (intro mod_less) simp
  then show ?thesis by (simp only: of_nat_of_char)
qed

lemma fnv_step: "((unat h XOR of_char b) * 0x100000001b3) AND MASK64 = unat ((h XOR of_char b) * FNV_PRIME)"
  for h :: u64
  unfolding MASK64_and FNV_PRIME_def
  by (simp add: unat_word_ariths unsigned_xor_eq)

lemma fnv_loop: "fnv1a_64_loop (unat h) s = unat (mp_hash64_loop h s)"
  by (induction s arbitrary: h) (auto simp: fnv_step simp del: of_nat_of_char)

lemma fnv1a_64_eq: "fnv1a_64 s = unat (mp_hash64 s)"
  using fnv_loop [of FNV_OFFSET s] by (simp add: fnv1a_64_def mp_hash64_def FNV_OFFSET_def)

lemma mask_word: "x AND MASK64 = unat (word_of_nat x :: u64)"
  by (simp add: MASK64_and unat_of_nat)

lemma word_of_xor: "word_of_nat (a XOR b) = (word_of_nat a XOR word_of_nat b :: u64)"
  by (rule bit_word_eqI) (simp add: bit_simps)

lemma word_of_shr: "word_of_nat (drop_bit k (unat a)) = (drop_bit k a :: u64)"
  by (rule bit_word_eqI) (simp add: bit_simps)

lemma chd_mix_eq: "chd_mix (unat h) seed = unat (mp_chd_mix h seed)"
  for h :: u64
  by (simp add: chd_mix_def mp_chd_mix_def Let_def mask_word word_of_xor word_of_shr
     GOLDEN_RATIO_def SPLITMIX1_def SPLITMIX2_def)

lemma bloom_bit_for_eq: "bloom_bit_for (unat h) i bits = bloom_bit h i bits"
  for h :: u64
  by (simp add: bloom_bit_for_def bloom_bit_def mask_word GOLDEN_RATIO_def SPLITMIX1_def)

subsection \<open>Reading packed fields\<close>

definition fwidth :: "(nat \<times> nat) list \<Rightarrow> nat" where
  "fwidth fs = sum_list (map fst fs)"

definition fields_bytes :: "(nat \<times> nat) list \<Rightarrow> u8 list" where
  "fields_bytes fs = concat (map (\<lambda>(w, v). le_bytes w v) fs)"

definition fields_fit :: "(nat \<times> nat) list \<Rightarrow> bool" where
  "fields_fit fs = list_all (\<lambda>(w, v). v < 256 ^ w) fs"

lemma pack_all_Inr: "pack_all fs = Inr m \<longleftrightarrow> fields_fit fs \<and> m = fields_bytes fs"
  by (auto simp: pack_all_def fields_bytes_def fields_fit_def)

lemma fwidth_simps [simp]:
  "fwidth [] = 0" "fwidth (f # fs) = fst f + fwidth fs" "fwidth (fs @ gs) = fwidth fs + fwidth gs"
  "fwidth (map (Pair w) xs) = w * length xs" "fwidth (replicate n (w, v)) = n * w"
  by (auto simp: fwidth_def sum_list_replicate sum_list_triv o_def)

lemma fields_bytes_simps [simp]:
  "fields_bytes [] = []" "fields_bytes (f # fs) = le_bytes (fst f) (snd f) @ fields_bytes fs"
  "fields_bytes (fs @ gs) = fields_bytes fs @ fields_bytes gs"
  by (auto simp: fields_bytes_def split: prod.split)

lemma fields_fit_simps [simp]:
  "fields_fit []" "fields_fit (f # fs) \<longleftrightarrow> snd f < 256 ^ fst f \<and> fields_fit fs"
  "fields_fit (fs @ gs) \<longleftrightarrow> fields_fit fs \<and> fields_fit gs"
  by (auto simp: fields_fit_def split: prod.splits)

lemma length_fields_bytes [simp]: "length (fields_bytes fs) = fwidth fs"
  by (induction fs) auto

lemma uint_at_fields:
  assumes "fields_fit (a @ (w, v) # b)"
  shows "uint_at w (fields_bytes (a @ (w, v) # b)) (fwidth a) = v"
  using assms by (simp add: uint_at_def bytes_at_def le_val_bytes_id)

lemma uint_at_array:
  assumes fit: "fields_fit (a @ map (Pair w) xs @ b)" and i: "i < length xs"
  shows "uint_at w (fields_bytes (a @ map (Pair w) xs @ b)) (fwidth a + w * i) = xs ! i"
proof -
  have split: "a @ map (Pair w) xs @ b
      = (a @ map (Pair w) (take i xs)) @ (w, xs ! i) # (map (Pair w) (drop (Suc i) xs) @ b)"
    using i by (simp flip: map_append list.map) (metis append_take_drop_id Cons_nth_drop_Suc list.simps(9) map_append)
  show ?thesis
    using uint_at_fields [of "a @ map (Pair w) (take i xs)" w "xs ! i"
        "map (Pair w) (drop (Suc i) xs) @ b"] fit i
    unfolding split by simp
qed

lemma fwidth_emap_fields [simp]: "fwidth (emap_fields e) = EMAP_SIZE"
  by (simp add: emap_fields_def EMAP_SIZE_def)

lemma fwidth_concat_emap [simp]: "fwidth (concat (map emap_fields es)) = EMAP_SIZE * length es"
  by (induction es) auto

definition emap_rec :: "entry \<Rightarrow> emap" where
  "emap_rec e = \<lparr> em_hash = word_of_nat (ehash e), data_pos = edata_pos e,
     data_size = edata_size e, children_start = echildren_start e, path_offset = epath_offset e,
     children_count = echildren_count e, path_len = length (path_bytes (vpath e)),
     em_type = etype e \<rparr>"

lemma read_emap_fields:
  assumes fit: "fields_fit (a @ emap_fields e @ b)"
  shows "read_emap (fields_bytes (a @ emap_fields e @ b)) (fwidth a) = emap_rec e"
proof -
  let ?f = "emap_fields e"
  have field: "uint_at w (fields_bytes (a @ ?f @ b)) (fwidth a + fwidth p) = v"
    if "?f = p @ (w, v) # q" for p w v q
    using uint_at_fields [of "a @ p" w v "q @ b"] fit that by simp
  show ?thesis
    unfolding read_emap_def emap_rec_def
    using field [of "[]"] field [of "take 1 ?f"] field [of "take 2 ?f"] field [of "take 3 ?f"]
      field [of "take 4 ?f"] field [of "take 5 ?f"] field [of "take 6 ?f"] field [of "take 7 ?f"]
    by (simp add: emap_fields_def)
qed

lemma read_emap_array:
  assumes fit: "fields_fit (a @ concat (map emap_fields es) @ b)" and i: "i < length es"
  shows "read_emap (fields_bytes (a @ concat (map emap_fields es) @ b)) (fwidth a + EMAP_SIZE * i)
         = emap_rec (es ! i)"
proof -
  have split: "concat (map emap_fields es)
      = concat (map emap_fields (take i es)) @ emap_fields (es ! i)
        @ concat (map emap_fields (drop (Suc i) es))"
    by (metis i id_take_nth_drop concat_append concat.simps(2) list.simps(9) map_append)
  show ?thesis
    using read_emap_fields [of "a @ concat (map emap_fields (take i es))" "es ! i"
        "concat (map emap_fields (drop (Suc i) es)) @ b"] fit i
    unfolding split by simp
qed

lemma fields_bytes_raw [simp]: "fields_bytes (map (\<lambda>b. (Suc 0, unat b)) bs) = bs"
proof (induction bs)
  case (Cons b bs)
  have "unat b < 256" using unsigned_less [of b] by simp
  with Cons show ?case by simp
qed simp

lemma fwidth_raw [simp]: "fwidth (map (\<lambda>b. (Suc 0, unat b)) bs) = length bs"
  by (induction bs) auto


subsection \<open>Perfect hashing\<close>

text \<open>An attempt that succeeds lists its bucket with distinct free slots.\<close>

lemma try_seed_Some:
  assumes "try_seed hs n occ seed seen is = Some seen'"
    and "distinct (map fst seen)" and "\<forall>s \<in> fst ` set seen. \<not> occ ! s"
    and "\<forall>(s, i) \<in> set seen. s = chd_mix (hs ! i) seed mod n"
  shows "distinct (map fst seen') \<and> (\<forall>s \<in> fst ` set seen'. \<not> occ ! s)
    \<and> (\<forall>(s, i) \<in> set seen'. s = chd_mix (hs ! i) seed mod n)
    \<and> map snd seen' = map snd seen @ is"
  using assms
proof (induction hs n occ seed seen "is" rule: try_seed.induct)
  case (1 hs n occupied seed seen)
  then show ?case by simp
next
  case (2 hs n occupied seed seen i "is")
  define slot where "slot = chd_mix (hs ! i) seed mod n"
  from 2(2) have c: "\<not> (occupied ! slot \<or> slot \<in> fst ` set seen)"
    and t: "try_seed hs n occupied seed (seen @ [(slot, i)]) is = Some seen'"
    by (auto simp: slot_def Let_def split: if_splits)
  from 2(1) [OF slot_def c t] 2(3-5) c show ?case
    by (auto simp: slot_def)
qed

lemma find_seed_Some:
  "find_seed hs n occ bucket seed = Some (s, seen) \<Longrightarrow>
   try_seed hs n occ s [] bucket = Some seen \<and> seed \<le> s \<and> s < MAX_SEED"
proof (induction hs n occ bucket seed rule: find_seed.induct)
  case (1 hs n occupied bucket seed)
  from 1(2) show ?case
    by (subst (asm) find_seed.simps) (auto split: if_splits option.splits dest: 1(1))
qed

text \<open>
  The state after the buckets in \<open>B\<close> are placed: an index in one of them has the slot its bucket's
  seed gives, and the occupied slots are exactly the slots given out, each to one index.
\<close>

definition placed :: "nat list \<Rightarrow> nat \<Rightarrow> nat \<Rightarrow> nat set \<Rightarrow> nat set" where
  "placed hs n r B = {i. i < n \<and> hs ! i mod r \<in> B}"

definition chd_inv :: "nat list \<Rightarrow> nat \<Rightarrow> nat \<Rightarrow> nat set \<Rightarrow> chd_state \<Rightarrow> bool" where
  "chd_inv hs n r B st \<longleftrightarrow>
     length (cs_seeds st) = r \<and> length (cs_slots st) = n \<and> length (cs_occupied st) = n \<and>
     (\<forall>i \<in> placed hs n r B. cs_slots st ! i = chd_mix (hs ! i) (cs_seeds st ! (hs ! i mod r)) mod n) \<and>
     inj_on ((!) (cs_slots st)) (placed hs n r B) \<and>
     (\<forall>s < n. cs_occupied st ! s \<longleftrightarrow> s \<in> (!) (cs_slots st) ` placed hs n r B)"

lemma foldl_slots:
  assumes "distinct (map snd seen)" and "\<forall>i \<in> snd ` set seen. i < length sf"
  shows "length (foldl (\<lambda>sf (slot, i). sf[i := slot]) sf seen) = length sf \<and>
    (\<forall>(s, i) \<in> set seen. foldl (\<lambda>sf (slot, i). sf[i := slot]) sf seen ! i = s) \<and>
    (\<forall>j. j \<notin> snd ` set seen \<longrightarrow> foldl (\<lambda>sf (slot, i). sf[i := slot]) sf seen ! j = sf ! j)"
  using assms
proof (induction seen arbitrary: sf)
  case Nil
  then show ?case by simp
next
  case (Cons p seen)
  obtain s i where p: "p = (s, i)" by fastforce
  from Cons.IH [of "sf[i := s]"] Cons.prems show ?case
    by (auto simp: p nth_list_update)
qed

lemma foldl_occ:
  assumes "\<forall>s \<in> fst ` set seen. s < length oc"
  shows "length (foldl (\<lambda>oc (slot, i). oc[slot := True]) oc seen) = length oc \<and>
    (\<forall>s < length oc. foldl (\<lambda>oc (slot, i). oc[slot := True]) oc seen ! s
       \<longleftrightarrow> oc ! s \<or> s \<in> fst ` set seen)"
  using assms
proof (induction seen arbitrary: oc)
  case Nil
  then show ?case by simp
next
  case (Cons p seen)
  obtain s i where p: "p = (s, i)" by fastforce
  from Cons.IH [of "oc[s := True]"] Cons.prems show ?case
    by (auto simp: p nth_list_update)
qed


lemma bucket_set:
  "b < r \<Longrightarrow> set (group_buckets hs r ! b) = {i. i < length hs \<and> hs ! i mod r = b}"
  by (auto simp: group_buckets_def)

lemma bucket_distinct: "b < r \<Longrightarrow> distinct (group_buckets hs r ! b)"
  by (simp add: group_buckets_def)

lemma placed_insert:
  "b < r \<Longrightarrow> placed hs (length hs) r (insert b B)
     = placed hs (length hs) r B \<union> set (group_buckets hs r ! b)"
  by (auto simp: placed_def bucket_set)

text \<open>What committing a bucket does to the three tables.\<close>

lemma commit_bucket_tables:
  assumes len: "length (cs_seeds st) = r" "length (cs_slots st) = length hs"
      "length (cs_occupied st) = length hs"
    and b: "b < r"
    and found: "find_seed hs (length hs) (cs_occupied st) (group_buckets hs r ! b) 1 = Some (seed, seen)"
  defines "st' \<equiv> commit_bucket b seed seen st" and "bucket \<equiv> group_buckets hs r ! b"
  shows "length (cs_seeds st') = r" "length (cs_slots st') = length hs"
    "length (cs_occupied st') = length hs"
    "\<And>i. i \<notin> set bucket \<Longrightarrow> cs_slots st' ! i = cs_slots st ! i"
    "\<And>i. i \<in> set bucket \<Longrightarrow> cs_slots st' ! i = chd_mix (hs ! i) seed mod length hs"
    "inj_on ((!) (cs_slots st')) (set bucket)"
    "\<forall>s \<in> (!) (cs_slots st') ` set bucket. \<not> cs_occupied st ! s"
    "\<And>s. s < length hs \<Longrightarrow>
       cs_occupied st' ! s \<longleftrightarrow> cs_occupied st ! s \<or> s \<in> (!) (cs_slots st') ` set bucket"
proof -
  let ?n = "length hs"
  from find_seed_Some [OF found] have "try_seed hs ?n (cs_occupied st) seed [] bucket = Some seen"
    by (simp add: bucket_def)
  from try_seed_Some [OF this] have
    seen: "distinct (map fst seen)" "\<forall>s \<in> fst ` set seen. \<not> cs_occupied st ! s"
      "\<forall>(s, i) \<in> set seen. s = chd_mix (hs ! i) seed mod ?n" "map snd seen = bucket"
    by auto
  have snd_seen: "snd ` set seen = set bucket" using seen(4) by (metis set_map)
  have dist: "distinct (map snd seen)"
    using seen(4) bucket_distinct [OF b] by (simp add: bucket_def)
  have bkt: "\<forall>i \<in> snd ` set seen. i < length (cs_slots st)"
    using snd_seen len b by (auto simp: bucket_set bucket_def)
  note sf = foldl_slots [OF dist bkt]
  have new: "cs_slots st' ! i = s" if "(s, i) \<in> set seen" for s i
    using sf that by (auto simp: st'_def commit_bucket_def)
  have img: "(!) (cs_slots st') ` set bucket = fst ` set seen"
    unfolding snd_seen [symmetric] using new by force
  have at: "\<exists>s. (s, i) \<in> set seen \<and> s = chd_mix (hs ! i) seed mod ?n" if "i \<in> set bucket" for i
  proof -
    from that snd_seen have "i \<in> snd ` set seen" by simp
    then obtain s where "(s, i) \<in> set seen" by auto
    with seen(3) show ?thesis by blast
  qed
  have lt: "\<forall>s \<in> fst ` set seen. s < length (cs_occupied st)"
  proof
    fix s assume "s \<in> fst ` set seen"
    then obtain i where i: "(s, i) \<in> set seen" by auto
    then have "i \<in> snd ` set seen" by force
    with bkt len(2) have "i < ?n" by auto
    moreover have "s = chd_mix (hs ! i) seed mod ?n" using i seen(3) by blast
    moreover have "0 < ?n" using \<open>i < ?n\<close> by linarith
    ultimately show "s < length (cs_occupied st)" using len(3) by simp
  qed
  note oc = foldl_occ [OF lt]
  show "length (cs_seeds st') = r" "length (cs_slots st') = ?n" "length (cs_occupied st') = ?n"
    using sf oc len by (auto simp: st'_def commit_bucket_def)
  show "cs_slots st' ! i = cs_slots st ! i" if "i \<notin> set bucket" for i
    using sf that snd_seen by (auto simp: st'_def commit_bucket_def)
  show "cs_slots st' ! i = chd_mix (hs ! i) seed mod ?n" if "i \<in> set bucket" for i
    using at [OF that] new by blast
  show "\<forall>s \<in> (!) (cs_slots st') ` set bucket. \<not> cs_occupied st ! s"
    unfolding img by (rule seen(2))
  show "cs_occupied st' ! s \<longleftrightarrow> cs_occupied st ! s \<or> s \<in> (!) (cs_slots st') ` set bucket" if "s < ?n" for s
    unfolding img using oc that len by (auto simp: st'_def commit_bucket_def)
  show "inj_on ((!) (cs_slots st')) (set bucket)"
  proof (rule inj_onI)
    fix i j
    assume ij: "i \<in> set bucket" "j \<in> set bucket" "cs_slots st' ! i = cs_slots st' ! j"
    then obtain s t where "(s, i) \<in> set seen" "(t, j) \<in> set seen"
      using at by blast
    with ij(3) new have "(s, i) \<in> set seen" "(s, j) \<in> set seen" by auto
    with seen(1) show "i = j" by (auto dest: eq_key_imp_eq_value)
  qed
qed

lemma commit_bucket_inv:
  assumes inv: "chd_inv hs (length hs) r B st" and b: "b < r" "b \<notin> B"
    and found: "find_seed hs (length hs) (cs_occupied st) (group_buckets hs r ! b) 1 = Some (seed, seen)"
  shows "chd_inv hs (length hs) r (insert b B) (commit_bucket b seed seen st)"
proof -
  let ?n = "length hs" and ?bucket = "group_buckets hs r ! b"
  let ?P = "placed hs ?n r B" and ?st = "commit_bucket b seed seen st"
  have len: "length (cs_seeds st) = r" "length (cs_slots st) = ?n" "length (cs_occupied st) = ?n"
    and occ_old: "\<And>s. s < ?n \<Longrightarrow> cs_occupied st ! s \<longleftrightarrow> s \<in> (!) (cs_slots st) ` ?P"
    using inv by (auto simp: chd_inv_def)
  note tab = commit_bucket_tables [OF len b(1) found]
  have disj: "?P \<inter> set ?bucket = {}" using b by (auto simp: placed_def bucket_set)
  have old: "cs_slots ?st ! i = cs_slots st ! i" if "i \<in> ?P" for i
    using that disj tab(4) by blast
  have img_old: "(!) (cs_slots ?st) ` ?P = (!) (cs_slots st) ` ?P"
    using old by (auto intro: image_cong)
  have lt: "cs_slots ?st ! i < ?n" if "i \<in> set ?bucket" for i
  proof -
    from that b(1) have "0 < ?n" by (auto simp: bucket_set)
    with tab(5) [OF that] show ?thesis by simp
  qed
  have mix: "cs_slots ?st ! i = chd_mix (hs ! i) (cs_seeds ?st ! (hs ! i mod r)) mod ?n"
    if "i \<in> ?P \<union> set ?bucket" for i
  proof (cases "i \<in> ?P")
    case True
    then have "hs ! i mod r \<noteq> b" using b(2) by (auto simp: placed_def)
    with True inv old show ?thesis by (auto simp: chd_inv_def commit_bucket_def)
  next
    case False
    with that have i: "i \<in> set ?bucket" by simp
    then have "hs ! i mod r = b" using b(1) by (simp add: bucket_set)
    with tab(5) [OF i] len b(1) show ?thesis by (simp add: commit_bucket_def)
  qed
  have "inj_on ((!) (cs_slots ?st)) ?P" using inv old by (auto simp: chd_inv_def inj_on_def)
  moreover have "(!) (cs_slots ?st) ` ?P \<inter> (!) (cs_slots ?st) ` set ?bucket = {}"
  proof (rule Int_emptyI)
    fix s
    assume "s \<in> (!) (cs_slots ?st) ` ?P" and new: "s \<in> (!) (cs_slots ?st) ` set ?bucket"
    moreover from new lt have "s < ?n" by auto
    ultimately show False using occ_old [of s] tab(7) img_old by auto
  qed
  moreover have "?P - set ?bucket = ?P" "set ?bucket - ?P = set ?bucket" using disj by blast+
  ultimately have inj: "inj_on ((!) (cs_slots ?st)) (?P \<union> set ?bucket)"
    using tab(6) by (simp only: inj_on_Un simp_thms)
  have occ: "cs_occupied ?st ! s \<longleftrightarrow> s \<in> (!) (cs_slots ?st) ` (?P \<union> set ?bucket)" if "s < ?n" for s
    unfolding image_Un img_old using tab(8) [OF that] occ_old [OF that] by simp
  show ?thesis
    unfolding chd_inv_def placed_insert [OF b(1)]
  proof (intro conjI ballI allI impI)
    show "length (cs_seeds ?st) = r" "length (cs_slots ?st) = ?n" "length (cs_occupied ?st) = ?n"
      by (rule tab)+
  qed (use mix inj occ in \<open>simp_all only:\<close>)
qed

lemma place_buckets_inv:
  assumes "place_buckets hs (length hs) (group_buckets hs r) bs st = Inr st'"
    and "chd_inv hs (length hs) r B st" and "distinct bs" and "set bs \<inter> B = {}" and "set bs \<subseteq> {..<r}"
  shows "chd_inv hs (length hs) r (B \<union> set bs) st'"
  using assms
proof (induction bs arbitrary: B st)
  case Nil
  then show ?case by simp
next
  case (Cons b bs)
  from Cons.prems have b: "b < r" "b \<notin> B" by auto
  show ?case
  proof (cases "group_buckets hs r ! b = []")
    case True
    with b(1) have "chd_inv hs (length hs) r (insert b B) st"
      using Cons.prems(2) placed_insert [OF b(1), of hs B] by (simp add: chd_inv_def)
    with Cons.IH [of st "insert b B"] Cons.prems True show ?thesis by auto
  next
    case False
    with Cons.prems(1) obtain seed seen where
      found: "find_seed hs (length hs) (cs_occupied st) (group_buckets hs r ! b) 1 = Some (seed, seen)"
      and rest: "place_buckets hs (length hs) (group_buckets hs r) bs (commit_bucket b seed seen st) = Inr st'"
      by (auto simp: Let_def split: option.splits)
    from commit_bucket_inv [OF Cons.prems(2) b found]
    have "chd_inv hs (length hs) r (insert b B) (commit_bucket b seed seen st)" .
    with Cons.IH [OF rest, of "insert b B"] Cons.prems show ?thesis by auto
  qed
qed

lemma next_prime_loop_ge: "n \<le> next_prime_loop n \<and> is_prime (next_prime_loop n)"
proof (induction n rule: next_prime_loop.induct)
  case (1 n)
  then show ?case by (cases "is_prime n") (auto simp: next_prime_loop.simps [of n])
qed

lemma bucket_count_pos: "0 < bucket_count n"
  using next_prime_loop_ge [of "max 1 ((n + 4 - 1) div 4)"]
  by (auto simp: bucket_count_def next_prime_def)

lemma build_chd_perfect:
  assumes "build_chd hs = Inr (seeds, slots)" and "hs \<noteq> []"
  shows "length seeds = bucket_count (length hs) \<and> length slots = length hs \<and>
    (\<forall>i < length hs. slots ! i
        = chd_mix (hs ! i) (seeds ! (hs ! i mod bucket_count (length hs))) mod length hs) \<and>
    bij_betw ((!) slots) {..<length hs} {..<length hs}"
proof -
  let ?n = "length hs" and ?r = "bucket_count (length hs)"
  let ?order = "sort_key (\<lambda>b. - int (length (group_buckets hs ?r ! b))) [0..<?r]"
  let ?st0 = "\<lparr> cs_seeds = replicate ?r 0, cs_slots = replicate ?n 0xFFFFFFFF,
                cs_occupied = replicate ?n False \<rparr>"
  from assms obtain st where
    st: "place_buckets hs ?n (group_buckets hs ?r) ?order ?st0 = Inr st"
      "seeds = cs_seeds st" "slots = cs_slots st" "list_all id (cs_occupied st)"
    by (auto simp: build_chd_def Let_def split: sum.splits if_splits)
  have "chd_inv hs ?n ?r {} ?st0" by (simp add: chd_inv_def placed_def)
  from place_buckets_inv [OF st(1) this] have "chd_inv hs ?n ?r {..<?r} st"
    by (simp add: atLeast0LessThan)
  moreover have "placed hs ?n ?r {..<?r} = {..<?n}"
    using bucket_count_pos by (auto simp: placed_def)
  ultimately have inv: "length (cs_seeds st) = ?r" "length (cs_slots st) = ?n" "length (cs_occupied st) = ?n"
    "\<forall>i \<in> {..<?n}. cs_slots st ! i = chd_mix (hs ! i) (cs_seeds st ! (hs ! i mod ?r)) mod ?n"
    "inj_on ((!) (cs_slots st)) {..<?n}"
    "\<forall>s < ?n. cs_occupied st ! s \<longleftrightarrow> s \<in> (!) (cs_slots st) ` {..<?n}"
    by (auto simp: chd_inv_def)
  have "(!) (cs_slots st) ` {..<?n} \<subseteq> {..<?n}" using inv(4) assms(2) by auto
  moreover have "{..<?n} \<subseteq> (!) (cs_slots st) ` {..<?n}"
    using inv(3,6) st(4) by (auto simp: list_all_length)
  ultimately show ?thesis using inv st by (auto simp: bij_betw_def)
qed


subsection \<open>The bloom filter has no false negatives\<close>

definition bloom_has :: "nat list \<Rightarrow> nat \<Rightarrow> bool" where
  "bloom_has ws b \<longleftrightarrow> b div 64 < length ws \<and> bit (ws ! (b div 64)) (b mod 64)"

lemma length_set_bloom_bit [simp]: "length (set_bloom_bit b ws) = length ws"
  by (simp add: set_bloom_bit_def)

lemma set_bloom_bit_has: "b div 64 < length ws \<Longrightarrow> bloom_has (set_bloom_bit b ws) b"
  by (simp add: bloom_has_def set_bloom_bit_def bit_simps)

lemma set_bloom_bit_mono: "bloom_has ws b \<Longrightarrow> bloom_has (set_bloom_bit c ws) b"
  by (cases "b div 64 = c div 64") (auto simp: bloom_has_def set_bloom_bit_def bit_simps)

lemma fold_bloom_mono:
  "bloom_has ws b \<Longrightarrow> bloom_has (fold (\<lambda>i ws. set_bloom_bit (f i) ws) is ws) b"
  by (induction "is" arbitrary: ws) (auto simp: set_bloom_bit_mono)

lemma length_fold_bloom [simp]: "length (fold (\<lambda>i ws. set_bloom_bit (f i) ws) is ws) = length ws"
  by (induction "is" arbitrary: ws) auto

lemma fold_bloom_has:
  "i \<in> set is \<Longrightarrow> f i div 64 < length ws \<Longrightarrow> bloom_has (fold (\<lambda>i ws. set_bloom_bit (f i) ws) is ws) (f i)"
  by (induction "is" arbitrary: ws) (auto simp: set_bloom_bit_has fold_bloom_mono)

lemma fold_add_mono: "bloom_has ws b \<Longrightarrow> bloom_has (fold (bloom_add bits) hs ws) b"
  by (induction hs arbitrary: ws) (auto simp: bloom_add_def fold_bloom_mono)

lemma length_fold_add [simp]: "length (fold (bloom_add bits) hs ws) = length ws"
  by (induction hs arbitrary: ws) (auto simp: bloom_add_def)

lemma fold_add_has:
  assumes "h \<in> set hs" "i < BLOOM_NUM_HASHES" "64 * length ws = bits" "0 < bits"
  shows "bloom_has (fold (bloom_add bits) hs ws) (bloom_bit_for h i bits)"
  using assms
proof (induction hs arbitrary: ws)
  case Nil
  then show ?case by simp
next
  case (Cons g hs)
  have "bloom_bit_for h i bits < bits" using Cons.prems by (simp add: bloom_bit_for_def)
  then have "bloom_bit_for h i bits div 64 < length ws" using Cons.prems(3) by auto
  then have "bloom_has (bloom_add bits h ws) (bloom_bit_for h i bits)"
    using Cons.prems(2) unfolding bloom_add_def
    by (intro fold_bloom_has [where f = "\<lambda>i. bloom_bit_for h i bits"]) auto
  then have "g = h \<Longrightarrow> bloom_has (fold (bloom_add bits) hs (bloom_add bits g ws)) (bloom_bit_for h i bits)"
    using fold_add_mono by blast
  moreover have "length (bloom_add bits g ws) = length ws" by (simp add: bloom_add_def)
  ultimately show ?case
    using Cons.prems Cons.IH [of "bloom_add bits g ws"] by (cases "g = h") auto
qed

lemma build_bloom_has:
  assumes "h \<in> set hs" "i < BLOOM_NUM_HASHES" "build_bloom hs = (ws, bits)"
  shows "bloom_has ws (bloom_bit_for h i bits)"
proof -
  from assms(1) have "0 < length hs" by (cases hs) auto
  then have "64 \<le> length hs * 12 + 63" by linarith
  then have "0 < (length hs * 12 + 63) div 64" by (simp only: div_greater_zero_iff) simp
  with assms show ?thesis
    by (auto simp: build_bloom_def Let_def intro!: fold_add_has split: if_splits)
qed

subsection \<open>Laying out entries, children and paths\<close>

lemma foldl_put:
  assumes "distinct (map snd kvs)" and "\<forall>k \<in> snd ` set kvs. k < length xs"
  shows "\<forall>(v, k) \<in> set kvs. foldl (\<lambda>xs (v, k). xs[k := v]) xs kvs ! k = v"
  using foldl_slots [OF assms] by blast

lemma slot_entries_nth:
  assumes len: "length slots = length es" and bij: "bij_betw ((!) slots) {..<length es} {..<length es}"
    and i: "i < length es"
  shows "slot_entries es slots ! (slots ! i) = es ! i"
proof -
  let ?kvs = "map (\<lambda>(i, slot). (Some (es ! i), slot)) (enumerate 0 slots)"
  have kvs: "map snd ?kvs = slots" by (simp add: enumerate_eq_zip o_def split_def)
  have "distinct slots"
    using bij len by (auto simp: distinct_conv_nth bij_betw_def inj_on_def)
  moreover have "set slots \<subseteq> {..<length es}"
    using bij len by (auto simp: bij_betw_def set_conv_nth)
  moreover have "(Some (es ! i), slots ! i) \<in> set ?kvs"
  proof -
    have "(i, slots ! i) \<in> set (enumerate 0 slots)"
      using i len by (simp add: in_set_enumerate_eq)
    then show ?thesis by force
  qed
  ultimately have "foldl (\<lambda>xs (v, k). xs[k := v]) (replicate (length es) None) ?kvs ! (slots ! i) = Some (es ! i)"
    using foldl_put [of ?kvs "replicate (length es) None"] kvs
    by (metis (mono_tags, lifting) case_prodD length_replicate lessThan_iff list.set_map subset_iff)
  moreover have "foldl (\<lambda>xs (v, k). xs[k := v]) (replicate (length es) None) ?kvs
     = foldl (\<lambda>se (i, slot). se[slot := Some (es ! i)]) (replicate (length es) None) (enumerate 0 slots)"
    by (simp add: foldl_map split_def)
  moreover have "slots ! i < length es" using bij i by (auto simp: bij_betw_def)
  moreover have "length (foldl (\<lambda>se (i, slot). se[slot := Some (es ! i)]) se0 ps) = length se0" for se0 ps
    by (induction ps arbitrary: se0) auto
  ultimately show ?thesis by (simp add: slot_entries_def)
qed

lemma length_slot_entries [simp]: "length (slot_entries es slots) = length es"
proof -
  have "length (foldl (\<lambda>se (i, slot). se[slot := Some (es ! i)]) se0 ps) = length se0" for se0 ps
    by (induction ps arbitrary: se0) auto
  then show ?thesis by (simp add: slot_entries_def)
qed

text \<open>The later passes only fill in layout fields: the identity of an entry is \<open>core\<close>.\<close>

definition core :: "entry \<Rightarrow> cstring \<times> nat \<times> nat \<times> u8 list \<times> int \<times> cstring" where
  "core e = (vpath e, ehash e, etype e, content e, mtime_ns e, parent_vpath e)"

lemma lay_data_core [simp]: "map core (fst (lay_data compress p es)) = map core es"
  by (induction compress p es rule: lay_data.induct) (auto simp: Let_def core_def split: prod.split)

lemma lay_children_core [simp]: "map core (fst (lay_children se p es)) = map core es"
  by (induction se p es rule: lay_children.induct) (auto simp: Let_def core_def split: prod.split)

lemma lay_paths_core [simp]: "map core (fst (lay_paths p es)) = map core es"
  by (induction p es rule: lay_paths.induct) (auto simp: Let_def core_def split: prod.split)

lemma core_length: "map core xs = map core ys \<Longrightarrow> length xs = length ys"
  by (metis length_map)

lemma core_nth: "map core xs = map core ys \<Longrightarrow> i < length ys \<Longrightarrow> core (xs ! i) = core (ys ! i)"
  by (metis core_length nth_map)

lemma core_eqD:
  "core x = core y \<Longrightarrow> vpath x = vpath y \<and> ehash x = ehash y \<and> etype x = etype y
     \<and> content x = content y \<and> mtime_ns x = mtime_ns y \<and> parent_vpath x = parent_vpath y"
  by (simp add: core_def)

lemma drop_past: "off + length xs \<le> k \<Longrightarrow> drop (k - off) (xs @ ys) = drop (k - (off + length xs)) ys"
  by (simp add: add.commute)

text \<open>The child table: a directory's slice of it is the list of its children.\<close>

lemma lay_children_nth:
  "i < length es \<Longrightarrow> etype (es ! i) = 0 \<Longrightarrow> lay_children se start es = (es', cs) \<Longrightarrow>
   start \<le> echildren_start (es' ! i) \<and> echildren_count (es' ! i) = length (kids_of se (es ! i)) \<and>
   take (echildren_count (es' ! i)) (drop (echildren_start (es' ! i) - start) cs) = kids_of se (es ! i)"
proof (induction es arbitrary: start i es' cs)
  case Nil
  then show ?case by simp
next
  case (Cons e es)
  define kids where "kids = (if etype e = 0 then kids_of se e else [])"
  obtain fs ds where rest: "lay_children se (start + length kids) es = (fs, ds)" by fastforce
  with Cons.prems(3) have es': "tl es' = fs" "es' \<noteq> []" and cs: "cs = kids @ ds"
    and hd: "etype e = 0 \<Longrightarrow> echildren_start (hd es') = start \<and> echildren_count (hd es') = length kids"
    by (auto simp: Let_def kids_def)
  show ?case
  proof (cases i)
    case 0
    with Cons.prems cs hd es' show ?thesis by (auto simp: kids_def hd_conv_nth)
  next
    case (Suc j)
    with Cons.prems have j: "j < length es" "etype (es ! j) = 0" by auto
    from Suc es' have nth: "es' ! i = fs ! j" by (cases es') auto
    from Cons.IH [OF j rest] show ?thesis
      unfolding nth cs using Suc by (auto simp: drop_past)
  qed
qed

text \<open>The path table: the bytes of an entry's path, up to the NUL, start at its offset.\<close>

lemma lay_paths_nth:
  "i < length es \<Longrightarrow> lay_paths off es = (es', d) \<Longrightarrow>
   off \<le> epath_offset (es' ! i) \<and>
   (\<exists>rest. drop (epath_offset (es' ! i) - off) d = path_bytes (vpath (es ! i)) @ 0 # rest)"
proof (induction es arbitrary: off i es' d)
  case Nil
  then show ?case by simp
next
  case (Cons e es)
  define bs where "bs = path_bytes (vpath e) @ [0]"
  obtain fs ds where rest: "lay_paths (off + length bs) es = (fs, ds)" by fastforce
  with Cons.prems(2) have es': "es' = e\<lparr>epath_offset := off\<rparr> # fs" and d: "d = bs @ ds"
    by (auto simp: Let_def bs_def)
  show ?case
  proof (cases i)
    case 0
    with es' d show ?thesis by (simp add: bs_def)
  next
    case (Suc j)
    with Cons.prems have j: "j < length es" by simp
    from Cons.IH [OF j rest] show ?thesis
      unfolding es' d using Suc by (auto simp: drop_past simp del: drop_append)
  qed
qed

lemma unat_char8 [simp]: "unat (of_char c :: u8) = of_char c"
  using unat_byte_of_mod [of "of_char c"] by (simp add: of_nat_of_char)

lemma of_char8_0 [simp]: "(of_char c :: u8) = 0 \<longleftrightarrow> c = CHR 0x00"
proof
  assume "(of_char c :: u8) = 0"
  then have "unat (of_char c :: u8) = of_char (CHR 0x00)" by simp
  then have "(of_char c :: nat) = of_char (CHR 0x00)" by (simp only: unat_char8)
  then show "c = CHR 0x00" by (simp only: of_char_eq_iff)
qed simp

lemma cstr_at_path:
  assumes "drop off m = path_bytes p @ 0 # rest" and "CHR 0x00 \<notin> set p"
  shows "cstr_at m off = p"
proof -
  have "takeWhile (\<lambda>b. b \<noteq> 0) (path_bytes p @ 0 # rest) = path_bytes p"
    using assms(2) by (subst takeWhile_append2) (auto simp: path_bytes_def of_nat_of_char)
  moreover have "map (\<lambda>b. char_of (unat b)) (path_bytes p) = p"
    by (simp add: path_bytes_def o_def of_nat_of_char)
  ultimately show ?thesis using assms(1) by (simp add: cstr_at_def)
qed

subsection \<open>The pointers into a built blob\<close>

text \<open>\<open>blob_layout\<close>: the image's map is the packed fields of these tables.\<close>

definition blob_layout :: "image \<Rightarrow> entry list \<Rightarrow> nat list \<Rightarrow> nat list \<Rightarrow> nat list \<Rightarrow> nat \<Rightarrow> u8 list \<Rightarrow> bool" where
  "blob_layout img se seeds cs bloom bits paths \<longleftrightarrow>
     fields_fit (blob_fields se seeds cs bloom bits paths) \<and>
     nuitka_embed_map img = fields_bytes (blob_fields se seeds cs bloom bits paths)"

definition seeds_off :: "nat list \<Rightarrow> nat" where
  "seeds_off bloom = HEADER_SIZE + length bloom * 8"
definition child_off :: "nat list \<Rightarrow> nat list \<Rightarrow> nat" where
  "child_off bloom seeds = seeds_off bloom + length seeds * 4"
definition entries_off :: "nat list \<Rightarrow> nat list \<Rightarrow> nat list \<Rightarrow> nat" where
  "entries_off bloom seeds cs = child_off bloom seeds + length cs * 4"
definition paths_off :: "nat list \<Rightarrow> nat list \<Rightarrow> nat list \<Rightarrow> nat \<Rightarrow> nat" where
  "paths_off bloom seeds cs n = entries_off bloom seeds cs + n * EMAP_SIZE"
definition mtimes_off :: "nat list \<Rightarrow> nat list \<Rightarrow> nat list \<Rightarrow> nat \<Rightarrow> u8 list \<Rightarrow> nat" where
  "mtimes_off bloom seeds cs n paths = ((paths_off bloom seeds cs n + length paths + 7) div 8) * 8"

definition header_fields :: "nat \<Rightarrow> nat list \<Rightarrow> nat list \<Rightarrow> nat list \<Rightarrow> nat \<Rightarrow> u8 list \<Rightarrow> nat list" where
  "header_fields n seeds cs bloom bits paths =
     [n, length seeds, length bloom, BLOOM_NUM_HASHES, bits, HEADER_SIZE, seeds_off bloom,
      child_off bloom seeds, entries_off bloom seeds cs, paths_off bloom seeds cs n, length paths,
      length cs, mtimes_off bloom seeds cs n paths + n * 8, mtimes_off bloom seeds cs n paths]"

definition mtime_fields :: "entry list \<Rightarrow> (nat \<times> nat) list" where
  "mtime_fields se = map (Pair 8) (map (\<lambda>e. nat (mtime_ns e mod 2 ^ 64)) se)"

lemmas off_defs = seeds_off_def child_off_def entries_off_def paths_off_def mtimes_off_def

lemma blob_fields_eq:
  "blob_fields se seeds cs bloom bits paths =
     map (Pair 4) (header_fields (length se) seeds cs bloom bits paths) @ [(8, 0)]
     @ map (Pair 8) bloom @ map (Pair 4) seeds @ map (Pair 4) cs
     @ concat (map emap_fields se) @ map (\<lambda>b. (Suc 0, unat b)) paths
     @ replicate (mtimes_off bloom seeds cs (length se) paths
                  - (paths_off bloom seeds cs (length se) + length paths)) (Suc 0, 0)
     @ mtime_fields se"
  by (simp add: blob_fields_def Let_def header_fields_def mtime_fields_def off_defs o_def)

lemma length_header_fields [simp]: "length (header_fields n seeds cs bloom bits paths) = 14"
  by (simp add: header_fields_def)

lemma fwidth_header [simp]:
  "fwidth (map (Pair 4) (header_fields n seeds cs bloom bits paths)) + 8 = HEADER_SIZE"
  by (simp add: HEADER_SIZE_def)

lemma blob_array:
  assumes "blob_layout img se seeds cs bloom bits paths"
    and "blob_fields se seeds cs bloom bits paths = a @ map (Pair w) xs @ b"
    and "i < length xs"
  shows "uint_at w (nuitka_embed_map img) (fwidth a + w * i) = xs ! i"
  using uint_at_array [of a w xs b i] assms by (simp add: blob_layout_def)

lemma blob_header:
  assumes l: "blob_layout img se seeds cs bloom bits paths" and "k < 14"
  shows "u32_at (nuitka_embed_map img) (4 * k) = header_fields (length se) seeds cs bloom bits paths ! k"
  using blob_array [OF l, of "[]" 4 "header_fields (length se) seeds cs bloom bits paths" _ k] assms(2)
  unfolding blob_fields_eq by simp

lemma read_header_layout:
  assumes l: "blob_layout img se seeds cs bloom bits paths"
  shows "read_header (nuitka_embed_map img) = \<lparr> num_entries = length se, num_buckets = length seeds,
     bloom_size_words = length bloom, bloom_num_hashes = BLOOM_NUM_HASHES, bloom_num_bits = bits,
     bloom_offset = HEADER_SIZE, seeds_offset = seeds_off bloom,
     child_slots_offset = child_off bloom seeds, entries_offset = entries_off bloom seeds cs,
     paths_offset = paths_off bloom seeds cs (length se), paths_size = length paths,
     num_child_slots = length cs,
     map_total_size = mtimes_off bloom seeds cs (length se) paths + length se * 8,
     mtimes_offset = mtimes_off bloom seeds cs (length se) paths \<rparr>"
  using blob_header [OF l, of 0] blob_header [OF l, of 1] blob_header [OF l, of 2]
    blob_header [OF l, of 3] blob_header [OF l, of 4] blob_header [OF l, of 5]
    blob_header [OF l, of 6] blob_header [OF l, of 7] blob_header [OF l, of 8]
    blob_header [OF l, of 9] blob_header [OF l, of 10] blob_header [OF l, of 11]
    blob_header [OF l, of 12] blob_header [OF l, of 13]
  by (simp add: read_header_def header_fields_def)

lemma layout_length: "blob_layout img se seeds cs bloom bits paths \<Longrightarrow> HEADER_SIZE \<le> length (nuitka_embed_map img)"
  by (simp add: blob_layout_def blob_fields_eq HEADER_SIZE_def)

lemma embed_init_layout:
  assumes l: "blob_layout img se seeds cs bloom bits paths" and "se \<noteq> []"
  shows "mp_embed_init img = Some \<lparr> mp_hdr = read_header (nuitka_embed_map img),
     mp_bloom = HEADER_SIZE, mp_seeds = seeds_off bloom, mp_child_slots = child_off bloom seeds,
     mp_entries = entries_off bloom seeds cs, mp_paths = paths_off bloom seeds cs (length se),
     mp_mtimes = Some (mtimes_off bloom seeds cs (length se) paths) \<rparr>"
proof -
  have "8 \<le> mtimes_off bloom seeds cs (length se) paths"
    by (simp add: off_defs HEADER_SIZE_def)
  with layout_length [OF l] assms(2) show ?thesis
    by (simp add: mp_embed_init_def Let_def read_header_layout [OF l] not_less)
qed

lemma embed_ptrs_layout:
  assumes l: "blob_layout img se seeds cs bloom bits paths" and "se \<noteq> []"
  shows "mp_bloom (embed_ptrs_of img) = HEADER_SIZE" "mp_seeds (embed_ptrs_of img) = seeds_off bloom"
    "mp_child_slots (embed_ptrs_of img) = child_off bloom seeds"
    "mp_entries (embed_ptrs_of img) = entries_off bloom seeds cs"
    "mp_paths (embed_ptrs_of img) = paths_off bloom seeds cs (length se)"
    "mp_mtimes (embed_ptrs_of img) = Some (mtimes_off bloom seeds cs (length se) paths)"
    "mp_hdr (embed_ptrs_of img) = read_header (nuitka_embed_map img)"
  by (simp_all add: embed_ptrs_of_def embed_init_layout [OF assms])

lemma bloom_word_layout:
  assumes l: "blob_layout img se seeds cs bloom bits paths" and "k < length bloom"
  shows "u64_at (nuitka_embed_map img) (HEADER_SIZE + 8 * k) = bloom ! k"
  using blob_array [OF l, of "map (Pair 4) (header_fields (length se) seeds cs bloom bits paths) @ [(8, 0)]"
      8 bloom _ k] assms(2)
  unfolding blob_fields_eq by (simp add: HEADER_SIZE_def)

lemma seed_layout:
  assumes l: "blob_layout img se seeds cs bloom bits paths" and "k < length seeds"
  shows "u32_at (nuitka_embed_map img) (seeds_off bloom + 4 * k) = seeds ! k"
  using blob_array [OF l, of "map (Pair 4) (header_fields (length se) seeds cs bloom bits paths) @ [(8, 0)]
      @ map (Pair 8) bloom" 4 seeds _ k] assms(2)
  unfolding blob_fields_eq by (simp add: HEADER_SIZE_def seeds_off_def ac_simps)

lemma child_layout:
  assumes l: "blob_layout img se seeds cs bloom bits paths" and "k < length cs"
  shows "u32_at (nuitka_embed_map img) (child_off bloom seeds + 4 * k) = cs ! k"
  using blob_array [OF l, of "map (Pair 4) (header_fields (length se) seeds cs bloom bits paths) @ [(8, 0)]
      @ map (Pair 8) bloom @ map (Pair 4) seeds" 4 cs _ k] assms(2)
  unfolding blob_fields_eq by (simp add: HEADER_SIZE_def seeds_off_def child_off_def ac_simps)

lemma emap_layout:
  assumes l: "blob_layout img se seeds cs bloom bits paths" and i: "i < length se"
  shows "emap_of img i = emap_rec (se ! i)"
proof -
  let ?a = "map (Pair 4) (header_fields (length se) seeds cs bloom bits paths) @ [(8, 0)]
      @ map (Pair 8) bloom @ map (Pair 4) seeds @ map (Pair 4) cs"
  let ?b = "map (\<lambda>b. (Suc 0, unat b)) paths
     @ replicate (mtimes_off bloom seeds cs (length se) paths
                  - (paths_off bloom seeds cs (length se) + length paths)) (Suc 0, 0)
     @ mtime_fields se"
  have split: "blob_fields se seeds cs bloom bits paths = ?a @ concat (map emap_fields se) @ ?b"
    unfolding blob_fields_eq by simp
  have "fwidth ?a = entries_off bloom seeds cs"
    by (simp add: off_defs HEADER_SIZE_def ac_simps)
  moreover have "fields_fit (?a @ concat (map emap_fields se) @ ?b)"
    and "nuitka_embed_map img = fields_bytes (?a @ concat (map emap_fields se) @ ?b)"
    using l unfolding blob_layout_def split by blast+
  moreover have "se \<noteq> []" using i by auto
  ultimately show ?thesis
    using read_emap_array [of ?a se ?b i] i embed_ptrs_layout [OF l]
    by (simp add: emap_of_def entry_at_def del: fields_bytes_simps)
qed

lemma path_layout:
  assumes l: "blob_layout img se seeds cs bloom bits paths" and i: "i < length se"
    and p: "drop (epath_offset (se ! i)) paths = path_bytes (vpath (se ! i)) @ 0 # rest"
    and nn: "CHR 0x00 \<notin> set (vpath (se ! i))"
  shows "mp_path_of img i = vpath (se ! i)"
proof -
  let ?a = "map (Pair 4) (header_fields (length se) seeds cs bloom bits paths) @ [(8, 0)]
      @ map (Pair 8) bloom @ map (Pair 4) seeds @ map (Pair 4) cs @ concat (map emap_fields se)"
  let ?b = "replicate (mtimes_off bloom seeds cs (length se) paths
                  - (paths_off bloom seeds cs (length se) + length paths)) (Suc 0, 0)
     @ mtime_fields se"
  have split: "blob_fields se seeds cs bloom bits paths = ?a @ map (\<lambda>b. (Suc 0, unat b)) paths @ ?b"
    unfolding blob_fields_eq by simp
  have m: "nuitka_embed_map img = fields_bytes ?a @ paths @ fields_bytes ?b"
    using l unfolding blob_layout_def split fields_bytes_simps(3) [of ?a] fields_bytes_simps(3) [of _ ?b]
    by simp
  have w: "length (fields_bytes ?a) = paths_off bloom seeds cs (length se)"
    by (simp add: off_defs HEADER_SIZE_def ac_simps)
  have "epath_offset (se ! i) < length paths"
    using p by (metis drop_eq_Nil append_is_Nil_conv list.distinct(1) not_le)
  then have "drop (paths_off bloom seeds cs (length se) + epath_offset (se ! i)) (nuitka_embed_map img)
      = path_bytes (vpath (se ! i)) @ 0 # (rest @ fields_bytes ?b)"
    unfolding m w [symmetric] using p by simp
  moreover have "se \<noteq> []" using i by auto
  ultimately show ?thesis
    using cstr_at_path nn embed_ptrs_layout [OF l] emap_layout [OF l i]
    by (simp add: mp_path_of_def emap_rec_def)
qed

lemma mtime_layout:
  assumes l: "blob_layout img se seeds cs bloom bits paths" and i: "i < length se"
    and f: "fits64 (mtime_ns (se ! i))"
  shows "mp_mtime_ns img i = mtime_ns (se ! i)"
proof -
  let ?a = "map (Pair 4) (header_fields (length se) seeds cs bloom bits paths) @ [(8, 0)]
      @ map (Pair 8) bloom @ map (Pair 4) seeds @ map (Pair 4) cs @ concat (map emap_fields se)
      @ map (\<lambda>b. (Suc 0, unat b)) paths @ replicate (mtimes_off bloom seeds cs (length se) paths
                  - (paths_off bloom seeds cs (length se) + length paths)) (Suc 0, 0)"
  have "paths_off bloom seeds cs (length se) + length paths \<le> mtimes_off bloom seeds cs (length se) paths"
    by (simp add: mtimes_off_def)
  then have w: "fwidth ?a = mtimes_off bloom seeds cs (length se) paths"
    by (simp add: off_defs HEADER_SIZE_def ac_simps)
  have "u64_at (nuitka_embed_map img) (fwidth ?a + 8 * i)
      = map (\<lambda>e. nat (mtime_ns e mod 2 ^ 64)) se ! i"
    using blob_array [OF l, of ?a 8 "map (\<lambda>e. nat (mtime_ns e mod 2 ^ 64)) se" "[]" i] i
    unfolding blob_fields_eq mtime_fields_def by simp
  moreover have "se \<noteq> []" using i by auto
  moreover have "wrap64 (mtime_ns (se ! i) mod 2 ^ 64) = mtime_ns (se ! i)"
    using wrap64_id [OF f] by (simp add: wrap64_def mod_simps)
  ultimately show ?thesis
    using i embed_ptrs_layout [OF l] unfolding w mp_mtime_ns_def
    by (simp add: int64_at_def)
qed

subsection \<open>What a successful build has produced\<close>

lemma verify_distinct:
  "verify_no_hash_collisions hs es = None \<Longrightarrow>
   distinct (map ehash es) \<and> set hs \<inter> set (map ehash es) = {}"
proof (induction es arbitrary: hs)
  case Nil
  then show ?case by simp
next
  case (Cons e es)
  from Cons.prems have "ehash e \<notin> set hs" "verify_no_hash_collisions (ehash e # hs) es = None"
    by (auto split: if_splits)
  with Cons.IH [of "ehash e # hs"] show ?case by auto
qed

text \<open>The passes after \<open>lay_data\<close> also keep where an entry's frame is.\<close>

definition dcore :: "entry \<Rightarrow> (cstring \<times> nat \<times> nat \<times> u8 list \<times> int \<times> cstring) \<times> nat \<times> nat" where
  "dcore e = (core e, edata_pos e, edata_size e)"

lemma lay_children_dcore [simp]: "map dcore (fst (lay_children se p es)) = map dcore es"
  by (induction se p es rule: lay_children.induct)
    (auto simp: Let_def dcore_def core_def split: prod.split)

lemma lay_paths_dcore [simp]: "map dcore (fst (lay_paths p es)) = map dcore es"
  by (induction p es rule: lay_paths.induct) (auto simp: Let_def dcore_def core_def split: prod.split)

lemma dcore_core: "map dcore xs = map dcore ys \<Longrightarrow> map core xs = map core ys"
proof -
  have "map core zs = map fst (map dcore zs)" for zs by (simp add: dcore_def o_def)
  then show "map dcore xs = map dcore ys \<Longrightarrow> map core xs = map core ys" by metis
qed

lemma dcore_nth: "map dcore xs = map dcore ys \<Longrightarrow> i < length ys \<Longrightarrow> dcore (xs ! i) = dcore (ys ! i)"
  by (metis length_map nth_map)

definition frame_in :: "(u8 list \<Rightarrow> u8 list) \<Rightarrow> u8 list \<Rightarrow> nat \<Rightarrow> entry \<Rightarrow> bool" where
  "frame_in compress data p e \<longleftrightarrow>
     (if etype e = 1 \<and> content e \<noteq> []
      then edata_size e = length (compress (content e)) \<and>
           p \<le> edata_pos e \<and> take (edata_size e) (drop (edata_pos e - p) data) = compress (content e)
      else edata_size e = 0)"

lemma frame_in_dcore: "dcore e = dcore f \<Longrightarrow> frame_in compress data p e = frame_in compress data p f"
  by (simp add: frame_in_def dcore_def core_def)

lemma lay_data_frames:
  "lay_data compress p es = (es', d) \<Longrightarrow> \<forall>e \<in> set es'. frame_in compress d p e"
proof (induction es arbitrary: p es' d)
  case Nil
  then show ?case by simp
next
  case (Cons e es)
  define frame where "frame = (if etype e = 1 \<and> content e \<noteq> [] then compress (content e) else [])"
  obtain fs ds where rest: "lay_data compress (p + length frame) es = (fs, ds)" by fastforce
  with Cons.prems obtain e' where d: "d = frame @ ds" and es': "es' = e' # fs"
    and e': "frame_in compress (frame @ ds) p e'"
    by (auto simp: Let_def frame_def frame_in_def split: if_splits)
  have "frame_in compress d p f" if "frame_in compress ds (p + length frame) f" for f
    using that by (auto simp: frame_in_def d drop_past simp del: drop_append split: if_splits)
  with Cons.IH [OF rest] d es' e' show ?case by auto
qed

lemma core_map: "map core xs = map core ys \<Longrightarrow> map ehash xs = map ehash ys"
proof -
  have "map ehash zs = map (fst \<circ> snd) (map core zs)" for zs :: "entry list"
    by (simp add: core_def o_def)
  then show "map core xs = map core ys \<Longrightarrow> map ehash xs = map ehash ys" by metis
qed

lemma kids_of_core:
  assumes "map core xs = map core ys" and "core e = core f"
  shows "kids_of xs e = kids_of ys f"
proof -
  have "parent_vpath (xs ! k) = parent_vpath (ys ! k)" if "k < length ys" for k
    using core_nth [OF assms(1) that] core_eqD by blast
  moreover have "vpath e = vpath f" using assms(2) core_eqD by blast
  ultimately show ?thesis
    unfolding kids_of_def core_length [OF assms(1)] by (intro filter_cong) auto
qed

definition built :: "image \<Rightarrow> walk_dir list \<Rightarrow> (u8 list \<Rightarrow> u8 list) \<Rightarrow> bool" where
  "built img ws compress \<longleftrightarrow>
     build_blob compress ws = Inr (nuitka_embed_map img, nuitka_embed_data img)"

text \<open>The tables behind a built image, and how they describe the walk's entries \<open>es\<close>.\<close>

definition describes :: "(u8 list \<Rightarrow> u8 list) \<Rightarrow> image \<Rightarrow> entry list \<Rightarrow> entry list \<Rightarrow> nat list \<Rightarrow> nat list \<Rightarrow> nat list \<Rightarrow> bool" where
  "describes compress img es se seeds slots cs \<longleftrightarrow>
     length se = length es \<and> distinct (map ehash es) \<and>
     build_chd (map ehash es) = Inr (seeds, slots) \<and>
     (\<forall>i < length es. core (se ! (slots ! i)) = core (es ! i)) \<and>
     (\<exists>bloom bits paths.
        blob_layout img se seeds cs bloom bits paths \<and> build_bloom (map ehash se) = (bloom, bits) \<and>
        (\<forall>k < length se. \<exists>rest.
           drop (epath_offset (se ! k)) paths = path_bytes (vpath (se ! k)) @ 0 # rest)) \<and>
     (\<forall>k < length se. etype (se ! k) = 0 \<longrightarrow>
        take (echildren_count (se ! k)) (drop (echildren_start (se ! k)) cs) = kids_of se (se ! k) \<and>
        echildren_count (se ! k) = length (kids_of se (se ! k))) \<and>
     (\<forall>k < length se. fits64 (mtime_ns (se ! k))) \<and>
     (\<forall>k < length se. frame_in compress (nuitka_embed_data img) 0 (se ! k))"

lemma lay_paths_children:
  "i < length es \<Longrightarrow> echildren_start (fst (lay_paths off es) ! i) = echildren_start (es ! i)
     \<and> echildren_count (fst (lay_paths off es) ! i) = echildren_count (es ! i)"
  by (induction off es arbitrary: i rule: lay_paths.induct)
    (auto simp: Let_def less_Suc_eq_0_disj split: prod.split)

lemma built_describes:
  assumes "built img ws compress"
  obtains es se seeds slots cs where
    "collect_entries ws = Inr es" "es \<noteq> [] \<Longrightarrow> describes compress img es se seeds slots cs"
    "length se = length es" "\<exists>bloom bits paths. blob_layout img se seeds cs bloom bits paths"
proof -
  let ?m = "nuitka_embed_map img"
  from assms obtain es0 where es0: "collect_entries ws = Inr es0"
    and nocol: "verify_no_hash_collisions [] es0 = None"
    by (auto simp: built_def build_blob_def split: sum.splits option.splits)
  obtain es data where es: "lay_data compress 0 es0 = (es, data)" by fastforce
  have core: "map core es = map core es0" using lay_data_core [of compress 0 es0] es by simp
  note hs = core_map [OF core]
  from assms obtain seeds slots where chd: "build_chd (map ehash es0) = Inr (seeds, slots)"
    by (auto simp: built_def build_blob_def es0 nocol es hs split: sum.splits)
  obtain se1 cs where ch: "lay_children (slot_entries es slots) 0 (slot_entries es slots) = (se1, cs)"
    by fastforce
  obtain se paths where pa: "lay_paths 0 se1 = (se, paths)" by fastforce
  obtain bloom bits where bl: "build_bloom (map ehash se) = (bloom, bits)" by fastforce
  from assms have fit: "list_all (\<lambda>e. fits64 (mtime_ns e)) se"
    and pk: "pack_all (blob_fields se seeds cs bloom bits paths) = Inr ?m"
    by (auto simp: built_def build_blob_def es0 nocol es hs chd ch pa bl split: sum.splits if_splits)
  have data: "nuitka_embed_data img = data"
    using assms fit pk by (auto simp: built_def build_blob_def es0 nocol es hs chd ch pa bl)
  have "describes compress img es0 se seeds slots cs" if ne: "es0 \<noteq> []"
  proof -
    have dcore: "map dcore se = map dcore (slot_entries es slots)"
      using lay_children_dcore [of "slot_entries es slots" 0 "slot_entries es slots"]
        lay_paths_dcore [of 0 se1] ch pa by simp
    have core1: "map core se1 = map core (slot_entries es slots)"
      using lay_children_core [of "slot_entries es slots" 0 "slot_entries es slots"] ch by simp
    have core2: "map core se = map core se1" using lay_paths_core [of 0 se1] pa by simp
    have len: "length se = length es0" "length se1 = length es0" "length es = length es0"
      using core_length [OF core] core_length [OF core1] core_length [OF core2] by auto
    from build_chd_perfect [OF chd] ne have slots: "length slots = length es"
      and bij: "bij_betw ((!) slots) {..<length es} {..<length es}" by (auto simp: len)
    have nth: "core (se ! (slots ! i)) = core (es0 ! i)" if i: "i < length es0" for i
    proof -
      have "slots ! i < length es" using bij i len by (auto simp: bij_betw_def)
      then show ?thesis
        using core_nth [OF core2, of "slots ! i"] core_nth [OF core1, of "slots ! i"]
          slot_entries_nth [OF slots bij, of i] core_nth [OF core i] i len by simp
    qed
    have kids: "take (echildren_count (se ! k)) (drop (echildren_start (se ! k)) cs) = kids_of se (se ! k)
        \<and> echildren_count (se ! k) = length (kids_of se (se ! k))"
      if k: "k < length se" "etype (se ! k) = 0" for k
    proof -
      have ck: "core (se ! k) = core (slot_entries es slots ! k)"
        using core_nth [OF core2, of k] core_nth [OF core1, of k] k len by simp
      have "echildren_start (se ! k) = echildren_start (se1 ! k)"
        "echildren_count (se ! k) = echildren_count (se1 ! k)"
        using lay_paths_children [of k se1 0] pa k len by auto
      then show ?thesis
        using lay_children_nth [OF _ _ ch, of k] k len ck core_eqD [OF ck]
          kids_of_core [OF core2 [THEN trans, OF core1] ck] by auto
    qed
    have "drop (epath_offset (se ! k)) paths = path_bytes (vpath (se1 ! k)) @ 0 # rest \<Longrightarrow>
        drop (epath_offset (se ! k)) paths = path_bytes (vpath (se ! k)) @ 0 # rest"
      if "k < length se" for k rest
      using core_eqD [OF core_nth [OF core2, of k]] that len by simp
    then have "\<exists>rest. drop (epath_offset (se ! k)) paths = path_bytes (vpath (se ! k)) @ 0 # rest"
      if "k < length se" for k
      using lay_paths_nth [OF _ pa, of k] that len by (metis diff_zero)
    moreover have "frame_in compress data 0 (se ! k)" if k: "k < length se" for k
    proof -
      from bij k len have "k \<in> (!) slots ` {..<length es}" by (simp add: bij_betw_def)
      then obtain i where i: "i < length es" "slots ! i = k" by auto
      then have "dcore (se ! k) = dcore (es ! i)"
        using dcore_nth [OF dcore, of k] slot_entries_nth [OF slots bij, of i] k len by simp
      with frame_in_dcore lay_data_frames [OF es] i(1) show ?thesis by (metis nth_mem)
    qed
    ultimately show ?thesis
      using kids nth len bl chd fit pk verify_distinct [OF nocol] data
      unfolding describes_def blob_layout_def pack_all_Inr list_all_length by blast
  qed
  moreover have "length se = length es0"
    using arg_cong [OF lay_paths_core [of 0 se1], of length]
      arg_cong [OF lay_children_core [of "slot_entries es slots" 0 "slot_entries es slots"], of length]
      core_length [OF core] ch pa by simp
  moreover have "blob_layout img se seeds cs bloom bits paths"
    using pk by (simp add: blob_layout_def pack_all_Inr)
  ultimately show thesis using es0 that by blast
qed


lemma collect_files_hash:
  "collect_files seen vdir fs = Inr (seen', es) \<Longrightarrow>
   \<forall>e \<in> set es. ehash e = fnv1a_64 (map mp_ascii_lower (vpath e)) \<and> (etype e = 0 \<or> etype e = 1)"
proof (induction fs arbitrary: seen es)
  case Nil
  then show ?case by simp
next
  case (Cons f fs)
  obtain fname c m where f: "f = (fname, c, m)" using prod_cases3 by blast
  define vfile where "vfile = vdir @ ''/'' @ fname"
  from Cons.prems obtain es1 where
    c: "collect_files (map mp_ascii_lower vfile # seen) vdir fs = Inr (seen', es1)"
      "es = mk_entry vfile 1 c m vdir # es1"
    unfolding f by (auto simp: Let_def vfile_def split: if_splits sum.splits)
  from Cons.IH [OF c(1)] show ?case unfolding c(2) by (auto simp: mk_entry_def)
qed

lemma collect_dirs_hash:
  "collect_dirs seen ws = Inr es \<Longrightarrow>
   \<forall>e \<in> set es. ehash e = fnv1a_64 (map mp_ascii_lower (vpath e)) \<and> (etype e = 0 \<or> etype e = 1)"
proof (induction seen ws arbitrary: es rule: collect_dirs.induct)
  case (1 seen)
  then show ?case by simp
next
  case (2 seen w ws)
  let ?v = "mkfspath (wd_rel w)"
  show ?case
  proof (cases "?v = ''/'' \<or> ?v = ''~''")
    case True
    with 2 show ?thesis by (auto simp: Let_def)
  next
    case False
    with 2(3) obtain seen' es1 es2 where
      c: "collect_files (map mp_ascii_lower ?v # seen) ?v (wd_files w) = Inr (seen', es1)"
        "collect_dirs seen' ws = Inr es2"
        "es = mk_entry ?v 0 [] (wd_mtime w) (mkfspath (Option.bind (wd_rel w) py_dirname)) # es1 @ es2"
        "map mp_ascii_lower ?v \<notin> set seen"
      by (auto simp: Let_def split: if_splits sum.splits)
    from 2(2) [OF refl False refl c(4) c(1) refl c(2)] collect_files_hash [OF c(1)]
    show ?thesis unfolding c(3) by (auto simp: mk_entry_def)
  qed
qed

lemma mp_hash_lower: "ehash e = fnv1a_64 (map mp_ascii_lower (vpath e)) \<Longrightarrow>
   word_of_nat (ehash e) = mp_hash64 (map mp_ascii_lower (vpath e))"
  by (simp add: fnv1a_64_eq)

subsection \<open>Lookup in a built image\<close>

lemma describes_slot:
  assumes "describes compress img es se seeds slots cs" and "es \<noteq> []" and "i < length es"
  shows "slots ! i < length se" "em_hash (emap_of img (slots ! i)) = word_of_nat (ehash (es ! i))"
    "slots ! i = chd_mix (ehash (es ! i)) (seeds ! (ehash (es ! i) mod length seeds)) mod length se"
    "0 < length seeds"
proof -
  from assms(1) have chd: "build_chd (map ehash es) = Inr (seeds, slots)" and len: "length se = length es"
    and core: "core (se ! (slots ! i)) = core (es ! i)"
    using assms(3) by (auto simp: describes_def)
  from build_chd_perfect [OF chd] assms(2) have
    perf: "length seeds = bucket_count (length es)"
      "slots ! i = chd_mix (ehash (es ! i)) (seeds ! (ehash (es ! i) mod length seeds)) mod length es"
      "bij_betw ((!) slots) {..<length es} {..<length es}"
    using assms(3) by auto
  show "0 < length seeds" using perf(1) bucket_count_pos by simp
  show lt: "slots ! i < length se" using perf(3) assms(3) len by (auto simp: bij_betw_def)
  show "slots ! i = chd_mix (ehash (es ! i)) (seeds ! (ehash (es ! i) mod length seeds)) mod length se"
    using perf(2) len by simp
  obtain bloom bits paths where "blob_layout img se seeds cs bloom bits paths"
    using assms(1) by (auto simp: describes_def)
  from emap_layout [OF this lt] core_eqD [OF core]
  show "em_hash (emap_of img (slots ! i)) = word_of_nat (ehash (es ! i))" by (simp add: emap_rec_def)
qed

lemma describes_bloom:
  assumes d: "describes compress img es se seeds slots cs" and "es \<noteq> []" and i: "i < length es"
    and h: "ehash (es ! i) = unat (h :: u64)"
  shows "mp_bloom_check (nuitka_embed_map img) (embed_ptrs_of img) h"
proof -
  from d obtain bloom bits paths where l: "blob_layout img se seeds cs bloom bits paths"
    and bl: "build_bloom (map ehash se) = (bloom, bits)" and len: "length se = length es"
    by (auto simp: describes_def)
  have ne: "se \<noteq> []" using assms(2) len by auto
  have "core (se ! (slots ! i)) = core (es ! i)" using d i by (simp add: describes_def)
  from core_eqD [OF this] have "ehash (se ! (slots ! i)) = ehash (es ! i)" by simp
  moreover have "ehash (se ! (slots ! i)) \<in> set (map ehash se)"
    using describes_slot(1) [OF assms(1-3)] by simp
  ultimately have "unat h \<in> set (map ehash se)" using h by simp
  from build_bloom_has [OF this _ bl]
  have has: "bloom_has bloom (bloom_bit h k bits)" if "k < BLOOM_NUM_HASHES" for k
    using that by (simp add: bloom_bit_for_eq)
  have "bit (u64_at (nuitka_embed_map img) (HEADER_SIZE + 8 * (bloom_bit h k bits div 64)))
      (bloom_bit h k bits mod 64)" if "k < BLOOM_NUM_HASHES" for k
    using has [OF that] bloom_word_layout [OF l] by (simp add: bloom_has_def)
  then show ?thesis
    using embed_ptrs_layout [OF l ne] read_header_layout [OF l]
    by (simp add: mp_bloom_check_def Let_def)
qed

lemma describes_find:
  assumes d: "describes compress img es se seeds slots cs" and ne: "es \<noteq> []" and i: "i < length es"
    and h: "ehash (es ! i) = unat (mp_hash64 path)"
  shows "mp_embed_find img path = Some (slots ! i)"
proof -
  from d obtain bloom bits paths where l: "blob_layout img se seeds cs bloom bits paths"
    and len: "length se = length es"
    by (auto simp: describes_def)
  have ne': "se \<noteq> []" using ne len by auto
  note slot = describes_slot [OF d ne i]
  have seed: "u32_at (nuitka_embed_map img) (seeds_off bloom + 4 * (unat (mp_hash64 path) mod length seeds))
      = seeds ! (unat (mp_hash64 path) mod length seeds)"
    using slot(4) by (intro seed_layout [OF l]) simp
  have "em_hash (entry_at (nuitka_embed_map img) (embed_ptrs_of img) (slots ! i)) = mp_hash64 path"
    using slot(2) h by (simp add: emap_of_def)
  with slot(3) seed describes_bloom [OF d ne i h] h show ?thesis
    using embed_ptrs_layout [OF l ne'] read_header_layout [OF l] ne'
    by (simp add: mp_embed_find_def Let_def chd_mix_eq embed_init_layout [OF l ne'] embed_ptrs_of_def)
qed

lemma find_hash: "mp_embed_find img path = Some slot \<Longrightarrow>
   em_hash (emap_of img slot) = mp_hash64 path \<and> slot < num_entries (mp_hdr (embed_ptrs_of img))"
  by (auto simp: mp_embed_find_def Let_def emap_of_def embed_ptrs_of_def split: option.splits if_splits)

text \<open>The list of a directory's children, as \<^verbatim>\<open>readdir\<close> walks it.\<close>

definition dir_children :: "image \<Rightarrow> nat \<Rightarrow> nat list" where
  "dir_children img d = map (mp_embed_child_at img d) [0..<children_count (emap_of img d)]"

lemma describes_entry:
  assumes d: "describes compress img es se seeds slots cs" and ne: "es \<noteq> []" and i: "i < length es"
  shows "em_type (emap_of img (slots ! i)) = etype (es ! i)"
    "mp_mtime_ns img (slots ! i) = mtime_ns (es ! i)"
    "CHR 0x00 \<notin> set (vpath (es ! i)) \<Longrightarrow> mp_path_of img (slots ! i) = vpath (es ! i)"
    "frame_of img (slots ! i)
       = (if etype (es ! i) = 1 \<and> content (es ! i) \<noteq> [] then compress (content (es ! i)) else [])"
    "data_size (emap_of img (slots ! i)) = length (frame_of img (slots ! i))"
proof -
  from d obtain bloom bits paths where l: "blob_layout img se seeds cs bloom bits paths"
    and core: "core (se ! (slots ! i)) = core (es ! i)"
    and p: "\<And>k. k < length se \<Longrightarrow> \<exists>rest. drop (epath_offset (se ! k)) paths = path_bytes (vpath (se ! k)) @ 0 # rest"
    and fits: "\<And>k. k < length se \<Longrightarrow> fits64 (mtime_ns (se ! k))"
    and frames: "\<And>k. k < length se \<Longrightarrow> frame_in compress (nuitka_embed_data img) 0 (se ! k)"
    using i by (auto simp: describes_def)
  note lt = describes_slot(1) [OF d ne i] and eq = core_eqD [OF core]
  show "em_type (emap_of img (slots ! i)) = etype (es ! i)"
    using emap_layout [OF l lt] eq by (simp add: emap_rec_def)
  show "mp_mtime_ns img (slots ! i) = mtime_ns (es ! i)"
    using mtime_layout [OF l lt fits [OF lt]] eq by simp
  show "mp_path_of img (slots ! i) = vpath (es ! i)" if "CHR 0x00 \<notin> set (vpath (es ! i))"
    using p [OF lt] path_layout [OF l lt] eq that by auto
  let ?f = "if etype (es ! i) = 1 \<and> content (es ! i) \<noteq> [] then compress (content (es ! i)) else []"
  show f: "frame_of img (slots ! i) = ?f"
    using frames [OF lt] emap_layout [OF l lt] eq
    by (auto simp: frame_in_def frame_of_def emap_rec_def split: if_splits)
  have "data_size (emap_of img (slots ! i)) = length ?f"
    using frames [OF lt] emap_layout [OF l lt] eq
    by (auto simp: frame_in_def emap_rec_def split: if_splits)
  with f show "data_size (emap_of img (slots ! i)) = length (frame_of img (slots ! i))" by simp
qed

lemma find_every_entry_slot:
  assumes "built img ws compress" and es: "collect_entries ws = Inr es" and e: "e \<in> set es"
    and p: "map mp_ascii_lower p = map mp_ascii_lower (vpath e)"
  obtains se seeds slots cs i where "describes compress img es se seeds slots cs" "i < length es"
    "e = es ! i" "find_embedded_file img p = Some (slots ! i)"
proof -
  from e have ne: "es \<noteq> []" by auto
  with built_describes [OF assms(1)] es obtain se seeds slots cs
    where d: "describes compress img es se seeds slots cs" by (metis sum.inject(2))
  from e obtain i where i: "i < length es" "e = es ! i" by (auto simp: in_set_conv_nth)
  have "ehash e = fnv1a_64 (map mp_ascii_lower p)"
    using collect_dirs_hash es e p by (auto simp: collect_entries_def)
  then have "find_embedded_file img p = Some (slots ! i)"
    using describes_find [OF d ne i(1)] i(2) by (simp add: find_embedded_file_def fnv1a_64_eq)
  with d i that show thesis by blast
qed

lemma find_every_entry_core:
  assumes "build_blob compress ws = Inr (nuitka_embed_map img, nuitka_embed_data img)"
    and "collect_entries ws = Inr es" and "e \<in> set es" and "CHR 0x00 \<notin> set (vpath e)"
    and "map mp_ascii_lower p = map mp_ascii_lower (vpath e)"
  shows "\<exists>slot < length es. find_embedded_file img p = Some slot \<and> mp_path_of img slot = vpath e
     \<and> em_type (emap_of img slot) = etype e \<and> mp_mtime_ns img slot = mtime_ns e"
proof -
  have "built img ws compress" using assms(1) by (simp add: built_def)
  from find_every_entry_slot [OF this assms(2,3,5)] obtain se seeds slots cs i where
    d: "describes compress img es se seeds slots cs" "i < length es" "e = es ! i"
    "find_embedded_file img p = Some (slots ! i)" .
  moreover from d(2) have ne: "es \<noteq> []" by auto
  moreover have "length se = length es" using d(1) by (simp add: describes_def)
  ultimately show ?thesis
    using describes_entry [OF d(1) ne d(2)] describes_slot(1) [OF d(1) ne d(2)] assms(4) by auto
qed

text \<open>
  C2. Every file and directory the build script collected is found at run time under any ASCII
  casing of its path, and the entry found carries its case-preserved path, its type and its
  modification time.
\<close>

theorem find_every_entry:
  assumes "build_blob compress ws = Inr (nuitka_embed_map img, nuitka_embed_data img)"
    and "collect_entries ws = Inr es" and "e \<in> set es" and "CHR 0x00 \<notin> set (vpath e)"
    and "map mp_ascii_lower p = map mp_ascii_lower (vpath e)"
  shows "\<exists>slot < length es. find_embedded_file img p = Some slot \<and> mp_path_of img slot = vpath e
     \<and> em_type (emap_of img slot) = etype e \<and> mp_mtime_ns img slot = mtime_ns e"
  using assms by (rule find_every_entry_core)

text \<open>
  C26. A lookup answers only for collected paths: a hit is an entry whose lower-cased path has the
  searched path's 64-bit hash, so a path whose hash no collected path has is a miss.
\<close>

theorem find_only_entries:
  assumes "build_blob compress ws = Inr (nuitka_embed_map img, nuitka_embed_data img)"
    and "collect_entries ws = Inr es" and "find_embedded_file img p = Some slot"
  shows "\<exists>e \<in> set es. mp_hash64 (map mp_ascii_lower (vpath e)) = mp_hash64 (map mp_ascii_lower p)
     \<and> find_embedded_file img (vpath e) = Some slot"
proof -
  have b: "built img ws compress" using assms(1) by (simp add: built_def)
  with built_describes assms(2) obtain se seeds slots cs where
    d: "es \<noteq> [] \<Longrightarrow> describes compress img es se seeds slots cs"
    and len: "length se = length es" and "\<exists>bloom bits paths. blob_layout img se seeds cs bloom bits paths"
    by (metis sum.inject(2))
  then obtain bloom bits paths where l: "blob_layout img se seeds cs bloom bits paths" by blast
  let ?h = "mp_hash64 (map mp_ascii_lower p)"
  have ne: "es \<noteq> []"
    using assms(3) len read_header_layout [OF l] layout_length [OF l]
    by (auto simp: find_embedded_file_def mp_embed_find_def mp_embed_init_def Let_def split: if_splits)
  then have ne': "se \<noteq> []" using len by auto
  from find_hash assms(3) have h: "em_hash (emap_of img slot) = ?h"
    and "slot < num_entries (mp_hdr (embed_ptrs_of img))" by (auto simp: find_embedded_file_def)
  then have lt: "slot < length es" using embed_ptrs_layout [OF l ne'] read_header_layout [OF l] len by simp
  from build_chd_perfect [of "map ehash es" seeds slots] d [OF ne] ne
  have "slot \<in> (!) slots ` {..<length es}" using lt by (auto simp: describes_def bij_betw_def)
  then obtain i where i: "i < length es" "slot = slots ! i" by auto
  have hash: "ehash (es ! i) = fnv1a_64 (map mp_ascii_lower (vpath (es ! i)))"
    using collect_dirs_hash assms(2) i(1) by (simp add: collect_entries_def)
  with describes_slot(2) [OF d [OF ne] ne i(1)] h i(2)
  have "mp_hash64 (map mp_ascii_lower (vpath (es ! i))) = ?h" by (simp add: fnv1a_64_eq)
  moreover have "find_embedded_file img (vpath (es ! i)) = Some slot"
    using describes_find [OF d [OF ne] ne i(1)] hash i(2) by (simp add: find_embedded_file_def fnv1a_64_eq)
  ultimately show ?thesis using i(1) by (intro bexI [of _ "es ! i"]) auto
qed

lemma describes_children:
  assumes d: "describes compress img es se seeds slots cs" and ne: "es \<noteq> []"
    and k: "k < length se" "etype (se ! k) = 0"
  shows "dir_children img k = kids_of se (se ! k)"
proof -
  from d obtain bloom bits paths where l: "blob_layout img se seeds cs bloom bits paths"
    and kids: "take (echildren_count (se ! k)) (drop (echildren_start (se ! k)) cs) = kids_of se (se ! k)"
      "echildren_count (se ! k) = length (kids_of se (se ! k))"
    using k by (auto simp: describes_def)
  have ne': "se \<noteq> []" using k by auto
  have "length (take (echildren_count (se ! k)) (drop (echildren_start (se ! k)) cs)) = echildren_count (se ! k)"
    using arg_cong [OF kids(1), of length] kids(2) by (simp only:)
  then have fits: "echildren_count (se ! k) \<le> length cs - echildren_start (se ! k)"
    by (metis length_drop length_take min.absorb_iff2)
  have "mp_embed_child_at img k j = cs ! (echildren_start (se ! k) + j)"
    if "j < echildren_count (se ! k)" for j
    using child_layout [OF l, of "echildren_start (se ! k) + j"] that fits
      embed_ptrs_layout [OF l ne'] emap_layout [OF l k(1)]
    by (simp add: mp_embed_child_at_def emap_rec_def)
  then have "dir_children img k = map (\<lambda>j. cs ! (echildren_start (se ! k) + j)) [0..<echildren_count (se ! k)]"
    using emap_layout [OF l k(1)] by (simp add: dir_children_def emap_rec_def)
  also have "\<dots> = take (echildren_count (se ! k)) (drop (echildren_start (se ! k)) cs)"
    using fits by (intro nth_equalityI) auto
  finally show ?thesis using kids(1) by simp
qed

lemma describes_path:
  assumes d: "describes compress img es se seeds slots cs" and k: "k < length se"
    and nn: "CHR 0x00 \<notin> set (vpath (se ! k))"
  shows "mp_path_of img k = vpath (se ! k)"
  using d path_layout k nn by (auto simp: describes_def)

lemma describes_onto:
  assumes d: "describes compress img es se seeds slots cs" and ne: "es \<noteq> []" and k: "k < length se"
  obtains i where "i < length es" "slots ! i = k" "core (se ! k) = core (es ! i)"
proof -
  from d have len: "length se = length es" by (simp add: describes_def)
  from build_chd_perfect [of "map ehash es" seeds slots] d ne
  have "k \<in> (!) slots ` {..<length es}" using k len by (auto simp: describes_def bij_betw_def)
  then obtain i where "i < length es" "slots ! i = k" by auto
  with d that show thesis by (auto simp: describes_def)
qed

lemma children_listed_core:
  assumes "build_blob compress ws = Inr (nuitka_embed_map img, nuitka_embed_data img)"
    and "collect_entries ws = Inr es" and "\<forall>e \<in> set es. CHR 0x00 \<notin> set (vpath e)"
    and "d \<in> set es" and "etype d = 0" and "find_embedded_file img (vpath d) = Some slot"
  shows "sorted (dir_children img slot) \<and> distinct (dir_children img slot)
     \<and> mp_path_of img ` set (dir_children img slot)
         = vpath ` {e \<in> set es. parent_vpath e = vpath d}"
proof -
  have b: "built img ws compress" using assms(1) by (simp add: built_def)
  from find_every_entry_slot [OF b assms(2,4) refl] obtain se seeds slots cs i where
    d: "describes compress img es se seeds slots cs" and i: "i < length es" "d = es ! i"
      and "find_embedded_file img (vpath d) = Some (slots ! i)" .
  with assms(6) have slot: "slot = slots ! i" by simp
  have ne: "es \<noteq> []" using i by auto
  note lt = describes_slot(1) [OF d ne i(1)]
  have len: "length se = length es" and "core (se ! slot) = core d"
    using d i slot by (auto simp: describes_def)
  note eq = core_eqD [OF this(2)]
  have ch: "dir_children img slot = kids_of se d"
    using describes_children [OF d ne, of slot] lt slot eq assms(5) by (simp add: kids_of_def)
  have "\<exists>i < length es. vpath (se ! k) = vpath (es ! i) \<and> parent_vpath (se ! k) = parent_vpath (es ! i)"
    if "k < length se" for k
    using describes_onto [OF d ne that] core_eqD by metis
  moreover from this have path: "mp_path_of img k = vpath (se ! k)" if "k < length se" for k
    using describes_path [OF d that] assms(3) that by (metis nth_mem)
  moreover have "\<exists>k < length se. vpath (se ! k) = vpath (es ! j) \<and> parent_vpath (se ! k) = parent_vpath (es ! j)"
    if "j < length es" for j
    using describes_slot(1) [OF d ne that] d core_eqD that unfolding describes_def by metis
  ultimately have "mp_path_of img ` set (kids_of se d) = vpath ` {e \<in> set es. parent_vpath e = vpath d}"
    by (fastforce simp: kids_of_def in_set_conv_nth image_iff)
  then show ?thesis unfolding ch by (simp add: kids_of_def sorted_wrt_filter)
qed

text \<open>
  C27. The child table: listing a directory through it gives, in slot order and without repetition,
  exactly the collected entries whose parent it is.
\<close>

theorem children_listed:
  assumes "build_blob compress ws = Inr (nuitka_embed_map img, nuitka_embed_data img)"
    and "collect_entries ws = Inr es" and "\<forall>e \<in> set es. CHR 0x00 \<notin> set (vpath e)"
    and "d \<in> set es" and "etype d = 0" and "find_embedded_file img (vpath d) = Some slot"
  shows "sorted (dir_children img slot) \<and> distinct (dir_children img slot)
     \<and> mp_path_of img ` set (dir_children img slot)
         = vpath ` {e \<in> set es. parent_vpath e = vpath d}"
  using assms by (rule children_listed_core)

end
