(* ===== verification/Blob_Example.thy ===== *)
theory Blob_Example
  imports Blob_Correct
begin

text \<open>
  A concrete blob: the directory \<open>~/lib\<close> with the one-byte file \<open>a\<close>, built by the script's model with
  the identity as compressor. Each stage of the build is evaluated in the kernel, so the bytes of
  \<open>example_map\<close> are what Lib/mkembeddata.py writes. The theorems about images are applied to it.
\<close>

definition example_walk :: "walk_dir list" where
  "example_walk = [\<lparr> wd_rel = Some ''__relative__/lib'', wd_mtime = 5, wd_files = [(''a'', [7], 3)] \<rparr>]"

definition example_map :: "u8 list" where
  "example_map =
     [2, 0, 0, 0, 2, 0, 0, 0, 1, 0, 0, 0, 7, 0, 0, 0, 64, 0, 0, 0, 64, 0, 0, 0, 72, 0, 0, 0,
     80, 0, 0, 0, 84, 0, 0, 0, 148, 0, 0, 0, 14, 0, 0, 0, 1, 0, 0, 0, 184, 0, 0, 0, 168, 0,
     0, 0, 0, 0, 0, 0, 0, 0, 0, 0, 72, 36, 2, 129, 72, 36, 2, 129, 0, 0, 0, 0, 1, 0, 0, 0,
     1, 0, 0, 0, 185, 93, 127, 126, 48, 98, 149, 123, 0, 0, 0, 0, 0, 0, 0, 0, 0, 0, 0, 0, 0,
     0, 0, 0, 1, 0, 5, 0, 0, 0, 0, 0, 153, 93, 141, 237, 237, 27, 106, 221, 0, 0, 0, 0, 1,
     0, 0, 0, 0, 0, 0, 0, 6, 0, 0, 0, 0, 0, 7, 0, 1, 0, 0, 0, 126, 47, 108, 105, 98, 0, 126,
     47, 108, 105, 98, 47, 97, 0, 0, 0, 0, 0, 0, 0, 5, 0, 0, 0, 0, 0, 0, 0, 3, 0, 0, 0, 0,
     0, 0, 0]"

definition example_image :: image where
  "example_image = \<lparr> nuitka_embed_map = example_map, nuitka_embed_data = [7],
     zstd_frame_size = (\<lambda>f. Zstd_Size (length f)),
     zstd_decompress = (\<lambda>cap f. if length f \<le> cap then Some f else None) \<rparr>"

definition ex_dir :: "nat \<Rightarrow> nat \<Rightarrow> entry" where
  "ex_dir start n = \<lparr> vpath = ''~/lib'', ehash = 8905131798615252409, etype = 0, content = [],
     mtime_ns = 5, parent_vpath = ''~'', edata_pos = 0, edata_size = 0, epath_offset = 0,
     echildren_start = start, echildren_count = n \<rparr>"

definition ex_file :: "nat \<Rightarrow> nat \<Rightarrow> entry" where
  "ex_file off n = \<lparr> vpath = ''~/lib/a'', ehash = 15954595338620067225, etype = 1, content = [7],
     mtime_ns = 3, parent_vpath = ''~/lib'', edata_pos = 0, edata_size = n, epath_offset = off,
     echildren_start = 0, echildren_count = 0 \<rparr>"

abbreviation ex_hashes :: "nat list" where
  "ex_hashes \<equiv> [8905131798615252409, 15954595338620067225]"

lemmas ex_defs = ex_dir_def ex_file_def

subsection \<open>Unfolding rules for evaluation\<close>

lemma upt_2: "[0..<2] = [0, 1]" "[0..<Suc (Suc 0)] = [0, 1]"
  by (simp_all add: upt_rec)

lemma upt_7: "[0..<7] = [0, 1, 2, 3, 4, 5, 6]"
  by (simp add: upt_rec)

lemma replicate_2: "replicate 2 x = [x, x]"
  by (simp add: numeral_2_eq_2)

lemma replicate_6: "replicate 6 x = [x, x, x, x, x, x]"
  by (simp add: numeral_eq_Suc)

lemma le_bytes_numeral:
  "le_bytes (numeral n) v = word_of_nat (v mod 256) # le_bytes (pred_numeral n) (v div 256)"
  by (simp only: numeral_eq_Suc le_bytes.simps)

lemma find_seed_hit:
  "seed < MAX_SEED \<Longrightarrow> try_seed hs n occ seed [] bucket = Some seen
    \<Longrightarrow> find_seed hs n occ bucket seed = Some (seed, seen)"
  by (subst find_seed.simps) simp

lemma bloom_add_map:
  "bloom_add n h ws = fold set_bloom_bit (map (\<lambda>i. bloom_bit_for h i n) [0..<7]) ws"
  by (simp add: bloom_add_def BLOOM_NUM_HASHES_def fold_map comp_def)

lemma build_blob_stages:
  assumes "collect_entries ws = Inr es0" "verify_no_hash_collisions [] es0 = None"
    "lay_data compress 0 es0 = (es, data)" "build_chd (map ehash es) = Inr (seeds, slots)"
    "slot_entries es slots = se" "lay_children se 0 se = (se1, child_slots)"
    "lay_paths 0 se1 = (se2, paths)" "build_bloom (map ehash se2) = (bloom, bits)"
    "list_all (\<lambda>e. fits64 (mtime_ns e)) se2"
    "pack_all (blob_fields se2 seeds child_slots bloom bits paths) = Inr m"
  shows "build_blob compress ws = Inr (m, data)"
  using assms by (simp add: build_blob_def Let_def)

subsection \<open>The stages\<close>

lemma ex_lower:
  "mp_ascii_lower CHR ''~'' = CHR ''~''" "mp_ascii_lower CHR ''/'' = CHR ''/''" "mp_ascii_lower CHR ''l'' = CHR ''l''"
  "mp_ascii_lower CHR ''i'' = CHR ''i''" "mp_ascii_lower CHR ''b'' = CHR ''b''"
  "mp_ascii_lower CHR ''a'' = CHR ''a''" "mp_ascii_lower CHR ''L'' = CHR ''l''"
  "mp_ascii_lower CHR ''I'' = CHR ''i''" "mp_ascii_lower CHR ''B'' = CHR ''b''"
  "mp_ascii_lower CHR ''A'' = CHR ''a''"
  by (simp_all add: mp_ascii_lower_def char_of_def bit_0)

lemma ex_hash: "fnv1a_64 ''~/lib'' = 8905131798615252409" "fnv1a_64 ''~/lib/a'' = 15954595338620067225"
  by (simp_all add: fnv1a_64_eq mp_hash64_def FNV_OFFSET_def FNV_PRIME_def)

lemma ex_entries: "collect_entries example_walk = Inr [ex_dir 0 0, ex_file 0 0]"
  by (simp add: collect_entries_def example_walk_def mkfspath_def py_dirname_def mk_entry_def
      ex_lower ex_hash Let_def ex_defs)

lemma ex_no_collision: "verify_no_hash_collisions [] [ex_dir 0 0, ex_file 0 0] = None"
  by (simp add: ex_defs)

lemma ex_lay_data:
  "lay_data (\<lambda>c. c) 0 [ex_dir 0 0, ex_file 0 0] = ([ex_dir 0 0, ex_file 0 1], [7])"
  by (simp add: Let_def ex_defs)

lemma ex_bucket: "bucket_count 2 = 2" "bucket_count (Suc (Suc 0)) = Suc (Suc 0)"
  by (simp_all add: bucket_count_def next_prime_def next_prime_loop.simps is_prime_def)

lemma ex_group: "group_buckets ex_hashes 2 = [[], [0, 1]]"
  by (simp add: group_buckets_def upt_2)

lemma ex_mix:
  "chd_mix 8905131798615252409 (Suc 0) mod 2 = 0" "chd_mix 15954595338620067225 (Suc 0) mod 2 = 1"
  by (simp_all add: chd_mix_def MASK64_def)

lemma ex_seed: "find_seed ex_hashes (Suc (Suc 0)) [False, False] [0, Suc 0] (Suc 0)
    = Some (Suc 0, [(0, 0), (Suc 0, Suc 0)])"
  by (intro find_seed_hit) (simp_all add: MAX_SEED_def ex_mix [unfolded numeral_2_eq_2])

lemma ex_chd: "build_chd (map ehash [ex_dir 0 0, ex_file 0 1]) = Inr ([0, 1], [0, 1])"
  by (simp add: build_chd_def ex_defs ex_bucket ex_group [unfolded numeral_2_eq_2] upt_2 Let_def replicate_2 ex_seed
      commit_bucket_def)

lemma ex_slot_entries:
  "slot_entries [ex_dir 0 0, ex_file 0 1] [0, 1] = [ex_dir 0 0, ex_file 0 1]"
  by (simp add: slot_entries_def enumerate_eq_zip upt_2 replicate_2)

lemma ex_lay_children:
  "lay_children [ex_dir 0 0, ex_file 0 1] 0 [ex_dir 0 0, ex_file 0 1] = ([ex_dir 0 1, ex_file 0 1], [1])"
  by (simp add: Let_def kids_of_def upt_2 ex_defs)

lemma ex_lay_paths: "lay_paths 0 [ex_dir 0 1, ex_file 0 1]
    = ([ex_dir 0 1, ex_file 6 1], path_bytes ''~/lib'' @ [0] @ path_bytes ''~/lib/a'' @ [0])"
  by (simp add: Let_def path_bytes_def ex_defs)

lemma ex_bits:
  "map (\<lambda>i. bloom_bit_for 15954595338620067225 i 64) [0..<7] = [13, 6, 63, 56, 49, 42, 35]"
  "map (\<lambda>i. bloom_bit_for 8905131798615252409 i 64) [0..<7] = [45, 38, 31, 24, 17, 10, 3]"
  by (simp_all add: upt_7 bloom_bit_for_def MASK64_def)

lemma ex_bloom: "build_bloom (map ehash [ex_dir 0 1, ex_file 6 1]) = ([9296032474666771528], 64)"
  by (simp add: build_bloom_def Let_def bloom_add_map ex_bits set_bloom_bit_def ex_defs)

lemma ex_fields: "blob_fields [ex_dir 0 1, ex_file 6 1] [0, 1] [1] [9296032474666771528] 64
     (path_bytes ''~/lib'' @ [0] @ path_bytes ''~/lib/a'' @ [0])
   = [(4, 2), (4, 2), (4, 1), (4, 7), (4, 64), (4, 64), (4, 72), (4, 80), (4, 84), (4, 148),
     (4, 14), (4, 1), (4, 184), (4, 168), (8, 0), (8, 9296032474666771528), (4, 0), (4, 1),
     (4, 1), (8, 8905131798615252409), (4, 0), (4, 0), (4, 0), (4, 0), (2, 1), (2, 5), (1,
     0), (1, 0), (2, 0), (8, 15954595338620067225), (4, 0), (4, 1), (4, 0), (4, 6), (2, 0),
     (2, 7), (1, 1), (1, 0), (2, 0), (1, 126), (1, 47), (1, 108), (1, 105), (1, 98), (1, 0),
     (1, 126), (1, 47), (1, 108), (1, 105), (1, 98), (1, 47), (1, 97), (1, 0), (1, 0), (1,
     0), (1, 0), (1, 0), (1, 0), (1, 0), (8, 5), (8, 3)]"
  by (simp add: blob_fields_def Let_def path_bytes_def emap_fields_def HEADER_SIZE_def EMAP_SIZE_def
      BLOOM_NUM_HASHES_def ex_defs replicate_6)

lemma ex_pack: "pack_all
     [(4, 2), (4, 2), (4, 1), (4, 7), (4, 64), (4, 64), (4, 72), (4, 80), (4, 84), (4, 148),
     (4, 14), (4, 1), (4, 184), (4, 168), (8, 0), (8, 9296032474666771528), (4, 0), (4, 1),
     (4, 1), (8, 8905131798615252409), (4, 0), (4, 0), (4, 0), (4, 0), (2, 1), (2, 5), (1,
     0), (1, 0), (2, 0), (8, 15954595338620067225), (4, 0), (4, 1), (4, 0), (4, 6), (2, 0),
     (2, 7), (1, 1), (1, 0), (2, 0), (1, 126), (1, 47), (1, 108), (1, 105), (1, 98), (1, 0),
     (1, 126), (1, 47), (1, 108), (1, 105), (1, 98), (1, 47), (1, 97), (1, 0), (1, 0), (1,
     0), (1, 0), (1, 0), (1, 0), (1, 0), (8, 5), (8, 3)]
   = Inr example_map"
  by (simp add: pack_all_def le_bytes_numeral example_map_def)

lemma ex_mtimes: "list_all (\<lambda>e. fits64 (mtime_ns e)) [ex_dir 0 1, ex_file 6 1]"
  by (simp add: fits64_def ex_defs)

lemma ex_blob: "build_blob (\<lambda>c. c) example_walk = Inr (example_map, [7])"
  by (rule build_blob_stages [OF ex_entries ex_no_collision ex_lay_data ex_chd ex_slot_entries
        ex_lay_children ex_lay_paths ex_bloom ex_mtimes ex_pack [folded ex_fields]])

lemma ex_built: "build_blob (\<lambda>c. c) example_walk
    = Inr (nuitka_embed_map example_image, nuitka_embed_data example_image)"
  by (simp add: ex_blob example_image_def)

subsection \<open>Reading the example\<close>

lemma ex_map_reads:
  "read_header example_map = \<lparr> num_entries = 2, num_buckets = 2, bloom_size_words = 1, bloom_num_hashes = 7,
     bloom_num_bits = 64, bloom_offset = 64, seeds_offset = 72, child_slots_offset = 80,
     entries_offset = 84, paths_offset = 148, paths_size = 14, num_child_slots = 1,
     map_total_size = 184, mtimes_offset = 168 \<rparr>"
  "u64_at example_map 64 = 9296032474666771528" "u32_at example_map 72 = 0" "u32_at example_map 76 = 1"
  "u32_at example_map 80 = 1"
  "read_emap example_map 84 = \<lparr> em_hash = 8905131798615252409, data_pos = 0, data_size = 0, children_start = 0,
     path_offset = 0, children_count = 1, path_len = 5, em_type = 0 \<rparr>"
  "read_emap example_map 116 = \<lparr> em_hash = 15954595338620067225, data_pos = 0, data_size = 1, children_start = 0,
     path_offset = 6, children_count = 0, path_len = 7, em_type = 1 \<rparr>"
  by (simp_all add: read_header_def read_emap_def uint_at_def bytes_at_def example_map_def)

lemma ex_ptrs: "mp_embed_init example_image = Some \<lparr> mp_hdr = read_header example_map, mp_bloom = 64,
     mp_seeds = 72, mp_child_slots = 80, mp_entries = 84, mp_paths = 148, mp_mtimes = Some 168 \<rparr>"
proof -
  have "length example_map = 184" by (simp add: example_map_def)
  then show ?thesis
    by (simp add: mp_embed_init_def example_image_def ex_map_reads(1) HEADER_SIZE_def)
qed

lemma ex_hash64: "mp_hash64 ''~/lib'' = 8905131798615252409" "mp_hash64 ''~/lib/a'' = 15954595338620067225"
  by (simp_all add: mp_hash64_def FNV_OFFSET_def FNV_PRIME_def)

lemma ex_range: "{0..<7} = {0, 1, 2, 3, 4, 5, 6 :: nat}"
  by auto

lemma ex_simple: "nuitka_embed_map example_image = example_map"
  "nuitka_embed_data example_image = [7]"
  by (simp_all add: example_image_def)

lemma ex_find:
  "find_embedded_file example_image ''~/lib'' = Some 0"
  "find_embedded_file example_image ''~/lib/a'' = Some 1"
  by (simp_all add: find_embedded_file_def mp_embed_find_def ex_ptrs ex_lower ex_hash64 Let_def
      mp_bloom_check_def bloom_bit_def upt_7 entry_at_def EMAP_SIZE_def mp_chd_mix_def
      ex_simple ex_map_reads GOLDEN_RATIO_def SPLITMIX1_def SPLITMIX2_def ex_range bit_0)

subsection \<open>The lookup theorems on the example\<close>

theorem find_every_entry_witness:
  "\<exists>slot < 2. find_embedded_file example_image ''~/LIB/A'' = Some slot
     \<and> mp_path_of example_image slot = ''~/lib/a'' \<and> em_type (emap_of example_image slot) = 1
     \<and> mp_mtime_ns example_image slot = 3"
  using find_every_entry [OF ex_built ex_entries, of "ex_file 0 0" "''~/LIB/A''"]
  by (simp add: ex_defs ex_lower numeral_2_eq_2)

theorem find_only_entries_witness:
  "\<exists>slot. find_embedded_file example_image ''~/lib'' = Some slot
     \<and> (\<exists>e \<in> {ex_dir 0 0, ex_file 0 0}. mp_hash64 (map mp_ascii_lower (vpath e)) = mp_hash64 ''~/lib''
          \<and> find_embedded_file example_image (vpath e) = Some slot)"
proof -
  obtain slot where s: "find_embedded_file example_image ''~/lib'' = Some slot" using ex_find by blast
  from find_only_entries [OF ex_built ex_entries s] s show ?thesis
    by (auto simp: ex_lower)
qed

theorem children_listed_witness:
  "\<exists>slot. find_embedded_file example_image ''~/lib'' = Some slot
     \<and> mp_path_of example_image ` set (dir_children example_image slot) = {''~/lib/a''}"
proof -
  obtain slot where s: "find_embedded_file example_image ''~/lib'' = Some slot" using ex_find by blast
  have "{e \<in> {ex_dir 0 0, ex_file 0 0}. parent_vpath e = ''~/lib''} = {ex_file 0 0}"
    by (auto simp: ex_defs)
  with children_listed [OF ex_built ex_entries, of "ex_dir 0 0" slot] s show ?thesis
    by (auto simp: ex_defs)
qed

end
