(* ===== verification/Vpath.thy ===== *)
theory Vpath
  imports Blob
begin

text \<open>
  Paths on POSIX (Embedded/mp_embed.c, \<^verbatim>\<open>mp_normalize_path\<close> to \<^verbatim>\<open>mp_find_virtual\<close>): how the path of an
  intercepted call becomes the search path of the blob. The file system queries the code makes
  (\<^verbatim>\<open>readlink\<close>, \<^verbatim>\<open>getauxval\<close>, \<^verbatim>\<open>stat\<close>) are fields of a \<open>path_env\<close>; the working directory is an argument,
  as it may differ at every call.
\<close>

text \<open>A \<^verbatim>\<open>const char *\<close> argument: \<open>None\<close> is NULL.\<close>

type_synonym cptr = "cstring option"

abbreviation SLASH :: char where "SLASH \<equiv> CHR ''/''"

subsection \<open>Normalisation\<close>

text \<open>
  \<open>strtok_r delim s\<close> is one call of the tokenizer: the token and the text left for the next call.
\<close>

definition strtok_r :: "char \<Rightarrow> cstring \<Rightarrow> (cstring \<times> cstring) option" where
  "strtok_r delim s =
     (let s = dropWhile (\<lambda>c. c = delim) s in
      if s = [] then None
      else Some (takeWhile (\<lambda>c. c \<noteq> delim) s, drop 1 (dropWhile (\<lambda>c. c \<noteq> delim) s)))"

lemma strtok_r_shorter: "strtok_r delim s = Some (tok, rest) \<Longrightarrow> length rest < length s"
proof -
  assume a: "strtok_r delim s = Some (tok, rest)"
  let ?s = "dropWhile (\<lambda>c. c = delim) s"
  from a have ne: "?s \<noteq> []" and r: "rest = drop 1 (dropWhile (\<lambda>c. c \<noteq> delim) ?s)"
    by (auto simp: strtok_r_def Let_def split: if_splits)
  have "length (dropWhile (\<lambda>c. c \<noteq> delim) ?s) \<le> length ?s" by (rule length_dropWhile_le)
  with r have "length rest \<le> length ?s - 1" by simp
  moreover have "0 < length ?s" using ne by blast
  moreover have "length ?s \<le> length s" by (rule length_dropWhile_le)
  ultimately show ?thesis by linarith
qed

text \<open>The array of path segments: \<open>depth\<close> is its length.\<close>

definition push_segment :: "cstring \<Rightarrow> cstring list \<Rightarrow> cstring list" where
  "push_segment token tokens =
     (if token = ''..'' then (if 0 < length tokens then butlast tokens else tokens)
      else if token \<noteq> ''.'' then tokens @ [token] else tokens)"

function normalize_segments :: "cstring list \<Rightarrow> cstring \<Rightarrow> cstring list" where
  "normalize_segments tokens path =
     (case strtok_r SLASH path of None \<Rightarrow> tokens
      | Some (token, rest) \<Rightarrow> normalize_segments (push_segment token tokens) rest)"
  by pat_completeness auto
termination
  by (relation "measure (\<lambda>(tokens, path). length path)") (auto dest: strtok_r_shorter)

declare normalize_segments.simps [simp del]

definition render_segments :: "cstring list \<Rightarrow> cstring" where
  "render_segments tokens = (if tokens = [] then ''/'' else concat (map (\<lambda>t. SLASH # t) tokens))"

definition mp_normalize_path :: "cstring \<Rightarrow> cstring" where
  "mp_normalize_path path = render_segments (normalize_segments [] path)"

text \<open>
  The result is written over \<open>absolute_path\<close>, a buffer of \<open>size\<close> bytes; when \<^verbatim>\<open>getcwd\<close> fails the
  buffer stays as it was.
\<close>

definition mp_get_absolute_path :: "cptr \<Rightarrow> cstring \<Rightarrow> cstring \<Rightarrow> nat \<Rightarrow> cstring" where
  "mp_get_absolute_path cwd relative_path absolute_path sz =
     (if take 1 relative_path = ''/'' then mp_normalize_path (take (sz - 1) relative_path)
      else case cwd of None \<Rightarrow> absolute_path
      | Some d \<Rightarrow> mp_normalize_path (take (sz - 1) (d @ ''/'' @ relative_path)))"

subsection \<open>The executable and its folder\<close>

record path_env =
  env_getcwd :: cptr
  env_readlink :: "cstring \<Rightarrow> cptr"
  env_execfn :: cptr
  env_stat_dev :: "cstring \<Rightarrow> nat option"

record exec_paths =
  mp_executable :: cstring
  mp_execfolder :: cstring
  mp_execfolder_alias :: cstring
  mp_exec_dev :: nat
  mp_exec_ok :: bool

definition no_exec_paths :: exec_paths where
  "no_exec_paths = \<lparr> mp_executable = [], mp_execfolder = [], mp_execfolder_alias = [],
     mp_exec_dev = 0, mp_exec_ok = False \<rparr>"

text \<open>The length of the prefix before the last slash, if any.\<close>

definition strrchr_slash :: "cstring \<Rightarrow> nat option" where
  "strrchr_slash path = (if SLASH \<in> set path
     then Some (length path - 1 - length (takeWhile (\<lambda>c. c \<noteq> SLASH) (rev path))) else None)"

definition mp_parent_dir :: "cstring \<Rightarrow> cstring" where
  "mp_parent_dir path =
     (case strrchr_slash path of None \<Rightarrow> path
      | Some i \<Rightarrow> if i = 0 then take 1 path else take i path)"

fun follow_links :: "(cstring \<Rightarrow> cptr) \<Rightarrow> nat \<Rightarrow> cstring \<Rightarrow> cstring" where
  "follow_links readlink 0 path = path"
| "follow_links readlink (Suc n) path =
     (if take 1 path \<noteq> ''/'' then path
      else case readlink path of None \<Rightarrow> path
      | Some target \<Rightarrow>
        let target = take (PATH_MAX - 1) target in
        if take 1 target = ''/'' then follow_links readlink n target
        else let dir = mp_parent_dir path
             in follow_links readlink n
                  (mp_normalize_path (dir @ take (PATH_MAX - length dir - 1) (SLASH # target))))"

definition mp_set_execfolder_alias :: "path_env \<Rightarrow> cstring \<Rightarrow> exec_paths \<Rightarrow> exec_paths" where
  "mp_set_execfolder_alias env launched xp =
     (let path = mp_get_absolute_path (env_getcwd env) launched [] PATH_MAX;
          path = mp_parent_dir (follow_links (env_readlink env) 40 path)
      in if take 1 path = ''/'' \<and> path \<noteq> mp_execfolder xp
         then xp\<lparr>mp_execfolder_alias := path\<rparr> else xp)"

definition mp_exec_init :: "path_env \<Rightarrow> exec_paths" where
  "mp_exec_init env =
     (case env_readlink env ''/proc/self/exe'' of None \<Rightarrow> no_exec_paths
      | Some target \<Rightarrow>
        let exe = take (PATH_MAX - 1) target;
            xp = no_exec_paths\<lparr>mp_executable := exe, mp_execfolder := mp_parent_dir exe\<rparr>;
            xp = (case env_execfn env of None \<Rightarrow> xp
                  | Some launched \<Rightarrow> mp_set_execfolder_alias env launched xp);
            xp = (case env_stat_dev env (mp_execfolder xp) of None \<Rightarrow> xp
                  | Some d \<Rightarrow> xp\<lparr>mp_exec_dev := d\<rparr>)
        in xp\<lparr>mp_exec_ok := True\<rparr>)"

subsection \<open>The search path\<close>

text \<open>\<open>None\<close> is MP_NOT_IN_FOLDER.\<close>

definition mp_folder_prefix_len :: "cstring \<Rightarrow> cstring \<Rightarrow> nat option" where
  "mp_folder_prefix_len path folder =
     (let n = length folder in
      if n = 0 \<or> take n path \<noteq> folder then None
      else if folder ! (n - 1) = SLASH then Some (n - 1)
      else if length path = n \<or> path ! n = SLASH then Some n
      else None)"

definition search_char :: "char \<Rightarrow> char" where
  "search_char c = (if c = CHR 0x5C then SLASH else mp_ascii_lower c)"

definition get_virtual_path :: "exec_paths \<Rightarrow> cstring \<Rightarrow> cstring" where
  "get_virtual_path xp absolute_path =
     (let prefix = mp_folder_prefix_len absolute_path (mp_execfolder xp);
          prefix = (if prefix = None \<and> mp_execfolder_alias xp \<noteq> []
                    then mp_folder_prefix_len absolute_path (mp_execfolder_alias xp) else prefix)
      in case prefix of
           Some n \<Rightarrow> CHR ''~'' # map search_char (take (PATH_MAX - 2) (drop n absolute_path))
         | None \<Rightarrow> map search_char (take (PATH_MAX - 1) absolute_path))"

definition mp_find_virtual :: "image \<Rightarrow> exec_paths \<Rightarrow> cptr \<Rightarrow> cptr \<Rightarrow> nat option" where
  "mp_find_virtual img xp cwd path =
     (case path of None \<Rightarrow> None
      | Some p \<Rightarrow>
        if \<not> mp_exec_ok xp then None
        else find_embedded_file img (get_virtual_path xp (mp_get_absolute_path cwd p [] PATH_MAX)))"

definition mp_resolve_virtual_path_for_test :: "exec_paths \<Rightarrow> cptr \<Rightarrow> cstring \<Rightarrow> nat \<Rightarrow> cptr" where
  "mp_resolve_virtual_path_for_test xp cwd input out_size =
     (let search_path = (if mp_exec_ok xp
                         then get_virtual_path xp (mp_get_absolute_path cwd input [] PATH_MAX) else [])
      in if out_size = 0 then None else Some (take (out_size - 1) search_path))"

text \<open>\<^verbatim>\<open>mp_shadowed\<close>: \<open>snprintf\<close> must not truncate the joined path.\<close>

definition mp_shadowed :: "image \<Rightarrow> nat \<Rightarrow> cstring \<Rightarrow> bool" where
  "mp_shadowed img dir name =
     (name = ''.'' \<or> name = ''..'' \<or>
      (let vpath = mp_path_of img dir @ ''/'' @ name
       in length vpath < PATH_MAX \<and> find_embedded_file img vpath \<noteq> None))"


text \<open>
  Resolution against a directory entry: \<^verbatim>\<open>snprintf\<close> leaves room for the \<^verbatim>\<open>~\<close> that is put back.
\<close>

definition mp_virtual_join :: "cstring \<Rightarrow> cstring \<Rightarrow> cstring" where
  "mp_virtual_join dir rel =
     (let relative_root = (take 1 dir = ''~'');
          out = take (PATH_MAX - 2) ((if relative_root then drop 1 dir else dir) @ ''/'' @ rel);
          out = mp_normalize_path out
      in if relative_root then CHR ''~'' # out else out)"

subsection \<open>What normalisation computes\<close>

text \<open>
  A segment is clean when it can name an entry of a directory. The abstract meaning of a path is
  its list of clean segments, with dot-dot applied and stopping at the root.
\<close>

definition clean :: "cstring \<Rightarrow> bool" where
  "clean s \<longleftrightarrow> s \<noteq> [] \<and> s \<noteq> ''.'' \<and> s \<noteq> ''..'' \<and> SLASH \<notin> set s"

lemma clean_iffs [path_simps]:
  "\<not> clean []" "\<not> clean ''.''" "\<not> clean ''..''"
  by (simp_all add: clean_def)

fun split_segments :: "cstring \<Rightarrow> cstring \<Rightarrow> cstring list" where
  "split_segments cur [] = (if cur = [] then [] else [cur])"
| "split_segments cur (c # s) =
     (if c = SLASH then (if cur = [] then [] else [cur]) @ split_segments [] s
      else split_segments (cur @ [c]) s)"

abbreviation path_segments :: "cstring \<Rightarrow> cstring list" where
  "path_segments p \<equiv> fold push_segment (split_segments [] p) []"

lemma split_segments_word:
  "SLASH \<notin> set w \<Longrightarrow> split_segments cur (w @ s) = split_segments (cur @ w) s"
  by (induction w arbitrary: cur) auto

lemma split_segments_app_slash:
  "split_segments cur (p @ SLASH # s) = split_segments cur p @ split_segments [] s"
  by (induction cur p rule: split_segments.induct) auto

lemma split_segments_slashes: "split_segments [] (dropWhile (\<lambda>c. c = SLASH) s) = split_segments [] s"
  by (induction s) auto

lemma strtok_r_split:
  "split_segments [] s = (case strtok_r SLASH s of None \<Rightarrow> []
     | Some (tok, rest) \<Rightarrow> tok # split_segments [] rest)"
proof (cases "dropWhile (\<lambda>c. c = SLASH) s")
  case Nil
  with split_segments_slashes [of s] show ?thesis by (simp add: strtok_r_def)
next
  case (Cons c s')
  let ?s = "c # s'"
  from Cons have c: "c \<noteq> SLASH" using hd_dropWhile [of "\<lambda>c. c = SLASH" s] by simp
  obtain w r where w: "w = takeWhile (\<lambda>c. c \<noteq> SLASH) ?s" and r: "r = dropWhile (\<lambda>c. c \<noteq> SLASH) ?s"
    by blast
  have s: "?s = w @ r" using w r by (simp only: takeWhile_dropWhile_id)
  have ne: "w \<noteq> []" and nw: "SLASH \<notin> set w" using w c by (auto dest: set_takeWhileD)
  have "split_segments [] ?s = split_segments w r"
    using split_segments_word [OF nw, of "[]" r] s by simp
  also have "\<dots> = w # split_segments [] (drop 1 r)"
  proof (cases r)
    case Nil
    with ne show ?thesis by simp
  next
    case (Cons d r')
    then have "d = SLASH" using r hd_dropWhile [of "\<lambda>c. c \<noteq> SLASH" ?s] by (metis list.discI list.sel(1))
    with Cons ne show ?thesis by simp
  qed
  finally show ?thesis
    using split_segments_slashes [of s] Cons by (simp only: strtok_r_def Let_def w r) simp
qed

lemma normalize_segments_fold:
  "normalize_segments toks path = fold push_segment (split_segments [] path) toks"
proof (induction toks path rule: normalize_segments.induct)
  case (1 toks path)
  show ?case
    by (subst normalize_segments.simps, subst strtok_r_split) (auto split: option.splits simp: 1)
qed

lemma normalize_path_eq: "mp_normalize_path p = render_segments (path_segments p)"
  by (simp add: mp_normalize_path_def normalize_segments_fold)

lemma split_segments_no_slash:
  "SLASH \<notin> set cur \<Longrightarrow> t \<in> set (split_segments cur s) \<Longrightarrow> t \<noteq> [] \<and> SLASH \<notin> set t"
  by (induction cur s rule: split_segments.induct) (auto split: if_splits)

lemma push_segment_clean:
  "list_all clean toks \<Longrightarrow> t \<noteq> [] \<Longrightarrow> SLASH \<notin> set t \<Longrightarrow> list_all clean (push_segment t toks)"
  by (auto simp: push_segment_def clean_def list_all_iff dest: in_set_butlastD)

lemma fold_push_clean:
  "list_all clean toks \<Longrightarrow> \<forall>t \<in> set ts. t \<noteq> [] \<and> SLASH \<notin> set t
    \<Longrightarrow> list_all clean (fold push_segment ts toks)"
  by (induction ts arbitrary: toks) (simp_all add: push_segment_clean)

lemma path_segments_clean [path_simps]: "list_all clean (path_segments p)"
  using split_segments_no_slash [of "[]"] by (intro fold_push_clean) auto

lemma split_render:
  "list_all clean cs \<Longrightarrow> split_segments [] (concat (map (\<lambda>t. SLASH # t) cs)) = cs"
proof (induction cs)
  case Nil
  show ?case by simp
next
  case (Cons c cs)
  then have c: "SLASH \<notin> set c" "c \<noteq> []" by (auto simp: clean_def)
  show ?case
  proof (cases cs)
    case Nil
    with c show ?thesis using split_segments_word [of c "[]" "[]"] by simp
  next
    case (Cons d ds)
    let ?r = "d @ concat (map (\<lambda>t. SLASH # t) ds)"
    have "split_segments [] (c @ SLASH # ?r) = split_segments [] c @ split_segments [] ?r"
      by (rule split_segments_app_slash)
    moreover have "split_segments [] c = [c]"
      using c split_segments_word [of c "[]" "[]"] by simp
    moreover have "split_segments [] ?r = cs" using Cons.IH Cons.prems Cons by simp
    ultimately show ?thesis using Cons by simp
  qed
qed

lemma fold_push_id: "list_all clean cs \<Longrightarrow> fold push_segment cs toks = toks @ cs"
  by (induction cs arbitrary: toks) (auto simp: push_segment_def path_simps)

lemma path_segments_render [path_simps]:
  "list_all clean cs \<Longrightarrow> path_segments (render_segments cs) = cs"
  by (auto simp: render_segments_def split_render fold_push_id)

lemma render_inject:
  "list_all clean cs \<Longrightarrow> list_all clean ds \<Longrightarrow> render_segments cs = render_segments ds \<longleftrightarrow> cs = ds"
  using path_segments_render by metis


subsection \<open>Lengths\<close>

abbreviation join_segments :: "cstring list \<Rightarrow> cstring" where
  "join_segments cs \<equiv> concat (map (\<lambda>t. SLASH # t) cs)"

lemma push_segment_length:
  "length (join_segments (push_segment t toks)) \<le> length (join_segments toks) + 1 + length t"
proof -
  have "length (join_segments (butlast toks)) \<le> length (join_segments toks)"
    by (cases toks rule: rev_cases) auto
  then show ?thesis by (auto simp: push_segment_def)
qed

lemma fold_push_length:
  "length (join_segments (fold push_segment ts toks))
     \<le> length (join_segments toks) + length (join_segments ts)"
proof (induction ts arbitrary: toks)
  case Nil
  show ?case by simp
next
  case (Cons t ts)
  from Cons [of "push_segment t toks"] push_segment_length [of t toks] show ?case by simp
qed

lemma split_segments_length:
  "length (join_segments (split_segments cur s)) \<le> length cur + length s + 1"
  by (induction cur s rule: split_segments.induct) auto

lemma normalize_path_length [path_simps]:
  "length (mp_normalize_path (SLASH # s)) \<le> length (SLASH # s)"
  using fold_push_length [of "split_segments [] s" "[]"] split_segments_length [of "[]" s]
  by (simp add: normalize_path_eq render_segments_def)

lemma normalize_path_slash: "take 1 (mp_normalize_path p) = ''/''"
  by (cases "path_segments p") (simp_all add: normalize_path_eq render_segments_def)

subsection \<open>Being inside a folder\<close>

lemma join_split:
  "list_all clean ps \<Longrightarrow> list_all clean fs \<Longrightarrow> join_segments ps = join_segments fs @ rest
    \<Longrightarrow> rest = [] \<or> hd rest = SLASH \<Longrightarrow> ps = fs @ split_segments [] rest"
proof -
  assume c: "list_all clean ps" "list_all clean fs" and j: "join_segments ps = join_segments fs @ rest"
    and r: "rest = [] \<or> hd rest = SLASH"
  have "ps = split_segments [] (join_segments ps)" using c by (simp add: split_render)
  also have "\<dots> = fs @ split_segments [] rest"
  proof (cases rest)
    case Nil
    with c j show ?thesis by (simp add: split_render)
  next
    case (Cons x xs)
    with r have "x = SLASH" by simp
    with Cons c j show ?thesis by (simp add: split_segments_app_slash split_render)
  qed
  finally show ?thesis .
qed

lemma join_last: "list_all clean fs \<Longrightarrow> fs \<noteq> [] \<Longrightarrow> join_segments fs \<noteq> [] \<and> last (join_segments fs) \<noteq> SLASH"
  by (cases fs rule: rev_cases) (auto simp: clean_def dest: last_in_set)

lemma join_hd: "gs \<noteq> [] \<Longrightarrow> hd (join_segments gs) = SLASH"
  by (cases gs) auto

lemma folder_prefix_nonroot:
  assumes c: "list_all clean ps" "list_all clean fs" and ne: "fs \<noteq> []"
  shows "mp_folder_prefix_len (render_segments ps) (render_segments fs)
    = (if take (length fs) ps = fs then Some (length (render_segments fs)) else None)"
proof -
  let ?f = "join_segments fs" and ?p = "render_segments ps"
  have f: "render_segments fs = ?f" using ne by (simp add: render_segments_def)
  have last: "?f ! (length ?f - 1) \<noteq> SLASH" and f0: "?f \<noteq> []"
    using join_last [OF c(2) ne] by (auto simp: last_conv_nth)
  have "take (length fs) ps = fs \<longleftrightarrow> take (length ?f) ?p = ?f \<and> (length ?p = length ?f \<or> ?p ! length ?f = SLASH)"
  proof
    assume "take (length fs) ps = fs"
    then obtain gs where ps: "ps = fs @ gs" by (metis append_take_drop_id)
    then have "?p = ?f @ join_segments gs" using ne by (simp add: render_segments_def)
    moreover have "gs = [] \<or> join_segments gs ! 0 = SLASH" by (cases gs) auto
    ultimately show "take (length ?f) ?p = ?f \<and> (length ?p = length ?f \<or> ?p ! length ?f = SLASH)"
      by (auto simp: nth_append)
  next
    assume a: "take (length ?f) ?p = ?f \<and> (length ?p = length ?f \<or> ?p ! length ?f = SLASH)"
    define rest where "rest = drop (length ?f) ?p"
    have p: "?p = ?f @ rest" using a unfolding rest_def by (metis append_take_drop_id)
    have r: "rest = [] \<or> hd rest = SLASH"
      using a p by (cases rest) (auto simp: nth_append)
    have "ps \<noteq> []"
    proof
      assume "ps = []"
      with p have "''/'' = ?f @ rest" by (simp add: render_segments_def)
      moreover obtain g gs where "fs = g # gs" using ne by (cases fs) auto
      ultimately show False using c(2) by (auto simp: clean_def)
    qed
    with p have "join_segments ps = ?f @ rest" by (simp add: render_segments_def)
    from join_split [OF c this r] show "take (length fs) ps = fs" by simp
  qed
  with last f0 show ?thesis by (simp add: mp_folder_prefix_len_def f Let_def)
qed

text \<open>
  \<open>inside ps fs\<close> is the abstract relation: the folder's segments start the path's.
\<close>

definition inside :: "cstring list \<Rightarrow> cstring list \<Rightarrow> bool" where
  "inside ps fs \<longleftrightarrow> take (length fs) ps = fs"

lemma folder_prefix_spec:
  assumes c: "list_all clean ps" "list_all clean fs"
  shows "map_option (\<lambda>n. drop n (render_segments ps))
           (mp_folder_prefix_len (render_segments ps) (render_segments fs))
    = (if \<not> inside ps fs then None
       else if fs = [] then Some (render_segments ps)
       else Some (join_segments (drop (length fs) ps)))"
proof (cases "fs = []")
  case True
  then show ?thesis
    by (cases ps) (auto simp: mp_folder_prefix_len_def render_segments_def inside_def)
next
  case False
  have "drop (length (join_segments fs)) (render_segments ps) = join_segments (drop (length fs) ps)"
    if "take (length fs) ps = fs"
  proof -
    from that obtain gs where "ps = fs @ gs" by (metis append_take_drop_id)
    with False show ?thesis by (simp add: render_segments_def)
  qed
  with False folder_prefix_nonroot [OF c] show ?thesis
    by (auto simp: inside_def render_segments_def)
qed

subsection \<open>Search paths\<close>

lemma mp_ascii_lower_idem [simp]: "mp_ascii_lower (mp_ascii_lower c) = mp_ascii_lower c"
  by (auto simp: mp_ascii_lower_def Let_def)

lemma mp_ascii_lower_search [simp]: "mp_ascii_lower (search_char c) = search_char c"
proof -
  have "mp_ascii_lower SLASH = SLASH" by (simp add: mp_ascii_lower_def)
  then show ?thesis by (simp add: search_char_def)
qed

lemma map_lower_search [simp]: "map mp_ascii_lower (map search_char s) = map search_char s"
  by (simp add: comp_def)

lemma get_virtual_path_inside:
  assumes "mp_execfolder xp = render_segments fs" "list_all clean fs" "fs \<noteq> []"
    and "list_all clean gs" "length (join_segments gs) \<le> PATH_MAX - 2"
  shows "get_virtual_path xp (render_segments (fs @ gs)) = CHR ''~'' # map search_char (join_segments gs)"
proof -
  have "mp_folder_prefix_len (render_segments (fs @ gs)) (render_segments fs)
      = Some (length (render_segments fs))"
    using assms by (subst folder_prefix_nonroot) auto
  moreover have "drop (length (render_segments fs)) (render_segments (fs @ gs)) = join_segments gs"
    using assms(3) by (simp add: render_segments_def)
  ultimately show ?thesis using assms(1,5) by (simp add: get_virtual_path_def Let_def)
qed

text \<open>The absolute path an argument stands for, before normalisation.\<close>

definition absolute :: "cstring \<Rightarrow> cstring \<Rightarrow> cstring" where
  "absolute cwd p = (if take 1 p = ''/'' then p else cwd @ ''/'' @ p)"

lemma get_absolute_path_eq:
  "length (absolute cwd p) < sz \<Longrightarrow>
    mp_get_absolute_path (Some cwd) p buf sz = render_segments (path_segments (absolute cwd p))"
  by (auto simp: mp_get_absolute_path_def absolute_def normalize_path_eq)


lemma get_absolute_path_take:
  "mp_get_absolute_path (Some cwd) p buf sz = mp_normalize_path (take (sz - 1) (absolute cwd p))"
  by (simp add: mp_get_absolute_path_def absolute_def)

lemma get_absolute_path_length:
  assumes "take 1 (absolute cwd p) = ''/''" "2 \<le> sz"
  shows "length (mp_get_absolute_path (Some cwd) p buf sz) < sz"
proof -
  obtain s where "absolute cwd p = SLASH # s" using assms(1) by (cases "absolute cwd p") auto
  then have "take (sz - 1) (absolute cwd p) = SLASH # take (sz - 2) s"
    using assms(2) by (simp add: take_Cons' numeral_2_eq_2)
  then show ?thesis
    using normalize_path_length [of "take (sz - 2) s"] assms(2) by (simp add: get_absolute_path_take)
qed

lemma parent_dir_take: "p \<noteq> [] \<Longrightarrow> \<exists>k > 0. mp_parent_dir p = take k p"
proof (cases "strrchr_slash p")
  case None
  assume "p \<noteq> []"
  then show ?thesis using None by (intro exI [of _ "length p"]) (simp add: mp_parent_dir_def)
next
  case (Some i)
  then show ?thesis
    by (intro exI [of _ "if i = 0 then 1 else i"]) (simp add: mp_parent_dir_def)
qed

lemma parent_dir_Cons: "take 1 p = ''/'' \<Longrightarrow> \<exists>d. mp_parent_dir p = SLASH # d \<and> length d < length p"
proof -
  assume p: "take 1 p = ''/''"
  then obtain q where q: "p = SLASH # q" by (cases p) auto
  then obtain k where "k > 0" "mp_parent_dir p = take k p" using parent_dir_take by blast
  with q show ?thesis by (cases k) auto
qed

lemma follow_links_length:
  "length p < PATH_MAX \<Longrightarrow> length (follow_links rl n p) < PATH_MAX"
proof (induction n arbitrary: p)
  case 0
  then show ?case by simp
next
  case (Suc n)
  have step: "length (mp_normalize_path (mp_parent_dir p @ take (PATH_MAX - length (mp_parent_dir p) - 1) (SLASH # t)))
      < PATH_MAX" if "take 1 p = ''/''" for t
  proof -
    obtain d where d: "mp_parent_dir p = SLASH # d" "length d < length p"
      using parent_dir_Cons [OF \<open>take 1 p = ''/''\<close>] by blast
    have "length (SLASH # d @ take (PATH_MAX - length (SLASH # d) - 1) (SLASH # t)) < PATH_MAX"
      using d(2) Suc.prems by (auto simp: PATH_MAX_def)
    with normalize_path_length [of "d @ take (PATH_MAX - length (SLASH # d) - 1) (SLASH # t)"] d(1)
    show ?thesis by simp
  qed
  have tgt: "length (take (PATH_MAX - 1) t) < PATH_MAX" for t :: cstring
    by (simp add: PATH_MAX_def)
  show ?case
    using Suc.prems Suc.IH [OF step] Suc.IH [OF tgt] by (auto simp: Let_def split: option.splits)
qed

lemma virtual_join_length: "length (mp_virtual_join dir rel) < PATH_MAX"
  if "take 1 dir = ''~'' \<and> (drop 1 dir = [] \<or> hd (drop 1 dir) = SLASH) \<or> take 1 dir = ''/''"
proof -
  have norm: "length (mp_normalize_path (take (PATH_MAX - 2) (SLASH # s))) \<le> PATH_MAX - 2" for s
  proof -
    have "take (PATH_MAX - 2) (SLASH # s) = SLASH # take (PATH_MAX - 3) s" by (simp add: PATH_MAX_def)
    then show ?thesis using normalize_path_length [of "take (PATH_MAX - 3) s"] by (simp add: PATH_MAX_def)
  qed
  have step: "length (mp_normalize_path (take (PATH_MAX - 2) (d @ ''/'' @ rel))) \<le> PATH_MAX - 2"
    if "d = [] \<or> hd d = SLASH" for d
  proof -
    from that obtain s where "d @ ''/'' @ rel = SLASH # s" by (cases d) auto
    with norm [of s] show ?thesis by simp
  qed
  show ?thesis
  proof (cases "take 1 dir = ''~''")
    case True
    with that step [of "drop 1 dir"] show ?thesis
      by (cases dir) (auto simp: mp_virtual_join_def Let_def PATH_MAX_def)
  next
    case False
    with that step [of dir] show ?thesis
      by (cases dir) (auto simp: mp_virtual_join_def Let_def PATH_MAX_def)
  qed
qed

lemma split_join_slash:
  "list_all clean ds \<Longrightarrow> path_segments (join_segments ds @ SLASH # rel)
     = fold push_segment (split_segments [] rel) ds"
  by (simp add: split_segments_app_slash split_render fold_push_id)

subsection \<open>Properties\<close>


text \<open>
  \<^verbatim>\<open>mp_folder_prefix_len\<close> on normalised paths decides containment at directory boundaries: it
  answers exactly when the folder's segments start the path's, and what follows the prefix spells the
  remaining segments (the whole path when the folder is the root).
\<close>

theorem folder_prefix_boundary:
  "map_option (\<lambda>n. drop n (mp_normalize_path p))
       (mp_folder_prefix_len (mp_normalize_path p) (mp_normalize_path folder))
   = (if \<not> inside (path_segments p) (path_segments folder) then None
      else if path_segments folder = [] then Some (mp_normalize_path p)
      else Some (join_segments (drop (length (path_segments folder)) (path_segments p))))"
  by (simp add: normalize_path_eq folder_prefix_spec path_segments_clean)




end
