(* ===== verification/Vpath_Lookup.thy ===== *)
theory Vpath_Lookup
  imports Blob_Example Vpath
begin

text \<open>
  From the path of a call to the entry: normalisation, the folder prefix, the case folding and the
  perfect hash together.
\<close>

lemma virtual_path_below:
  assumes "mp_execfolder xp = mp_normalize_path f" and "path_segments f \<noteq> []"
    and "length (absolute cwd p) < PATH_MAX"
    and "path_segments (absolute cwd p) = path_segments f @ gs"
  shows "get_virtual_path xp (mp_get_absolute_path (Some cwd) p [] PATH_MAX)
    = CHR ''~'' # map search_char (join_segments gs)"
proof -
  let ?fs = "path_segments f" and ?a = "absolute cwd p"
  have clean: "list_all clean (?fs @ gs)" using path_segments_clean [of ?a] assms(4) by simp
  have "length (join_segments (?fs @ gs)) \<le> length ?a + 1"
    using fold_push_length [of "split_segments [] ?a" "[]"] split_segments_length [of "[]" ?a]
    by (simp add: assms(4) [symmetric])
  moreover have "2 \<le> length (join_segments ?fs)"
    using clean assms(2) by (cases ?fs) (auto simp: clean_def Suc_le_eq)
  ultimately have "length (join_segments gs) \<le> PATH_MAX - 2" using assms(3) by simp
  with clean assms(2) show ?thesis
    by (simp add: get_absolute_path_eq [OF assms(3)] assms(4) assms(1)
        get_virtual_path_inside [OF assms(1) [unfolded normalize_path_eq]])
qed

text \<open>
  C8. An entry below the executable's folder is found under every spelling of its path: relative to
  the working directory or absolute, with dot and dot-dot segments and repeated slashes, with
  backslashes for slashes, and in any ASCII casing below the folder.
\<close>

theorem find_by_any_spelling:
  assumes "build_blob compress ws = Inr (nuitka_embed_map img, nuitka_embed_data img)"
    and "collect_entries ws = Inr es" and "e \<in> set es" and "CHR 0x00 \<notin> set (vpath e)"
    and "vpath e = CHR ''~'' # v"
    and "mp_exec_ok xp" and "mp_execfolder xp = mp_normalize_path f" and "path_segments f \<noteq> []"
    and "length (absolute cwd p) < PATH_MAX"
    and "path_segments (absolute cwd p) = path_segments f @ gs"
    and "map search_char (join_segments gs) = map mp_ascii_lower v"
  shows "\<exists>slot < length es. mp_find_virtual img xp (Some cwd) (Some p) = Some slot
     \<and> mp_path_of img slot = vpath e \<and> em_type (emap_of img slot) = etype e"
proof -
  let ?q = "get_virtual_path xp (mp_get_absolute_path (Some cwd) p [] PATH_MAX)"
  have "?q = CHR ''~'' # map mp_ascii_lower v"
    using virtual_path_below [OF assms(7-10)] assms(11) by simp
  then have "map mp_ascii_lower ?q = map mp_ascii_lower (vpath e)"
    by (simp add: assms(5) comp_def)
  from find_every_entry_core [OF assms(1-4) this] assms(6) show ?thesis
    by (auto simp: mp_find_virtual_def)
qed

definition example_xp :: exec_paths where
  "example_xp = \<lparr> mp_executable = ''/opt/app/python'', mp_execfolder = ''/opt/app'',
     mp_execfolder_alias = [], mp_exec_dev = 0, mp_exec_ok = True \<rparr>"

theorem find_by_any_spelling_witness:
  "\<exists>slot < 2. mp_find_virtual example_image example_xp (Some ''/opt'')
       (Some (''./app//x/../LIB'' @ [CHR 0x5C] @ ''A'')) = Some slot
     \<and> mp_path_of example_image slot = ''~/lib/a'' \<and> em_type (emap_of example_image slot) = 1"
proof -
  have p: "path_segments (absolute ''/opt'' (''./app//x/../LIB'' @ [CHR 0x5C] @ ''A''))
      = path_segments ''/opt/app'' @ [''LIB'' @ [CHR 0x5C] @ ''A'']"
    by (simp add: absolute_def push_segment_def)
  have v: "map search_char (join_segments [''LIB'' @ [CHR 0x5C] @ ''A'']) = map mp_ascii_lower ''/lib/a''"
    by (simp add: search_char_def ex_lower)
  have xp: "mp_exec_ok example_xp" "mp_execfolder example_xp = mp_normalize_path ''/opt/app''"
    by (simp_all add: example_xp_def normalize_path_eq render_segments_def push_segment_def)
  from find_by_any_spelling [OF ex_built ex_entries, of "ex_file 0 0" "''/lib/a''", OF _ _ _ xp _ _ p v]
  show ?thesis
    by (simp add: ex_defs absolute_def PATH_MAX_def push_segment_def numeral_2_eq_2)
qed

end
