(* ===== verification/Vpath_Win.thy ===== *)
theory Vpath_Win
  imports Vpath_Lookup
begin

text \<open>
  The Windows side of the path pipeline (Embedded/mp_embed.c: \<^verbatim>\<open>DecomposePath\<close>, \<^verbatim>\<open>ExpandShortPath\<close>,
  \<^verbatim>\<open>mp_win_strip_verbatim\<close>, \<^verbatim>\<open>mp_win_long_path\<close>, the Windows \<^verbatim>\<open>mp_exec_init\<close>, \<^verbatim>\<open>mp_win_virtual_path\<close>,
  \<^verbatim>\<open>mp_find_virtual_w\<close>). A wide string is the list of its UTF-16 units before the NUL. The Win32 and
  CRT functions are parameters, gathered in \<open>win_api\<close> as they answer at the time of the call. A CRT
  function that is handed a buffer too small ends the process; that is \<open>None\<close>.
\<close>

type_synonym wstr = "16 word list"

abbreviation (input) BSLASH_W :: "16 word" where "BSLASH_W \<equiv> 0x5C"
abbreviation (input) COLON_W :: "16 word" where "COLON_W \<equiv> 0x3A"
abbreviation (input) TILDE_W :: "16 word" where "TILDE_W \<equiv> 0x7E"
abbreviation BSLASH :: char where "BSLASH \<equiv> CHR 0x5C"

text \<open>
  \<open>long_name\<close> and \<open>long_name_a\<close> give the value returned with the text stored; \<open>equal_ci\<close> is
  \<^verbatim>\<open>CompareStringOrdinal\<close> with case ignored; \<open>open_final\<close> is the final path of the file opened for
  metadata, if it can be opened. The conversions give \<open>None\<close> when the result does not fit the room.
\<close>

record win_api =
  full_path :: "wstr \<Rightarrow> wstr option"
  full_path_a :: "cstring \<Rightarrow> nat \<Rightarrow> cptr"
  long_name :: "wstr \<Rightarrow> nat \<times> wstr"
  long_name_a :: "cstring \<Rightarrow> nat \<Rightarrow> nat \<times> cstring"
  equal_ci :: "wstr \<Rightarrow> wstr \<Rightarrow> bool"
  to_utf8 :: "wstr \<Rightarrow> nat \<Rightarrow> cptr"
  from_acp :: "cstring \<Rightarrow> wstr option"
  exe_name :: "nat \<times> wstr"
  remove_spec :: "wstr \<Rightarrow> wstr option"
  open_final :: "wstr \<Rightarrow> (nat \<times> wstr) option"
  to_acp :: "wstr \<Rightarrow> nat \<Rightarrow> cptr"
  from_utf8 :: "cstring \<Rightarrow> nat \<Rightarrow> wstr option"
  match_spec :: "wstr \<Rightarrow> wstr \<Rightarrow> bool"
  file_name_part :: "wstr \<Rightarrow> wstr"

subsection \<open>Expanding short names\<close>

text \<open>\<^verbatim>\<open>strtok_s\<close> with both separators.\<close>

definition is_sep :: "char \<Rightarrow> bool" where
  "is_sep c \<longleftrightarrow> c = BSLASH \<or> c = SLASH"

definition strtok_seps :: "cstring \<Rightarrow> (cstring \<times> cstring) option" where
  "strtok_seps s =
     (let s = dropWhile is_sep s in
      if s = [] then None
      else let tok = takeWhile (\<lambda>c. \<not> is_sep c) s; r = dropWhile (\<lambda>c. \<not> is_sep c) s
           in Some (tok, case r of [] \<Rightarrow> [] | _ # r \<Rightarrow> r))"

lemma strtok_seps_shorter: "strtok_seps s = Some (t, r) \<Longrightarrow> length r < length s"
proof -
  assume a: "strtok_seps s = Some (t, r)"
  define d where "d = dropWhile is_sep s"
  with a have d: "d \<noteq> []" "r = (case dropWhile (\<lambda>c. \<not> is_sep c) d of [] \<Rightarrow> [] | _ # r \<Rightarrow> r)"
    by (auto simp: strtok_seps_def Let_def split: if_splits)
  have "length d \<le> length s" by (simp add: d_def length_dropWhile_le)
  moreover have "length (dropWhile (\<lambda>c. \<not> is_sep c) d) \<le> length d" by (rule length_dropWhile_le)
  ultimately show ?thesis using d by (cases "dropWhile (\<lambda>c. \<not> is_sep c) d") auto
qed

text \<open>\<open>mem k\<close> says whether the \<open>k\<close>-th allocation succeeds; a failed one gives up with NULL.\<close>

function decompose_loop :: "(nat \<Rightarrow> bool) \<Rightarrow> nat \<Rightarrow> nat \<Rightarrow> cstring list \<Rightarrow> cstring \<Rightarrow> cstring list option" where
  "decompose_loop mem k capacity components s =
     (case strtok_seps s of None \<Rightarrow> Some components
      | Some (token, s) \<Rightarrow>
        if length components \<ge> capacity \<and> \<not> mem k then None
        else let (capacity, k) = (if length components \<ge> capacity then (capacity * 2, k + 1) else (capacity, k))
             in if \<not> mem k then None
                else decompose_loop mem (k + 1) capacity (components @ [token]) s)"
  by pat_completeness auto
termination
  by (relation "measure (\<lambda>(mem, k, cap, cs, s). length s)") (auto dest: strtok_seps_shorter)

declare decompose_loop.simps [simp del]

definition DecomposePath :: "(nat \<Rightarrow> bool) \<Rightarrow> cstring \<Rightarrow> cstring list option" where
  "DecomposePath mem path = (if \<not> mem 0 \<or> \<not> mem 1 then None else decompose_loop mem 2 8 [] path)"

text \<open>\<^verbatim>\<open>strcpy_s\<close> and \<^verbatim>\<open>strcat_s\<close>: the text and its NUL must fit.\<close>

definition strcpy_s :: "nat \<Rightarrow> cstring \<Rightarrow> cstring option" where
  "strcpy_s sz s = (if length s < sz then Some s else None)"

definition strcat_s :: "nat \<Rightarrow> cstring \<Rightarrow> cstring \<Rightarrow> cstring option" where
  "strcat_s sz d s = strcpy_s sz (d @ s)"

fun append_rest :: "cstring \<Rightarrow> cstring list \<Rightarrow> cstring option" where
  "append_rest cur [] = Some cur"
| "append_rest cur (c # cs) =
     (case strcat_s PATH_MAX cur [BSLASH] of None \<Rightarrow> None
      | Some cur \<Rightarrow> (case strcat_s PATH_MAX cur c of None \<Rightarrow> None | Some cur \<Rightarrow> append_rest cur cs))"

fun expand_components :: "win_api \<Rightarrow> cstring \<Rightarrow> cstring list \<Rightarrow> cstring option" where
  "expand_components api cur [] = Some cur"
| "expand_components api cur (c # cs) =
     (case (if cur \<noteq> [] \<and> last cur \<noteq> BSLASH then strcat_s PATH_MAX cur [BSLASH] else Some cur) of
        None \<Rightarrow> None
      | Some cur \<Rightarrow>
        (case strcat_s PATH_MAX cur c of None \<Rightarrow> None
         | Some cur \<Rightarrow>
           (case long_name_a api cur PATH_MAX of (n, temp) \<Rightarrow>
              if n > 0 then (case strcpy_s PATH_MAX temp of None \<Rightarrow> None
                             | Some cur \<Rightarrow> expand_components api cur cs)
              else append_rest cur cs)))"

text \<open>The value returned and the buffer.\<close>

definition ExpandShortPath :: "win_api \<Rightarrow> (nat \<Rightarrow> bool) \<Rightarrow> cstring \<Rightarrow> nat \<Rightarrow> (bool \<times> cstring) option" where
  "ExpandShortPath api mem short_path buffer_size =
     (case long_name_a api short_path buffer_size of (n, buf) \<Rightarrow>
        if n > 0 then Some (True, buf)
        else case DecomposePath mem short_path of
          None \<Rightarrow> map_option (Pair False) (strcpy_s buffer_size short_path)
        | Some [] \<Rightarrow> map_option (Pair False) (strcpy_s buffer_size short_path)
        | Some (c # cs) \<Rightarrow>
            let drive = (length c = 2 \<and> c ! 1 = CHR '':'')
            in (case (if drive then expand_components api c cs else expand_components api [] (c # cs)) of
                  None \<Rightarrow> None
                | Some cur \<Rightarrow> map_option (Pair True) (strcpy_s buffer_size cur)))"

definition mp_get_absolute_path_win :: "win_api \<Rightarrow> (nat \<Rightarrow> bool) \<Rightarrow> cstring \<Rightarrow> nat \<Rightarrow> cstring option" where
  "mp_get_absolute_path_win api mem relative_path sz =
     (let full = (case full_path_a api relative_path sz of None \<Rightarrow> [] | Some f \<Rightarrow> f)
      in map_option snd (ExpandShortPath api mem full sz))"

subsection \<open>Wide paths\<close>

definition VERBATIM :: wstr where "VERBATIM = [0x5C, 0x5C, 0x3F, 0x5C]"
definition VERBATIM_UNC :: wstr where "VERBATIM_UNC = VERBATIM @ [0x55, 0x4E, 0x43, 0x5C]"

definition mp_win_strip_verbatim :: "wstr \<Rightarrow> wstr" where
  "mp_win_strip_verbatim path =
     (if take 8 path = VERBATIM_UNC then take 2 path @ drop 8 path
      else if take 4 path = VERBATIM \<and> 5 < length path \<and> path ! 5 = COLON_W then drop 4 path
      else path)"

text \<open>The loop that moves \<open>cpos\<close> back to just after a backslash, or to the start.\<close>

fun cut_back :: "wstr \<Rightarrow> nat \<Rightarrow> nat" where
  "cut_back path 0 = 0"
| "cut_back path (Suc k) = (if path ! k = BSLASH_W then Suc k else cut_back path k)"

lemma cut_back_le: "cut_back path k \<le> k"
  by (induction k) auto

lemma cut_next: "\<not> cpos \<le> stop \<Longrightarrow> cut_back path cpos - Suc 0 < cpos"
  using cut_back_le [of path cpos] by simp

function long_path_loop :: "win_api \<Rightarrow> wstr \<Rightarrow> nat \<Rightarrow> nat \<Rightarrow> wstr" where
  "long_path_loop api path stop cpos =
     (if cpos \<le> stop then path
      else case long_name api (take cpos path) of (n, expanded) \<Rightarrow>
        if n > 0 \<and> n < PATH_MAX then
          if n + (length path - cpos) < PATH_MAX then take n expanded @ drop cpos path else path
        else long_path_loop api path stop (cut_back path cpos - 1))"
  by pat_completeness auto
termination
  by (relation "measure (\<lambda>(api, path, stop, cpos). cpos)") (simp_all add: cut_next)

declare long_path_loop.simps [simp del]

definition mp_win_long_path :: "win_api \<Rightarrow> wstr \<Rightarrow> wstr" where
  "mp_win_long_path api path =
     (let len = length path; stop = (if len \<ge> 2 \<and> path ! 1 = COLON_W then 2 else 0)
      in long_path_loop api path stop len)"

record win_exec_paths =
  mp_executable_w :: wstr
  mp_execfolder_w :: wstr
  mp_execfolder_alias_w :: wstr
  mp_exec_ok_w :: bool

definition no_win_exec_paths :: win_exec_paths where
  "no_win_exec_paths = \<lparr> mp_executable_w = [], mp_execfolder_w = [], mp_execfolder_alias_w = [],
     mp_exec_ok_w = False \<rparr>"

definition mp_exec_init_win :: "win_api \<Rightarrow> win_exec_paths" where
  "mp_exec_init_win api =
     (case exe_name api of (n, exe) \<Rightarrow>
      let xp = no_win_exec_paths\<lparr>mp_executable_w := exe\<rparr> in
      if n = 0 \<or> n \<ge> PATH_MAX then xp
      else let xp = xp\<lparr>mp_execfolder_w := mp_win_strip_verbatim exe\<rparr> in
      case remove_spec api (mp_execfolder_w xp) of None \<Rightarrow> xp
      | Some dir \<Rightarrow>
        let dir = (if TILDE_W \<in> set dir then mp_win_long_path api dir else dir);
            xp = xp\<lparr>mp_execfolder_w := dir\<rparr>;
            xp = (case open_final api (mp_executable_w xp) of None \<Rightarrow> xp
                  | Some (len, final_path) \<Rightarrow>
                    if len > 0 \<and> len < PATH_MAX then
                      (case remove_spec api (mp_win_strip_verbatim final_path) of None \<Rightarrow> xp
                       | Some final_path \<Rightarrow>
                         if \<not> equal_ci api final_path dir
                         then xp\<lparr>mp_execfolder_alias_w := final_path\<rparr> else xp)
                    else xp)
        in xp\<lparr>mp_exec_ok_w := True\<rparr>)"

definition mp_win_folder_prefix_len :: "win_api \<Rightarrow> wstr \<Rightarrow> wstr \<Rightarrow> nat option" where
  "mp_win_folder_prefix_len api path folder =
     (let n = length folder in
      if n = 0 \<or> length path < n \<or> \<not> equal_ci api (take n path) folder then None
      else if folder ! (n - 1) = BSLASH_W then Some (n - 1)
      else if length path = n \<or> path ! n = BSLASH_W then Some n
      else None)"

definition mp_win_virtual_path :: "win_api \<Rightarrow> win_exec_paths \<Rightarrow> wstr option \<Rightarrow> cptr" where
  "mp_win_virtual_path api xp path =
     (case path of None \<Rightarrow> None
      | Some path \<Rightarrow>
        if \<not> mp_exec_ok_w xp \<or> length path \<ge> PATH_MAX then None
        else case full_path api (mp_win_strip_verbatim path) of None \<Rightarrow> None
        | Some full \<Rightarrow>
          let full = (if TILDE_W \<in> set full then mp_win_long_path api full else full);
              prefix = mp_win_folder_prefix_len api full (mp_execfolder_w xp);
              prefix = (if prefix = None \<and> mp_execfolder_alias_w xp \<noteq> []
                        then mp_win_folder_prefix_len api full (mp_execfolder_alias_w xp) else prefix);
              (out, rest) = (case prefix of Some n \<Rightarrow> (''~'', drop n full)
                | None \<Rightarrow> if 1 < length full \<and> full ! 1 = COLON_W
                    then ([SLASH, mp_ascii_lower (char_of (unat (hd full) mod 256))], drop 2 full)
                    else ([], full))
          in map_option (\<lambda>s. out @ map search_char s) (to_utf8 api rest (PATH_MAX - length out)))"

definition mp_find_virtual_w :: "image \<Rightarrow> win_api \<Rightarrow> win_exec_paths \<Rightarrow> wstr option \<Rightarrow> nat option" where
  "mp_find_virtual_w img api xp path =
     Option.bind (mp_win_virtual_path api xp path) (find_embedded_file img)"

definition mp_find_virtual_win :: "image \<Rightarrow> win_api \<Rightarrow> win_exec_paths \<Rightarrow> cptr \<Rightarrow> nat option" where
  "mp_find_virtual_win img api xp path =
     (case Option.bind path (from_acp api) of None \<Rightarrow> None
      | Some wide \<Rightarrow> mp_find_virtual_w img api xp (Some wide))"

definition mp_resolve_virtual_path_for_test_win :: "win_api \<Rightarrow> win_exec_paths \<Rightarrow> cstring \<Rightarrow> nat \<Rightarrow> cptr" where
  "mp_resolve_virtual_path_for_test_win api xp input out_size =
     (let search_path = (case from_acp api input of None \<Rightarrow> []
        | Some wide \<Rightarrow> (case mp_win_virtual_path api xp (Some wide) of None \<Rightarrow> [] | Some s \<Rightarrow> s))
      in if out_size = 0 then None else Some (take (out_size - 1) search_path))"


subsection \<open>What the pipeline computes\<close>

text \<open>
  Where \<^verbatim>\<open>mp_win_long_path\<close> may cut: at the end or before a backslash, past the drive. A cut is found
  when the path up to it exists, so that \<^verbatim>\<open>GetLongPathNameW\<close> expands it.
\<close>

definition drive_len :: "wstr \<Rightarrow> nat" where
  "drive_len path = (if length path \<ge> 2 \<and> path ! 1 = COLON_W then 2 else 0)"

definition cut_point :: "wstr \<Rightarrow> nat \<Rightarrow> bool" where
  "cut_point path c \<longleftrightarrow> c = length path \<or> c < length path \<and> path ! c = BSLASH_W"

definition expands :: "win_api \<Rightarrow> wstr \<Rightarrow> nat \<Rightarrow> bool" where
  "expands api path c \<longleftrightarrow> (let n = fst (long_name api (take c path)) in 0 < n \<and> n < PATH_MAX)"

definition found_cuts :: "win_api \<Rightarrow> wstr \<Rightarrow> nat \<Rightarrow> nat \<Rightarrow> nat set" where
  "found_cuts api path lo hi = {c. lo < c \<and> c \<le> hi \<and> cut_point path c \<and> expands api path c}"

definition expand_at :: "win_api \<Rightarrow> wstr \<Rightarrow> nat \<Rightarrow> wstr" where
  "expand_at api path c = (case long_name api (take c path) of (n, expanded) \<Rightarrow>
     if n + (length path - c) < PATH_MAX then take n expanded @ drop c path else path)"

lemma cut_back_skips: "k \<le> c \<Longrightarrow> c < cpos \<Longrightarrow> cut_back path cpos \<le> k \<Longrightarrow> path ! c = BSLASH_W \<Longrightarrow> False"
proof (induction cpos)
  case 0
  then show ?case by simp
next
  case (Suc cpos)
  then show ?case by (cases "c = cpos") (auto split: if_splits)
qed

lemma cut_back_at: "cut_back path cpos \<noteq> 0 \<Longrightarrow> path ! (cut_back path cpos - 1) = BSLASH_W"
  by (induction cpos) auto

lemma found_cuts_next:
  assumes "cpos \<le> length path" "\<not> expands api path cpos" "stop < cpos"
  shows "found_cuts api path stop cpos = found_cuts api path stop (cut_back path cpos - 1)"
proof -
  have "c \<le> cut_back path cpos - 1" if c: "cut_point path c" "expands api path c" "stop < c" "c \<le> cpos" for c
  proof (rule ccontr)
    assume a: "\<not> c \<le> cut_back path cpos - 1"
    with c assms(2) have "c < cpos" by (cases "c = cpos") auto
    with c assms(1) have "path ! c = BSLASH_W" by (simp add: cut_point_def)
    moreover have "cut_back path cpos \<le> c" using a by linarith
    ultimately show False using cut_back_skips [of c c cpos path] \<open>c < cpos\<close> by simp
  qed
  with cut_back_le [of path cpos] show ?thesis by (fastforce simp: found_cuts_def)
qed

lemma Max_found_cuts:
  "cut_point path cpos \<Longrightarrow> expands api path cpos \<Longrightarrow> stop < cpos \<Longrightarrow> Max (found_cuts api path stop cpos) = cpos"
  by (rule Max_eqI) (auto simp: found_cuts_def intro: finite_subset [of _ "{..cpos}"])

lemma long_path_loop_ok:
  "cpos \<le> length path \<Longrightarrow> stop < cpos \<longrightarrow> cut_point path cpos \<Longrightarrow> long_path_loop api path stop cpos
    = (let C = found_cuts api path stop cpos in if C = {} then path else expand_at api path (Max C))"
proof (induction api path stop cpos rule: long_path_loop.induct)
  case (1 api path stop cpos)
  show ?case
  proof (cases "cpos \<le> stop")
    case True
    then show ?thesis by (subst long_path_loop.simps) (simp add: found_cuts_def)
  next
    case False
    obtain n ex where n: "long_name api (take cpos path) = (n, ex)" by fastforce
    show ?thesis
    proof (cases "expands api path cpos")
      case True
      with False 1(3) have "cpos \<in> found_cuts api path stop cpos" by (simp add: found_cuts_def)
      with True False 1(3) n Max_found_cuts [of path cpos api stop] show ?thesis
        by (subst long_path_loop.simps) (auto simp: expands_def expand_at_def Let_def)
    next
      case not: False
      let ?next = "cut_back path cpos - 1"
      have le: "?next \<le> length path" using cut_back_le [of path cpos] 1(2) by simp
      have pt: "stop < ?next \<longrightarrow> cut_point path ?next"
        using cut_back_at [of path cpos] cut_back_le [of path cpos] 1(2) by (auto simp: cut_point_def)
      have "long_path_loop api path stop ?next
        = (let C = found_cuts api path stop ?next in if C = {} then path else expand_at api path (Max C))"
        using 1(1) [OF False n [symmetric] _ le pt] not n by (auto simp: expands_def)
      with not n False show ?thesis
        by (subst long_path_loop.simps)
          (auto simp: expands_def found_cuts_next [OF 1(2) not])
    qed
  qed
qed

text \<open>
  C34. \<^verbatim>\<open>mp_win_long_path\<close> expands the longest prefix of the path that exists on disk, cutting at
  separators only and never inside the drive; the rest of the path is kept as it is, and the path
  stays unchanged when nothing of it exists or the result would not fit.
\<close>

theorem long_path_longest_prefix:
  "mp_win_long_path api path =
     (let C = found_cuts api path (drive_len path) (length path)
      in if C = {} then path else expand_at api path (Max C))"
proof -
  have "mp_win_long_path api path = long_path_loop api path (drive_len path) (length path)"
    by (simp add: mp_win_long_path_def drive_len_def Let_def)
  with long_path_loop_ok [of "length path" path "drive_len path" api] show ?thesis
    by (simp add: cut_point_def)
qed

text \<open>
  C35. The Windows lookup finds an entry below the executable's folder whenever the full path
  compares equal to the folder up to a separator (the final-path folder included, and with 8.3 names
  expanded) and the rest spells the entry's path in any ASCII casing with backslashes.
\<close>

theorem win_find_below_folder:
  assumes "build_blob compress ws = Inr (nuitka_embed_map img, nuitka_embed_data img)"
    and "collect_entries ws = Inr es" and "e \<in> set es" and "CHR 0x00 \<notin> set (vpath e)"
    and "vpath e = CHR ''~'' # v"
    and "mp_exec_ok_w xp" and "length path < PATH_MAX"
    and "full_path api (mp_win_strip_verbatim path) = Some raw"
    and "full = (if TILDE_W \<in> set raw then mp_win_long_path api raw else raw)"
    and "full = dir @ BSLASH_W # rest" and "dir \<noteq> []" and "last dir \<noteq> BSLASH_W"
    and "equal_ci api dir folder" and "length folder = length dir" and "last folder \<noteq> BSLASH_W"
    and "folder = mp_execfolder_w xp \<or> folder = mp_execfolder_alias_w xp
           \<and> mp_win_folder_prefix_len api full (mp_execfolder_w xp) = None"
    and "to_utf8 api (BSLASH_W # rest) (PATH_MAX - 1) = Some u"
    and "map search_char u = map mp_ascii_lower v"
  shows "\<exists>slot < length es. mp_find_virtual_w img api xp (Some path) = Some slot
     \<and> mp_path_of img slot = vpath e \<and> em_type (emap_of img slot) = etype e"
proof -
  have "folder ! (length dir - 1) = last folder"
    using assms(11,14) by (metis last_conv_nth length_0_conv)
  then have pre: "mp_win_folder_prefix_len api full folder = Some (length dir)"
    using assms(10-15) by (simp add: mp_win_folder_prefix_len_def Let_def)
  moreover have "folder \<noteq> []" using assms(11,14) by auto
  moreover have "drop (length dir) full = BSLASH_W # rest" using assms(10) by simp
  ultimately have "mp_win_virtual_path api xp (Some path) = Some (CHR ''~'' # map mp_ascii_lower v)"
    using assms(6-8,16-18) by (auto simp: mp_win_virtual_path_def Let_def assms(9) [symmetric])
  then have v: "mp_win_virtual_path api xp (Some path) = Some (CHR ''~'' # map mp_ascii_lower v)" .
  have "map mp_ascii_lower (CHR ''~'' # map mp_ascii_lower v) = map mp_ascii_lower (vpath e)"
    by (simp add: assms(5) comp_def)
  from find_every_entry_core [OF assms(1-4) this] show ?thesis
    by (auto simp: mp_find_virtual_w_def v)
qed

text \<open>
  An example API: a folder \<^verbatim>\<open>C:\App\<close>, also known by the 8.3 name \<^verbatim>\<open>C:\APPLI~1\<close>; comparison is exact
  and only ASCII text is converted.
\<close>

definition wide :: "cstring \<Rightarrow> wstr" where
  "wide s = map (\<lambda>c. of_nat (of_char c)) s"

definition example_api :: win_api where
  "example_api = \<lparr> full_path = Some, full_path_a = (\<lambda>p n. Some p),
     long_name = (\<lambda>p. if p = wide (''C:'' @ [BSLASH] @ ''APPLI~1'')
       then (6, wide (''C:'' @ [BSLASH] @ ''App'')) else (0, [])),
     long_name_a = (\<lambda>p n. (0, [])), equal_ci = (=),
     to_utf8 = (\<lambda>p n. if length p < n then Some (map (\<lambda>c. char_of (unat c)) p) else None),
     from_acp = (\<lambda>s. Some (wide s)), exe_name = (15, wide (''C:'' @ [BSLASH] @ ''App'' @ [BSLASH] @ ''python.exe'')),
     remove_spec = (\<lambda>p. Some (take 6 p)), open_final = (\<lambda>p. None),
     to_acp = (\<lambda>p n. if length p < n then Some (map (\<lambda>c. char_of (unat c)) p) else None),
     from_utf8 = (\<lambda>s n. if length s < n then Some (wide s) else None),
     match_spec = (\<lambda>s p. p = wide ''*'' \<or> s = p), file_name_part = drop 7 \<rparr>"

definition example_win_xp :: win_exec_paths where
  "example_win_xp = no_win_exec_paths\<lparr>mp_execfolder_w := wide (''C:'' @ [BSLASH] @ ''App''), mp_exec_ok_w := True\<rparr>"

lemma example_expands:
  "mp_win_long_path example_api (wide (''C:'' @ [BSLASH] @ ''APPLI~1'' @ [BSLASH] @ ''LIB'' @ [BSLASH] @ ''A''))
    = wide (''C:'' @ [BSLASH] @ ''App'' @ [BSLASH] @ ''LIB'' @ [BSLASH] @ ''A'')"
  by code_simp

theorem win_find_below_folder_witness:
  "\<exists>slot < 2. mp_find_virtual_w example_image example_api example_win_xp
       (Some (wide (''C:'' @ [BSLASH] @ ''APPLI~1'' @ [BSLASH] @ ''LIB'' @ [BSLASH] @ ''A''))) = Some slot
     \<and> mp_path_of example_image slot = ''~/lib/a'' \<and> em_type (emap_of example_image slot) = 1"
proof -
  let ?u = "[BSLASH] @ ''LIB'' @ [BSLASH] @ ''A''"
  have u: "map search_char ?u = map mp_ascii_lower ''/lib/a''"
    by (simp add: search_char_def ex_lower)
  have t: "to_utf8 example_api (BSLASH_W # wide (''LIB'' @ [BSLASH] @ ''A'')) (PATH_MAX - 1) = Some ?u"
    by code_simp
  let ?p = "wide (''C:'' @ [BSLASH] @ ''APPLI~1'' @ [BSLASH] @ ''LIB'' @ [BSLASH] @ ''A'')"
  have p: "mp_exec_ok_w example_win_xp" "length ?p < PATH_MAX"
    "full_path example_api (mp_win_strip_verbatim ?p) = Some ?p" by code_simp+
  have full: "wide (''C:'' @ [BSLASH] @ ''App'' @ [BSLASH] @ ''LIB'' @ [BSLASH] @ ''A'')
      = (if TILDE_W \<in> set ?p then mp_win_long_path example_api ?p else ?p)"
    by (simp only: example_expands) code_simp
  have dir: "wide (''C:'' @ [BSLASH] @ ''App'' @ [BSLASH] @ ''LIB'' @ [BSLASH] @ ''A'')
      = wide (''C:'' @ [BSLASH] @ ''App'') @ BSLASH_W # wide (''LIB'' @ [BSLASH] @ ''A'')"
    "wide (''C:'' @ [BSLASH] @ ''App'') \<noteq> []" "last (wide (''C:'' @ [BSLASH] @ ''App'')) \<noteq> BSLASH_W"
    "equal_ci example_api (wide (''C:'' @ [BSLASH] @ ''App'')) (mp_execfolder_w example_win_xp)"
    "length (mp_execfolder_w example_win_xp) = length (wide (''C:'' @ [BSLASH] @ ''App''))"
    "last (mp_execfolder_w example_win_xp) \<noteq> BSLASH_W" by code_simp+
  from win_find_below_folder [OF ex_built ex_entries, of "ex_file 0 0" "''/lib/a''",
      OF _ _ _ p full dir disjI1 [OF refl] t u]
  show ?thesis by (simp add: ex_defs numeral_2_eq_2)
qed

text \<open>
  A path that does not exist and starts with a separator (rooted, or a UNC path) loses it: the
  components are joined again without what was before the first.
\<close>

lemma expand_short_path_drops_root:
  "ExpandShortPath example_api (\<lambda>_. True) ([BSLASH, BSLASH] @ ''srv'' @ [BSLASH] @ ''x'') PATH_MAX
    = Some (True, ''srv'' @ [BSLASH] @ ''x'')"
  by code_simp

end
