(* ===== verification/Vfs.thy ===== *)
theory Vfs
  imports Vfile_Spec Registry Vpath_Win "HOL-Library.Monad_Syntax"
begin

text \<open>
  The state the intercepts of Embedded/mp_embed.c share, and its basic steps: calls into the C library
  and the kernel, the heap of EFILEs, the two registries and the lookup of a path.

  An operation takes the environment and the state and returns \<open>None\<close> when it would dereference or free
  an EFILE that is not allocated, else its result and the new state. Freed addresses are not handed out
  again. Locks, the debug output and the arguments the code does not look at are left out.
\<close>

subsection \<open>Calls to the system\<close>

text \<open>
  Every C library or kernel function is called by name. It answers with the value returned (pointers
  as numbers, NULL is 0), the value it leaves in \<^verbatim>\<open>errno\<close> if it sets it, and the bytes it stores through
  its arguments. \<open>'w\<close> is the state of the world outside.
\<close>

datatype carg = CInt int | CStr cptr | CWstr "wstr option" | CBytes "u8 list"

record cres =
  rval :: int
  rerr :: "int option"
  rout :: "u8 list"

text \<open>
  The environment: the image, the platform (\<open>v_win\<close> is \<^verbatim>\<open>_WIN32\<close>), the executable's location as
  \<^verbatim>\<open>mp_exec_init\<close> left it, the working directory and the Win32 path functions as they answer in a given
  state of the world, whether the \<open>k\<close>-th allocation of an operation succeeds, and the address of the
  entry table.
\<close>

record 'w vfs_env =
  v_img :: image
  v_win :: bool
  v_xp :: exec_paths
  v_wxp :: win_exec_paths
  v_cwd :: "'w \<Rightarrow> cptr"
  v_api :: "'w \<Rightarrow> win_api"
  v_mem :: "'w \<Rightarrow> nat \<Rightarrow> bool"
  v_entries_addr :: nat
  v_sys :: "string \<Rightarrow> carg list \<Rightarrow> 'w \<Rightarrow> cres \<times> 'w"

record 'w vfs =
  world :: 'w
  errno :: int
  heap :: "nat \<Rightarrow> efile option"
  brk :: nat
  fds :: fdtable
  handles :: "handle_slot list"

type_synonym ret = "int \<times> u8 list"

definition sys :: "'w vfs_env \<Rightarrow> string \<Rightarrow> carg list \<Rightarrow> ('w, 'z) vfs_scheme \<Rightarrow> ret \<times> ('w, 'z) vfs_scheme" where
  "sys env name args s =
     (case v_sys env name args (world s) of (r, w) \<Rightarrow>
        ((rval r, rout r), s\<lparr>world := w, errno := (case rerr r of None \<Rightarrow> errno s | Some x \<Rightarrow> x)\<rparr>))"

text \<open>A call whose value is all that is used.\<close>

definition sysi :: "'w vfs_env \<Rightarrow> string \<Rightarrow> carg list \<Rightarrow> ('w, 'z) vfs_scheme \<Rightarrow> int \<times> ('w, 'z) vfs_scheme" where
  "sysi env name args s = (case sys env name args s of ((v, _), s) \<Rightarrow> (v, s))"

definition fail_with :: "int \<Rightarrow> ('w, 'z) vfs_scheme \<Rightarrow> (int \<times> ('w, 'z) vfs_scheme) option" where
  "fail_with x s = Some (- 1, s\<lparr>errno := x\<rparr>)"

subsection \<open>The heap of EFILEs\<close>

definition put_efile :: "nat \<Rightarrow> efile \<Rightarrow> ('w, 'z) vfs_scheme \<Rightarrow> ('w, 'z) vfs_scheme" where
  "put_efile p e s = s\<lparr>heap := (heap s)(p \<mapsto> e)\<rparr>"

definition new_efile :: "efile \<Rightarrow> ('w, 'z) vfs_scheme \<Rightarrow> nat \<times> ('w, 'z) vfs_scheme" where
  "new_efile e s = (brk s, s\<lparr>heap := (heap s)(brk s \<mapsto> e), brk := brk s + 1\<rparr>)"

definition free_efile :: "nat \<Rightarrow> ('w, 'z) vfs_scheme \<Rightarrow> ('w, 'z) vfs_scheme option" where
  "free_efile p s = (case heap s p of None \<Rightarrow> None | Some _ \<Rightarrow> Some (s\<lparr>heap := (heap s)(p := None)\<rparr>))"

text \<open>\<^verbatim>\<open>owned_buf\<close> lives and dies with its EFILE.\<close>

definition mp_efile_destroy :: "nat option \<Rightarrow> ('w, 'z) vfs_scheme \<Rightarrow> ('w, 'z) vfs_scheme option" where
  "mp_efile_destroy e s = (case e of None \<Rightarrow> Some s | Some p \<Rightarrow> free_efile p s)"

text \<open>
  The start of every open: \<^verbatim>\<open>calloc\<close> and \<^verbatim>\<open>mp_efile_init_virtual\<close>, which frees the EFILE again when it
  fails.
\<close>

definition open_efile :: "'w vfs_env \<Rightarrow> nat \<Rightarrow> ('w, 'z) vfs_scheme \<Rightarrow> nat option \<times> ('w, 'z) vfs_scheme" where
  "open_efile env slot s =
     (if \<not> v_mem env (world s) 0 then (None, s\<lparr>errno := ENOMEM\<rparr>)
      else case mp_efile_init_virtual (v_img env) (v_win env) (v_mem env (world s) 1) slot zero_efile of
        Inl x \<Rightarrow> (None, s\<lparr>errno := x\<rparr>)
      | Inr e \<Rightarrow> (case new_efile e s of (p, s) \<Rightarrow> (Some p, s)))"

text \<open>\<^verbatim>\<open>calloc\<close> of a wrapper around a native stream; the code does not check it.\<close>

definition wrap_native :: "'w vfs_env \<Rightarrow> nat \<Rightarrow> ('w, 'z) vfs_scheme \<Rightarrow> (nat \<times> ('w, 'z) vfs_scheme) option" where
  "wrap_native env f s =
     (if \<not> v_mem env (world s) 0 then None
      else Some (new_efile (zero_efile\<lparr>handle_type := EHANDLE_NATIVE, fptr := Some f\<rparr>) s))"

definition dup_efile :: "'w vfs_env \<Rightarrow> efile \<Rightarrow> ('w, 'z) vfs_scheme \<Rightarrow> nat option \<times> ('w, 'z) vfs_scheme" where
  "dup_efile env src s =
     (case mp_efile_dup (v_img env) (v_win env) (v_mem env (world s)) src of
        Inl x \<Rightarrow> (None, s\<lparr>errno := x\<rparr>)
      | Inr e \<Rightarrow> (case new_efile e s of (p, s) \<Rightarrow> (Some p, s)))"

subsection \<open>The registries\<close>

definition to_handle :: "int \<Rightarrow> nat" where
  "to_handle v = unat (word_of_int v :: u64)"

definition mp_fd_register :: "'w vfs_env \<Rightarrow> int \<Rightarrow> nat \<Rightarrow> ('w, 'z) vfs_scheme \<Rightarrow> bool \<times> ('w, 'z) vfs_scheme" where
  "mp_fd_register env fd e s =
     (let (h, s) = (if v_win env then sysi env ''_get_osfhandle'' [CInt fd] s else (- 1, s)) in
      case fd_register fd e (fds s) of
        None \<Rightarrow> (False, s\<lparr>errno := EMFILE\<rparr>)
      | Some tab \<Rightarrow> (True, s\<lparr>fds := tab, handles := (if v_win env
           then fd_claim_handle (to_handle h) e (handles s) else handles s)\<rparr>))"

definition mp_fd_unregister :: "'w vfs_env \<Rightarrow> int \<Rightarrow> ('w, 'z) vfs_scheme \<Rightarrow> nat option \<times> ('w, 'z) vfs_scheme" where
  "mp_fd_unregister env fd s =
     (case fd_unregister fd (fds s) of (e, tab) \<Rightarrow>
        (e, s\<lparr>fds := tab, handles := (case e of
           Some p \<Rightarrow> if v_win env then fd_release_handles p (handles s) else handles s
         | None \<Rightarrow> handles s)\<rparr>))"

definition init_fds :: "('w, 'z) vfs_scheme \<Rightarrow> ('w, 'z) vfs_scheme" where
  "init_fds s = s\<lparr>fds := init_fd2file (fds s)\<rparr>"

abbreviation virtual_fd :: "('w, 'z) vfs_scheme \<Rightarrow> int \<Rightarrow> nat option" where
  "virtual_fd s fd \<equiv> mp_fd_lookup fd (fds s)"

subsection \<open>The lookup of a path\<close>

definition find_virtual :: "'w vfs_env \<Rightarrow> cptr \<Rightarrow> ('w, 'z) vfs_scheme \<Rightarrow> nat option" where
  "find_virtual env path s =
     (if v_win env then mp_find_virtual_win (v_img env) (v_api env (world s)) (v_wxp env) path
      else mp_find_virtual (v_img env) (v_xp env) (v_cwd env (world s)) path)"

definition find_virtual_wide :: "'w vfs_env \<Rightarrow> wstr option \<Rightarrow> ('w, 'z) vfs_scheme \<Rightarrow> nat option" where
  "find_virtual_wide env path s = mp_find_virtual_w (v_img env) (v_api env (world s)) (v_wxp env) path"

definition mp_exec_paths :: "'w vfs_env \<Rightarrow> bool" where
  "mp_exec_paths env = (if v_win env then mp_exec_ok_w (v_wxp env) else mp_exec_ok (v_xp env))"

abbreviation entry_of :: "'w vfs_env \<Rightarrow> nat \<Rightarrow> emap" where
  "entry_of env slot \<equiv> emap_of (v_img env) slot"

definition mp_mode_writes :: "cptr \<Rightarrow> bool" where
  "mp_mode_writes mode = (case mode of None \<Rightarrow> False | Some m \<Rightarrow> set m \<inter> {CHR ''w'', CHR ''a'', CHR ''+''} \<noteq> {})"

definition mode_writes_w :: "wstr option \<Rightarrow> bool" where
  "mode_writes_w mode = (case mode of None \<Rightarrow> False | Some m \<Rightarrow> set m \<inter> {0x77, 0x61, 0x2B} \<noteq> {})"

end
