(* ===== verification/Vfs_Fd.thy ===== *)
theory Vfs_Fd
  imports Vfs
begin

text \<open>
  The calls that open, duplicate, close, position, read and map file descriptors (Embedded/mp_embed.c:
  \<^verbatim>\<open>mp_open_virtual_fd\<close>, \<^verbatim>\<open>mp_open\<close> to \<^verbatim>\<open>mp_openat\<close>, \<^verbatim>\<open>mp_close\<close>, \<^verbatim>\<open>mp_read\<close>, \<^verbatim>\<open>mp_pread\<close>, \<^verbatim>\<open>mp_dup\<close> to
  \<^verbatim>\<open>mp_lseek\<close>, the vectored reads and the refused writes). A virtual fd is a real fd on the executable,
  registered with the EFILE that answers for it.
\<close>

subsection \<open>Flags\<close>

abbreviation (input) O_WRONLY :: int where "O_WRONLY \<equiv> 1"
abbreviation (input) O_RDWR :: int where "O_RDWR \<equiv> 2"
abbreviation (input) O_CREAT :: int where "O_CREAT \<equiv> 0x40"
abbreviation (input) O_DIRECTORY :: int where "O_DIRECTORY \<equiv> 0x10000"
abbreviation (input) O_CLOEXEC :: int where "O_CLOEXEC \<equiv> 0x80000"
abbreviation (input) O_NOINHERIT_W :: int where "O_NOINHERIT_W \<equiv> 0x80"
abbreviation (input) O_BINARY_W :: int where "O_BINARY_W \<equiv> 0x8000"
abbreviation (input) AT_FDCWD :: int where "AT_FDCWD \<equiv> - 100"
abbreviation (input) F_DUPFD :: int where "F_DUPFD \<equiv> 0"
abbreviation (input) F_DUPFD_CLOEXEC :: int where "F_DUPFD_CLOEXEC \<equiv> 1030"
abbreviation (input) MAP_SHARED :: int where "MAP_SHARED \<equiv> 1"
abbreviation (input) MAP_PRIVATE :: int where "MAP_PRIVATE \<equiv> 2"
abbreviation (input) MAP_FIXED :: int where "MAP_FIXED \<equiv> 0x10"
abbreviation (input) MAP_ANON :: int where "MAP_ANON \<equiv> 0x20"
abbreviation (input) MAP_FAILED :: int where "MAP_FAILED \<equiv> - 1"
abbreviation (input) PROT_READ :: int where "PROT_READ \<equiv> 1"
abbreviation (input) PROT_WRITE :: int where "PROT_WRITE \<equiv> 2"
abbreviation (input) SC_PAGESIZE :: int where "SC_PAGESIZE \<equiv> 30"

definition has_flag :: "int \<Rightarrow> int \<Rightarrow> bool" where
  "has_flag flags f \<longleftrightarrow> flags AND f \<noteq> 0"

subsection \<open>Opening\<close>

text \<open>The fd on the executable behind a virtual fd.\<close>

definition open_executable :: "'w vfs_env \<Rightarrow> int \<Rightarrow> ('w, 'z) vfs_scheme \<Rightarrow> int \<times> ('w, 'z) vfs_scheme" where
  "open_executable env flags s =
     (if v_win env then sysi env ''_wopen'' [CWstr (Some (mp_executable_w (v_wxp env))),
        CInt (O_BINARY_W OR (flags AND O_NOINHERIT_W))] s
      else sysi env ''open'' [CStr (Some (mp_executable (v_xp env))), CInt (flags AND O_CLOEXEC)] s)"

definition mp_open_virtual_fd :: "'w vfs_env \<Rightarrow> nat \<Rightarrow> int \<Rightarrow> ('w, 'z) vfs_scheme
    \<Rightarrow> (int \<times> ('w, 'z) vfs_scheme) option" where
  "mp_open_virtual_fd env slot flags s =
     (if has_flag flags (O_WRONLY OR O_RDWR) then fail_with EROFS s
      else if \<not> v_win env \<and> has_flag flags O_DIRECTORY \<and> \<not> is_dir (entry_of env slot) then fail_with ENOTDIR s
      else case open_efile env slot s of
        (None, s) \<Rightarrow> Some (- 1, s)
      | (Some e, s) \<Rightarrow>
        let (fakefd, s) = open_executable env flags s in
        if fakefd < 0 then do { s \<leftarrow> mp_efile_destroy (Some e) s; Some (- 1, s) }
        else case mp_fd_register env fakefd e s of
          (False, s) \<Rightarrow>
            let (_, s) = sysi env ''close'' [CInt fakefd] s
            in do { s \<leftarrow> mp_efile_destroy (Some e) s; fail_with EMFILE s }
        | (True, s) \<Rightarrow> Some (fakefd, s))"

definition mp_open :: "'w vfs_env \<Rightarrow> cptr \<Rightarrow> int \<Rightarrow> int \<Rightarrow> ('w, 'z) vfs_scheme
    \<Rightarrow> (int \<times> ('w, 'z) vfs_scheme) option" where
  "mp_open env path flags mode s =
     (case find_virtual env path s of
        Some slot \<Rightarrow> mp_open_virtual_fd env slot flags s
      | None \<Rightarrow> Some (sysi env ''open'' [CStr path, CInt flags, CInt mode] s))"

definition mp_wopen :: "'w vfs_env \<Rightarrow> wstr option \<Rightarrow> int \<Rightarrow> int \<Rightarrow> ('w, 'z) vfs_scheme
    \<Rightarrow> (int \<times> ('w, 'z) vfs_scheme) option" where
  "mp_wopen env path flags mode s =
     (case find_virtual_wide env path s of
        Some slot \<Rightarrow> mp_open_virtual_fd env slot flags s
      | None \<Rightarrow> Some (sysi env ''_wopen'' [CWstr path, CInt flags, CInt mode] s))"

text \<open>The fd stored through \<^verbatim>\<open>pfh\<close> (\<open>None\<close> when nothing is stored) and the error number returned.\<close>

definition sopen_result :: "(int \<times> ('w, 'z) vfs_scheme) option
    \<Rightarrow> ((int \<times> int option) \<times> ('w, 'z) vfs_scheme) option" where
  "sopen_result r = do {
     (fd, s) \<leftarrow> r;
     Some (if fd < 0 then ((if errno s \<noteq> 0 then errno s else ENOENT), Some (- 1)) else (0, Some fd), s) }"

definition mp_sopen_s :: "'w vfs_env \<Rightarrow> bool \<Rightarrow> cptr \<Rightarrow> int \<Rightarrow> int \<Rightarrow> ('w, 'z) vfs_scheme
    \<Rightarrow> ((int \<times> int option) \<times> ('w, 'z) vfs_scheme) option" where
  "mp_sopen_s env pfh path oflag pmode s =
     (if \<not> pfh \<or> path = None then Some ((EINVAL, None), s)
      else sopen_result (mp_open env path oflag pmode s))"

definition mp_wsopen_s :: "'w vfs_env \<Rightarrow> bool \<Rightarrow> wstr option \<Rightarrow> int \<Rightarrow> int \<Rightarrow> ('w, 'z) vfs_scheme
    \<Rightarrow> ((int \<times> int option) \<times> ('w, 'z) vfs_scheme) option" where
  "mp_wsopen_s env pfh path oflag pmode s =
     (if \<not> pfh \<or> path = None then Some ((EINVAL, None), s)
      else sopen_result (mp_wopen env path oflag pmode s))"

text \<open>
  The lookup of the \<^verbatim>\<open>*at\<close> calls: 1 with the entry, 0 when the path is not virtual, -1 on an error.
\<close>

definition mp_find_virtual_at :: "'w vfs_env \<Rightarrow> int \<Rightarrow> cstring \<Rightarrow> ('w, 'z) vfs_scheme
    \<Rightarrow> ((int \<times> nat) \<times> ('w, 'z) vfs_scheme) option" where
  "mp_find_virtual_at env dirfd path s =
     (case (if take 1 path = ''/'' then None else virtual_fd s dirfd) of
        Some p \<Rightarrow> do {
          dir \<leftarrow> heap s p;
          if \<not> is_dir (entry_of env (emap_slot dir)) then Some ((- 1, 0), s\<lparr>errno := ENOTDIR\<rparr>)
          else case find_embedded_file (v_img env) (mp_virtual_join (ename dir) path) of
            Some slot \<Rightarrow> Some ((1, slot), s)
          | None \<Rightarrow> Some ((- 1, 0), s\<lparr>errno := ENOENT\<rparr>) }
      | None \<Rightarrow>
          if take 1 path \<noteq> ''/'' \<and> dirfd \<noteq> AT_FDCWD then Some ((0, 0), s)
          else case find_virtual env (Some path) s of
            Some slot \<Rightarrow> Some ((1, slot), s) | None \<Rightarrow> Some ((0, 0), s))"

definition mp_openat :: "'w vfs_env \<Rightarrow> int \<Rightarrow> cstring \<Rightarrow> int \<Rightarrow> int \<Rightarrow> ('w, 'z) vfs_scheme
    \<Rightarrow> (int \<times> ('w, 'z) vfs_scheme) option" where
  "mp_openat env dirfd path flags mode s = do {
     ((found, slot), s) \<leftarrow> mp_find_virtual_at env dirfd path s;
     if found > 0 then mp_open_virtual_fd env slot flags s
     else if found < 0 then
       (if errno s = ENOENT \<and> has_flag flags O_CREAT then fail_with EROFS s else Some (- 1, s))
     else Some (sysi env ''openat'' [CInt dirfd, CStr (Some path), CInt flags, CInt mode] s) }"

subsection \<open>Closing and duplicating\<close>

definition mp_close :: "'w vfs_env \<Rightarrow> int \<Rightarrow> ('w, 'z) vfs_scheme \<Rightarrow> (int \<times> ('w, 'z) vfs_scheme) option" where
  "mp_close env fd s =
     (case mp_fd_unregister env fd s of
        (None, s) \<Rightarrow> Some (sysi env ''close'' [CInt fd] s)
      | (Some p, s) \<Rightarrow> do {
          e \<leftarrow> heap s p;
          if handle_type e \<noteq> EHANDLE_VIRTUAL then do {
            f \<leftarrow> fptr e;
            let (_, s) = sysi env ''fclose'' [CInt (int f)] s;
            s \<leftarrow> mp_efile_destroy (Some p) s;
            Some (0, s) }
          else do {
            s \<leftarrow> mp_efile_destroy (Some p) s;
            Some (sysi env ''close'' [CInt fd] s) } })"

definition mp_fd_adopt :: "'w vfs_env \<Rightarrow> int \<Rightarrow> efile \<Rightarrow> ('w, 'z) vfs_scheme
    \<Rightarrow> (int \<times> ('w, 'z) vfs_scheme) option" where
  "mp_fd_adopt env fd2 src s =
     (let (e, s) = dup_efile env src s;
          (ok, s) = (case e of None \<Rightarrow> (False, s) | Some p \<Rightarrow> mp_fd_register env fd2 p s)
      in if ok then Some (fd2, s)
         else do {
           let x = errno s;
           s \<leftarrow> mp_efile_destroy e s;
           let (_, s) = sysi env ''close'' [CInt fd2] s;
           fail_with x s })"

definition mp_dup :: "'w vfs_env \<Rightarrow> int \<Rightarrow> ('w, 'z) vfs_scheme \<Rightarrow> (int \<times> ('w, 'z) vfs_scheme) option" where
  "mp_dup env fd s =
     (let e = virtual_fd s fd;
          (fd2, s) = sysi env (if v_win env then ''_dup'' else ''dup'') [CInt fd] s
      in case e of
           Some p \<Rightarrow> if fd2 \<ge> 0 then do { src \<leftarrow> heap s p; mp_fd_adopt env fd2 src s } else Some (fd2, s)
         | None \<Rightarrow> Some (fd2, s))"

definition dup2_call :: "'w vfs_env \<Rightarrow> int \<Rightarrow> int \<Rightarrow> int \<Rightarrow> ('w, 'z) vfs_scheme \<Rightarrow> int \<times> ('w, 'z) vfs_scheme" where
  "dup2_call env fd fd2 flags s =
     (if v_win env then sysi env ''_dup2'' [CInt fd, CInt fd2] s
      else if flags < 0 then sysi env ''dup2'' [CInt fd, CInt fd2] s
      else sysi env ''dup3'' [CInt fd, CInt fd2, CInt flags] s)"

definition mp_dup_onto :: "'w vfs_env \<Rightarrow> int \<Rightarrow> int \<Rightarrow> int \<Rightarrow> ('w, 'z) vfs_scheme
    \<Rightarrow> (int \<times> ('w, 'z) vfs_scheme) option" where
  "mp_dup_onto env fd fd2 flags s =
     (let e = virtual_fd s fd;
          (old, s) = (if fd = fd2 then (None, s) else mp_fd_unregister env fd2 s);
          (r, s) = dup2_call env fd fd2 flags s
      in if r < 0 then
           let x = errno s;
               s = (case old of None \<Rightarrow> s | Some p \<Rightarrow> snd (mp_fd_register env fd2 p s))
           in Some (r, s\<lparr>errno := x\<rparr>)
         else do {
           s \<leftarrow> mp_efile_destroy old s;
           case (if fd = fd2 then None else e) of
             None \<Rightarrow> Some (r, s)
           | Some p \<Rightarrow> do {
               src \<leftarrow> heap s p;
               (a, s) \<leftarrow> mp_fd_adopt env fd2 src s;
               Some (if a < 0 then - 1 else r, s) } })"

definition mp_dup2 :: "'w vfs_env \<Rightarrow> int \<Rightarrow> int \<Rightarrow> ('w, 'z) vfs_scheme \<Rightarrow> (int \<times> ('w, 'z) vfs_scheme) option" where
  "mp_dup2 env fd fd2 s = mp_dup_onto env fd fd2 (- 1) s"

definition mp_dup3 :: "'w vfs_env \<Rightarrow> int \<Rightarrow> int \<Rightarrow> int \<Rightarrow> ('w, 'z) vfs_scheme
    \<Rightarrow> (int \<times> ('w, 'z) vfs_scheme) option" where
  "mp_dup3 env fd fd2 flags s = mp_dup_onto env fd fd2 flags s"

definition mp_fcntl :: "'w vfs_env \<Rightarrow> int \<Rightarrow> int \<Rightarrow> int \<Rightarrow> ('w, 'z) vfs_scheme
    \<Rightarrow> (int \<times> ('w, 'z) vfs_scheme) option" where
  "mp_fcntl env fd cmd arg s =
     (let (r, s) = sysi env ''fcntl'' [CInt fd, CInt cmd, CInt arg] s;
          dups = (cmd = F_DUPFD \<or> cmd = F_DUPFD_CLOEXEC)
      in case (if dups \<and> r \<ge> 0 then virtual_fd s fd else None) of
           Some p \<Rightarrow> do { src \<leftarrow> heap s p; mp_fd_adopt env r src s }
         | None \<Rightarrow> Some (r, s))"

subsection \<open>Reading and positioning\<close>

text \<open>
  \<^verbatim>\<open>map == NULL\<close> marks native EFILEs, which are never registered to an fd; the test is the type of the
  entry.
\<close>

definition mp_read :: "'w vfs_env \<Rightarrow> int \<Rightarrow> nat \<Rightarrow> ('w, 'z) vfs_scheme \<Rightarrow> (ret \<times> ('w, 'z) vfs_scheme) option" where
  "mp_read env fd count s =
     (case virtual_fd s fd of
        None \<Rightarrow> Some (sys env ''read'' [CInt fd, CInt (int count)] s)
      | Some p \<Rightarrow> do {
          e \<leftarrow> heap s p;
          if is_dir (entry_of env (emap_slot e)) then Some ((- 1, []), s\<lparr>errno := EISDIR\<rparr>)
          else let (bs, e) = read_virtual (v_win env) count e
               in Some ((int (length bs), bs), put_efile p e s) })"

definition mp_pread :: "'w vfs_env \<Rightarrow> int \<Rightarrow> nat \<Rightarrow> int \<Rightarrow> ('w, 'z) vfs_scheme
    \<Rightarrow> (ret \<times> ('w, 'z) vfs_scheme) option" where
  "mp_pread env fd count offset s =
     (case virtual_fd s fd of
        None \<Rightarrow>
          if v_win env then
            (let (saved, s) = sysi env ''_lseeki64'' [CInt fd, CInt 0, CInt SEEK_CUR] s in
             if saved < 0 then Some ((- 1, []), s)
             else let (at, s) = sysi env ''_lseeki64'' [CInt fd, CInt offset, CInt SEEK_SET] s in
             if at < 0 then Some ((- 1, []), s)
             else let (n, s) = sys env ''_read'' [CInt fd, CInt (int (count mod 2 ^ 32))] s;
                      (_, s) = sysi env ''_lseeki64'' [CInt fd, CInt saved, CInt SEEK_SET] s
                  in Some (n, s))
          else Some (sys env ''pread'' [CInt fd, CInt (int count), CInt offset] s)
      | Some p \<Rightarrow> do {
          e \<leftarrow> heap s p;
          case pread_virtual count offset e of
            (n, Some x, bs) \<Rightarrow> Some ((n, bs), s\<lparr>errno := x\<rparr>)
          | (n, None, bs) \<Rightarrow> Some ((n, bs), s) })"

definition mp_lseek :: "'w vfs_env \<Rightarrow> int \<Rightarrow> int \<Rightarrow> int \<Rightarrow> ('w, 'z) vfs_scheme
    \<Rightarrow> (int \<times> ('w, 'z) vfs_scheme) option" where
  "mp_lseek env fd offset whence s =
     (case virtual_fd s fd of
        None \<Rightarrow> Some (sysi env (if v_win env then ''_lseeki64'' else ''lseek'')
                        [CInt fd, CInt offset, CInt whence] s)
      | Some p \<Rightarrow> do {
          e \<leftarrow> heap s p;
          case mp_virtual_seek (v_win env) offset whence (sync_in (v_win env) e) of
            (None, e) \<Rightarrow> fail_with EINVAL (put_efile p e s)
          | (Some t, e) \<Rightarrow> Some (t, put_efile p e s) })"

text \<open>Scattered reads: the bytes stored in each buffer that is reached.\<close>

fun readv_loop :: "nat list \<Rightarrow> efile \<Rightarrow> u8 list list \<times> efile" where
  "readv_loop [] e = ([], e)"
| "readv_loop (len # iov) e =
     (let remaining = mp_avail e;
          n = (if len > remaining then remaining else len);
          bs = bytes_here n e; e = e\<lparr>pos := pos e + int n\<rparr>
      in if n < len then ([bs], e)
         else let (rest, e) = readv_loop iov e in (bs # rest, e))"

definition total :: "u8 list list \<Rightarrow> int" where
  "total bss = int (length (concat bss))"

type_synonym vret = "int \<times> u8 list list"

definition sysv :: "'w vfs_env \<Rightarrow> string \<Rightarrow> carg list \<Rightarrow> ('w, 'z) vfs_scheme \<Rightarrow> (vret \<times> ('w, 'z) vfs_scheme) option" where
  "sysv env name args s = (case sys env name args s of ((r, bs), s) \<Rightarrow> Some ((r, [bs]), s))"

definition mp_readv :: "'w vfs_env \<Rightarrow> int \<Rightarrow> nat list \<Rightarrow> ('w, 'z) vfs_scheme
    \<Rightarrow> (vret \<times> ('w, 'z) vfs_scheme) option" where
  "mp_readv env fd iov s =
     (case virtual_fd s fd of
        None \<Rightarrow> sysv env ''readv'' (CInt fd # map (\<lambda>n. CInt (int n)) iov) s
      | Some p \<Rightarrow> do {
          e \<leftarrow> heap s p;
          if is_dir (entry_of env (emap_slot e)) then Some ((- 1, []), s\<lparr>errno := EISDIR\<rparr>)
          else let (bss, e) = readv_loop iov e in Some ((total bss, bss), put_efile p e s) })"

text \<open>\<^verbatim>\<open>start_pos\<close> is an offset into the buffer, like \<open>pos\<close>.\<close>

fun preadv_loop :: "nat list \<Rightarrow> int \<Rightarrow> efile \<Rightarrow> u8 list list" where
  "preadv_loop [] start e = []"
| "preadv_loop (len # iov) start e =
     (let remaining = nat (eend e - start);
          n = (if len > remaining then remaining else len);
          bs = bytes_here n (e\<lparr>pos := start\<rparr>)
      in if n < len then [bs] else bs # preadv_loop iov (start + int n) e)"

definition mp_preadv :: "'w vfs_env \<Rightarrow> int \<Rightarrow> nat list \<Rightarrow> int \<Rightarrow> ('w, 'z) vfs_scheme
    \<Rightarrow> (vret \<times> ('w, 'z) vfs_scheme) option" where
  "mp_preadv env fd iov offset s =
     (case virtual_fd s fd of
        None \<Rightarrow> sysv env ''preadv'' (CInt fd # CInt offset # map (\<lambda>n. CInt (int n)) iov) s
      | Some p \<Rightarrow> do {
          e \<leftarrow> heap s p;
          if is_dir (entry_of env (emap_slot e)) then Some ((- 1, []), s\<lparr>errno := EISDIR\<rparr>)
          else if offset < 0 then Some ((- 1, []), s\<lparr>errno := EINVAL\<rparr>)
          else if offset \<ge> int (esize e) then Some ((0, []), s)
          else let bss = preadv_loop iov (ebase e + offset) e in Some ((total bss, bss), s) })"

definition mp_preadv2 :: "'w vfs_env \<Rightarrow> int \<Rightarrow> nat list \<Rightarrow> int \<Rightarrow> int \<Rightarrow> ('w, 'z) vfs_scheme
    \<Rightarrow> (vret \<times> ('w, 'z) vfs_scheme) option" where
  "mp_preadv2 env fd iov offset flags s =
     (if virtual_fd s fd = None
      then sysv env ''preadv2'' (CInt fd # CInt offset # CInt flags # map (\<lambda>n. CInt (int n)) iov) s
      else if offset = - 1 then mp_readv env fd iov s
      else mp_preadv env fd iov offset s)"

subsection \<open>Mapping\<close>

text \<open>
  The address and the bytes copied to it. A failed \<^verbatim>\<open>mprotect\<close> unmaps the copy again.
\<close>

definition mp_mmap :: "'w vfs_env \<Rightarrow> int \<Rightarrow> nat \<Rightarrow> int \<Rightarrow> int \<Rightarrow> int \<Rightarrow> int \<Rightarrow> ('w, 'z) vfs_scheme
    \<Rightarrow> (ret \<times> ('w, 'z) vfs_scheme) option" where
  "mp_mmap env addr len prot flags fd offset s =
     (case (if has_flag flags MAP_ANON then None else virtual_fd s fd) of
        None \<Rightarrow> Some (sys env ''mmap'' [CInt addr, CInt (int len), CInt prot, CInt flags, CInt fd, CInt offset] s)
      | Some q \<Rightarrow> do {
          e \<leftarrow> heap s q;
          if \<not> is_file (entry_of env (emap_slot e)) then Some ((MAP_FAILED, []), s\<lparr>errno := ENODEV\<rparr>)
          else if has_flag prot PROT_WRITE \<and> has_flag flags MAP_SHARED
          then Some ((MAP_FAILED, []), s\<lparr>errno := EACCES\<rparr>)
          else if len = 0 \<or> offset < 0 then Some ((MAP_FAILED, []), s\<lparr>errno := EINVAL\<rparr>)
          else let (page, s) = sysi env ''sysconf'' [CInt SC_PAGESIZE] s in
          if offset mod page \<noteq> 0 then Some ((MAP_FAILED, []), s\<lparr>errno := EINVAL\<rparr>)
          else let (p, s) = sysi env ''mmap'' [CInt addr, CInt (int len), CInt (PROT_READ OR PROT_WRITE),
                 CInt ((flags AND MAP_FIXED) OR MAP_PRIVATE OR MAP_ANON), CInt (- 1), CInt 0] s in
          if p = MAP_FAILED then Some ((MAP_FAILED, []), s)
          else let bs = (if offset < int (esize e) then
                   let n = esize e - nat offset
                   in bytes_here (if n < len then n else len) (e\<lparr>pos := ebase e + offset\<rparr>) else []) in
          if prot = (PROT_READ OR PROT_WRITE) then Some ((p, bs), s)
          else let (r, s) = sysi env ''mprotect'' [CInt p, CInt (int len), CInt prot] s in
          if r \<noteq> 0 then
            let x = errno s; (_, s) = sysi env ''munmap'' [CInt p, CInt (int len)] s
            in Some ((MAP_FAILED, []), s\<lparr>errno := x\<rparr>)
          else Some ((p, bs), s) })"

subsection \<open>Writing\<close>

text \<open>The four write calls differ in the system call a real fd goes to.\<close>

definition refuse_write :: "'w vfs_env \<Rightarrow> string \<Rightarrow> int \<Rightarrow> carg list \<Rightarrow> ('w, 'z) vfs_scheme
    \<Rightarrow> (int \<times> ('w, 'z) vfs_scheme) option" where
  "refuse_write env name fd args s =
     (if virtual_fd s fd \<noteq> None then fail_with EROFS s else Some (sysi env name (CInt fd # args) s))"

definition mp_pwrite :: "'w vfs_env \<Rightarrow> int \<Rightarrow> u8 list \<Rightarrow> int \<Rightarrow> ('w, 'z) vfs_scheme
    \<Rightarrow> (int \<times> ('w, 'z) vfs_scheme) option" where
  "mp_pwrite env fd buf offset s = refuse_write env ''pwrite'' fd [CBytes buf, CInt offset] s"

definition mp_writev :: "'w vfs_env \<Rightarrow> int \<Rightarrow> u8 list list \<Rightarrow> ('w, 'z) vfs_scheme
    \<Rightarrow> (int \<times> ('w, 'z) vfs_scheme) option" where
  "mp_writev env fd iov s = refuse_write env ''writev'' fd (map CBytes iov) s"

definition mp_pwritev :: "'w vfs_env \<Rightarrow> int \<Rightarrow> u8 list list \<Rightarrow> int \<Rightarrow> ('w, 'z) vfs_scheme
    \<Rightarrow> (int \<times> ('w, 'z) vfs_scheme) option" where
  "mp_pwritev env fd iov offset s = refuse_write env ''pwritev'' fd (CInt offset # map CBytes iov) s"

definition mp_pwritev2 :: "'w vfs_env \<Rightarrow> int \<Rightarrow> u8 list list \<Rightarrow> int \<Rightarrow> int \<Rightarrow> ('w, 'z) vfs_scheme
    \<Rightarrow> (int \<times> ('w, 'z) vfs_scheme) option" where
  "mp_pwritev2 env fd iov offset flags s =
     refuse_write env ''pwritev2'' fd (CInt offset # CInt flags # map CBytes iov) s"

end
