(* ===== verification/Vfs_Stdio.thy ===== *)
theory Vfs_Stdio
  imports Vfs_Fd
begin

text \<open>
  The stdio calls (Embedded/mp_embed.c: \<^verbatim>\<open>mp_fopen\<close>, the \<^verbatim>\<open>__wrap_*\<close> hooks, \<^verbatim>\<open>mp_fclose\<close>, \<^verbatim>\<open>mp_freopen\<close> and
  everything that takes a stream). A stream is a pointer to an EFILE or to a FILE of the C library;
  the code tells them apart by the magic number an EFILE starts with, which a FILE never holds.
\<close>

subsection \<open>Streams\<close>

datatype stream = Null | Libc nat | Efile nat

definition stream_arg :: "stream \<Rightarrow> carg" where
  "stream_arg e = CInt (case e of Null \<Rightarrow> 0 | Libc f \<Rightarrow> int f | Efile p \<Rightarrow> int p)"

definition libc_stream :: "int \<Rightarrow> stream" where
  "libc_stream p = (if p = 0 then Null else Libc (nat p))"

text \<open>
  The shape of every call on a stream: a FILE, and the FILE wrapped in a native EFILE, go to the C
  library; a virtual EFILE is served by \<open>virt\<close>, which gives the value returned, the bytes stored and
  \<^verbatim>\<open>errno\<close> if it is set. Only the Windows build looks for NULL.
\<close>

type_synonym answer = "ret \<times> int option \<times> efile"

definition on_stream :: "'w vfs_env \<Rightarrow> string \<Rightarrow> carg list \<Rightarrow> (efile \<Rightarrow> answer) \<Rightarrow> stream
    \<Rightarrow> ('w, 'z) vfs_scheme \<Rightarrow> (ret \<times> ('w, 'z) vfs_scheme) option" where
  "on_stream env name args virt e s =
     (case e of
        Null \<Rightarrow> if v_win env then Some (sys env name (args @ [stream_arg e]) s) else None
      | Libc f \<Rightarrow> Some (sys env name (args @ [stream_arg e]) s)
      | Efile p \<Rightarrow> do {
          ef \<leftarrow> heap s p;
          case handle_type ef of
            EHANDLE_NONE \<Rightarrow> None
          | EHANDLE_NATIVE \<Rightarrow> do { f \<leftarrow> fptr ef; Some (sys env name (args @ [CInt (int f)]) s) }
          | EHANDLE_VIRTUAL \<Rightarrow>
              (case virt ef of (r, x, ef) \<Rightarrow>
                 Some (r, put_efile p ef (case x of None \<Rightarrow> s | Some x \<Rightarrow> s\<lparr>errno := x\<rparr>))) })"

definition plain :: "int \<Rightarrow> efile \<Rightarrow> answer" where
  "plain v e = ((v, []), None, e)"

definition of_bool_int :: "bool \<Rightarrow> int" where
  "of_bool_int b = (if b then 1 else 0)"

subsection \<open>Reading\<close>

definition mp_feof :: "'w vfs_env \<Rightarrow> stream \<Rightarrow> ('w, 'z) vfs_scheme \<Rightarrow> (ret \<times> ('w, 'z) vfs_scheme) option" where
  "mp_feof env = on_stream env ''feof'' [] (\<lambda>e. plain (of_bool_int (feof_virtual e)) e)"

definition mp_fread :: "'w vfs_env \<Rightarrow> nat \<Rightarrow> nat \<Rightarrow> stream \<Rightarrow> ('w, 'z) vfs_scheme
    \<Rightarrow> (ret \<times> ('w, 'z) vfs_scheme) option" where
  "mp_fread env sz count = on_stream env ''fread'' [CInt (int sz), CInt (int count)]
     (\<lambda>e. case fread_virtual (v_win env) sz count e of ((n, bs), e) \<Rightarrow> ((int n, bs), None, e))"

definition mp_fgetpos :: "'w vfs_env \<Rightarrow> stream \<Rightarrow> ('w, 'z) vfs_scheme \<Rightarrow> (ret \<times> ('w, 'z) vfs_scheme) option" where
  "mp_fgetpos env = on_stream env ''fgetpos'' [] (\<lambda>e. case fgetpos_virtual (v_win env) e of
     (None, e) \<Rightarrow> ((- 1, []), Some EINVAL, e) | (Some offset, e) \<Rightarrow> ((0, le_bytes 8 (nat offset)), None, e))"

text \<open>A pointer into the caller's memory counts as 1; the string stored has its NUL.\<close>

definition mp_fgets :: "'w vfs_env \<Rightarrow> int \<Rightarrow> stream \<Rightarrow> ('w, 'z) vfs_scheme \<Rightarrow> (ret \<times> ('w, 'z) vfs_scheme) option" where
  "mp_fgets env num = on_stream env ''fgets'' [CInt num] (\<lambda>e. case fgets_virtual (v_win env) num e of
     (None, e) \<Rightarrow> plain 0 e | (Some line, e) \<Rightarrow> ((1, line @ [0]), None, e))"

text \<open>\<open>args\<close> as for \<open>getline_virtual\<close>; the new \<^verbatim>\<open>*n\<close> is not part of the result.\<close>

definition mp_getline :: "'w vfs_env \<Rightarrow> (bool \<times> nat) option \<Rightarrow> stream \<Rightarrow> ('w, 'z) vfs_scheme
    \<Rightarrow> (ret \<times> ('w, 'z) vfs_scheme) option" where
  "mp_getline env args e s = on_stream env ''getline'' [] (\<lambda>e.
     case getline_virtual (v_mem env (world s)) args e of ((r, x, line, n), e) \<Rightarrow>
       ((r, if r \<ge> 0 then line @ [0] else line), x, e)) e s"

definition fgetc_answer :: "bool \<Rightarrow> efile \<Rightarrow> answer" where
  "fgetc_answer win e = (case fgetc_virtual win e of (None, e) \<Rightarrow> plain (- 1) e | (Some c, e) \<Rightarrow> plain (uint c) e)"

definition mp_fgetc :: "'w vfs_env \<Rightarrow> stream \<Rightarrow> ('w, 'z) vfs_scheme \<Rightarrow> (ret \<times> ('w, 'z) vfs_scheme) option" where
  "mp_fgetc env = on_stream env ''fgetc'' [] (fgetc_answer (v_win env))"

definition mp_getc_unlocked :: "'w vfs_env \<Rightarrow> stream \<Rightarrow> ('w, 'z) vfs_scheme \<Rightarrow> (ret \<times> ('w, 'z) vfs_scheme) option" where
  "mp_getc_unlocked env = on_stream env ''getc_unlocked'' [] (fgetc_answer (v_win env))"

definition mp_fgetwc :: "'w vfs_env \<Rightarrow> stream \<Rightarrow> ('w, 'z) vfs_scheme \<Rightarrow> (ret \<times> ('w, 'z) vfs_scheme) option" where
  "mp_fgetwc env = on_stream env ''fgetwc'' [] (\<lambda>e. case fgetwc_virtual (v_win env) e of (c, e) \<Rightarrow> plain c e)"

text \<open>
  \<^verbatim>\<open>mp_fscanf\<close> scans a private stream over the unread bytes: \<^verbatim>\<open>fmemopen\<close>, or a temporary file on Windows.
\<close>

definition private_stream :: "'w vfs_env \<Rightarrow> u8 list \<Rightarrow> ('w, 'z) vfs_scheme \<Rightarrow> int \<times> ('w, 'z) vfs_scheme" where
  "private_stream env bs s =
     (if v_win env then
        (let (m, s) = sysi env ''tmpfile'' [] s in
         if m = 0 then (0, s)
         else let (n, s) = sysi env ''fwrite'' [CBytes bs, CInt 1, CInt (int (length bs)), CInt m] s in
         if n \<noteq> int (length bs) then let (_, s) = sysi env ''fclose'' [CInt m] s in (0, s)
         else let (_, s) = sysi env ''rewind'' [CInt m] s in (m, s))
      else sysi env ''fmemopen'' [CBytes bs, CStr (Some ''r'')] s)"

definition scan_private :: "'w vfs_env \<Rightarrow> cstring \<Rightarrow> u8 list \<Rightarrow> ('w, 'z) vfs_scheme
    \<Rightarrow> (int \<times> int \<times> bool) option \<times> ('w, 'z) vfs_scheme" where
  "scan_private env fmt bs s =
     (let (m, s) = private_stream env bs s in
      if m = 0 then (None, s)
      else let (result, s) = sysi env ''vfscanf'' [CInt m, CStr (Some fmt)] s;
               (used, s) = sysi env ''ftell'' [CInt m] s;
               (at_eof, s) = sysi env ''feof'' [CInt m] s;
               (_, s) = sysi env ''fclose'' [CInt m] s
           in (Some (result, used, at_eof \<noteq> 0), s))"

definition mp_fscanf :: "'w vfs_env \<Rightarrow> cstring \<Rightarrow> stream \<Rightarrow> ('w, 'z) vfs_scheme
    \<Rightarrow> (ret \<times> ('w, 'z) vfs_scheme) option" where
  "mp_fscanf env fmt e s =
     (case e of
        Efile p \<Rightarrow> do {
          ef \<leftarrow> heap s p;
          if handle_type ef \<noteq> EHANDLE_VIRTUAL
          then on_stream env ''vfscanf'' [CStr (Some fmt)] (plain 0) e s
          else let ef1 = sync_in (v_win env) ef;
                   (scan, s) = (if mp_avail ef1 = 0 then (None, s)
                                else scan_private env fmt (bytes_here (mp_avail ef1) ef1) s);
                   (r, ef) = fscanf_virtual (v_win env) (\<lambda>_. scan) ef
               in Some ((r, []), put_efile p ef s) }
      | _ \<Rightarrow> on_stream env ''vfscanf'' [CStr (Some fmt)] (plain 0) e s)"

subsection \<open>Position and state\<close>

definition mp_ftell :: "'w vfs_env \<Rightarrow> stream \<Rightarrow> ('w, 'z) vfs_scheme \<Rightarrow> (ret \<times> ('w, 'z) vfs_scheme) option" where
  "mp_ftell env = on_stream env (if v_win env then ''_ftelli64'' else ''ftello'') []
     (\<lambda>e. case ftell_virtual (v_win env) e of (r, e) \<Rightarrow> plain r e)"

definition mp_fseek :: "'w vfs_env \<Rightarrow> int \<Rightarrow> int \<Rightarrow> stream \<Rightarrow> ('w, 'z) vfs_scheme
    \<Rightarrow> (ret \<times> ('w, 'z) vfs_scheme) option" where
  "mp_fseek env offset origin =
     on_stream env (if v_win env then ''_fseeki64'' else ''fseeko'') [CInt offset, CInt origin]
       (\<lambda>e. case fseek_virtual (v_win env) offset origin e of (r, x, e) \<Rightarrow> ((r, []), x, e))"

definition mp_fsetpos :: "'w vfs_env \<Rightarrow> int \<Rightarrow> stream \<Rightarrow> ('w, 'z) vfs_scheme
    \<Rightarrow> (ret \<times> ('w, 'z) vfs_scheme) option" where
  "mp_fsetpos env at = on_stream env ''fsetpos'' [CInt at]
     (\<lambda>e. case fseek_virtual (v_win env) at SEEK_SET e of (r, x, e) \<Rightarrow> ((r, []), x, e))"

definition mp_rewind :: "'w vfs_env \<Rightarrow> stream \<Rightarrow> ('w, 'z) vfs_scheme \<Rightarrow> (ret \<times> ('w, 'z) vfs_scheme) option" where
  "mp_rewind env = on_stream env ''rewind'' [] (\<lambda>e. plain 0 (rewind_virtual (v_win env) e))"

definition mp_clearerr :: "'w vfs_env \<Rightarrow> stream \<Rightarrow> ('w, 'z) vfs_scheme \<Rightarrow> (ret \<times> ('w, 'z) vfs_scheme) option" where
  "mp_clearerr env = on_stream env ''clearerr'' [] (\<lambda>e. plain 0 (clearerr_virtual e))"

definition mp_ferror :: "'w vfs_env \<Rightarrow> stream \<Rightarrow> ('w, 'z) vfs_scheme \<Rightarrow> (ret \<times> ('w, 'z) vfs_scheme) option" where
  "mp_ferror env = on_stream env ''ferror'' [] (\<lambda>e. plain (of_bool_int (ferror_virtual e)) e)"

definition mp_ungetc :: "'w vfs_env \<Rightarrow> int \<Rightarrow> stream \<Rightarrow> ('w, 'z) vfs_scheme
    \<Rightarrow> (ret \<times> ('w, 'z) vfs_scheme) option" where
  "mp_ungetc env character = on_stream env ''ungetc'' [CInt character]
     (\<lambda>e. case ungetc_virtual (v_win env) character e of (r, e) \<Rightarrow> plain r e)"

definition mp_ungetwc :: "'w vfs_env \<Rightarrow> int \<Rightarrow> stream \<Rightarrow> ('w, 'z) vfs_scheme
    \<Rightarrow> (ret \<times> ('w, 'z) vfs_scheme) option" where
  "mp_ungetwc env c = on_stream env ''ungetwc'' [CInt c]
     (\<lambda>e. case ungetwc_virtual (v_win env) c e of (r, e) \<Rightarrow> plain r e)"

text \<open>Calls that have nothing to do on a virtual stream.\<close>

definition mp_setbuf :: "'w vfs_env \<Rightarrow> stream \<Rightarrow> ('w, 'z) vfs_scheme \<Rightarrow> (ret \<times> ('w, 'z) vfs_scheme) option" where
  "mp_setbuf env = on_stream env ''setbuf'' [] (plain 0)"

definition mp_setvbuf :: "'w vfs_env \<Rightarrow> int \<Rightarrow> nat \<Rightarrow> stream \<Rightarrow> ('w, 'z) vfs_scheme
    \<Rightarrow> (ret \<times> ('w, 'z) vfs_scheme) option" where
  "mp_setvbuf env mode sz = on_stream env ''setvbuf'' [CInt mode, CInt (int sz)] (plain 0)"

definition mp_fflush :: "'w vfs_env \<Rightarrow> stream \<Rightarrow> ('w, 'z) vfs_scheme \<Rightarrow> (ret \<times> ('w, 'z) vfs_scheme) option" where
  "mp_fflush env = on_stream env ''fflush'' [] (plain 0)"

definition mp_flockfile :: "'w vfs_env \<Rightarrow> stream \<Rightarrow> ('w, 'z) vfs_scheme \<Rightarrow> (ret \<times> ('w, 'z) vfs_scheme) option" where
  "mp_flockfile env = on_stream env ''flockfile'' [] (plain 0)"

definition mp_funlockfile :: "'w vfs_env \<Rightarrow> stream \<Rightarrow> ('w, 'z) vfs_scheme \<Rightarrow> (ret \<times> ('w, 'z) vfs_scheme) option" where
  "mp_funlockfile env = on_stream env ''funlockfile'' [] (plain 0)"

definition mp_ftrylockfile :: "'w vfs_env \<Rightarrow> stream \<Rightarrow> ('w, 'z) vfs_scheme \<Rightarrow> (ret \<times> ('w, 'z) vfs_scheme) option" where
  "mp_ftrylockfile env = on_stream env ''ftrylockfile'' [] (plain 0)"

definition mp__lock_file :: "'w vfs_env \<Rightarrow> stream \<Rightarrow> ('w, 'z) vfs_scheme \<Rightarrow> (ret \<times> ('w, 'z) vfs_scheme) option" where
  "mp__lock_file env = on_stream env ''_lock_file'' [] (plain 0)"

definition mp__unlock_file :: "'w vfs_env \<Rightarrow> stream \<Rightarrow> ('w, 'z) vfs_scheme \<Rightarrow> (ret \<times> ('w, 'z) vfs_scheme) option" where
  "mp__unlock_file env = on_stream env ''_unlock_file'' [] (plain 0)"

text \<open>The mirror fields are given as three little-endian numbers.\<close>

definition mp__get_stream_buffer_pointers :: "'w vfs_env \<Rightarrow> stream \<Rightarrow> ('w, 'z) vfs_scheme
    \<Rightarrow> (ret \<times> ('w, 'z) vfs_scheme) option" where
  "mp__get_stream_buffer_pointers env = on_stream env ''_get_stream_buffer_pointers'' []
     (\<lambda>e. case stream_buffer_pointers e of ((base, ptr, cnt), e) \<Rightarrow>
        ((0, le_bytes 8 (nat base) @ le_bytes 8 (nat ptr) @ le_bytes 8 (nat cnt)), None, e))"

subsection \<open>Writing\<close>

definition refuse :: "int \<Rightarrow> efile \<Rightarrow> answer" where
  "refuse v e = ((v, []), Some EBADF, write_virtual e)"

definition mp_fputc :: "'w vfs_env \<Rightarrow> int \<Rightarrow> stream \<Rightarrow> ('w, 'z) vfs_scheme \<Rightarrow> (ret \<times> ('w, 'z) vfs_scheme) option" where
  "mp_fputc env character = on_stream env ''fputc'' [CInt character] (refuse (- 1))"

definition mp_fputs :: "'w vfs_env \<Rightarrow> cstring \<Rightarrow> stream \<Rightarrow> ('w, 'z) vfs_scheme \<Rightarrow> (ret \<times> ('w, 'z) vfs_scheme) option" where
  "mp_fputs env str = on_stream env ''fputs'' [CStr (Some str)] (refuse (- 1))"

definition mp_vfprintf :: "'w vfs_env \<Rightarrow> cstring \<Rightarrow> stream \<Rightarrow> ('w, 'z) vfs_scheme
    \<Rightarrow> (ret \<times> ('w, 'z) vfs_scheme) option" where
  "mp_vfprintf env fmt = on_stream env ''vfprintf'' [CStr (Some fmt)] (refuse (- 1))"

definition mp_fprintf :: "'w vfs_env \<Rightarrow> cstring \<Rightarrow> stream \<Rightarrow> ('w, 'z) vfs_scheme
    \<Rightarrow> (ret \<times> ('w, 'z) vfs_scheme) option" where
  "mp_fprintf env fmt = on_stream env ''vfprintf'' [CStr (Some fmt)] (refuse (- 1))"

definition mp_fwrite :: "'w vfs_env \<Rightarrow> u8 list \<Rightarrow> nat \<Rightarrow> nat \<Rightarrow> stream \<Rightarrow> ('w, 'z) vfs_scheme
    \<Rightarrow> (ret \<times> ('w, 'z) vfs_scheme) option" where
  "mp_fwrite env buf sz count =
     on_stream env ''fwrite'' [CBytes buf, CInt (int sz), CInt (int count)] (refuse 0)"

definition mp_fputwc :: "'w vfs_env \<Rightarrow> int \<Rightarrow> stream \<Rightarrow> ('w, 'z) vfs_scheme \<Rightarrow> (ret \<times> ('w, 'z) vfs_scheme) option" where
  "mp_fputwc env c = on_stream env ''fputwc'' [CInt c] (refuse WEOF)"

subsection \<open>Opening\<close>

text \<open>
  \<^verbatim>\<open>mp_fopen\<close> gives a virtual file an EFILE without an fd. Other files are FILEs, on Windows wrapped in a
  native EFILE.
\<close>

definition native_stream :: "'w vfs_env \<Rightarrow> int \<Rightarrow> ('w, 'z) vfs_scheme \<Rightarrow> (stream \<times> ('w, 'z) vfs_scheme) option" where
  "native_stream env f s =
     (if f = 0 then Some (Null, s)
      else do { (p, s) \<leftarrow> wrap_native env (nat f) s; Some (Efile p, s) })"

definition virtual_stream :: "'w vfs_env \<Rightarrow> nat \<Rightarrow> bool \<Rightarrow> ('w, 'z) vfs_scheme
    \<Rightarrow> (stream \<times> ('w, 'z) vfs_scheme) option" where
  "virtual_stream env slot writes s =
     (if writes then Some (Null, s\<lparr>errno := EROFS\<rparr>)
      else case open_efile env slot s of
        (None, s) \<Rightarrow> Some (Null, s) | (Some p, s) \<Rightarrow> Some (Efile p, s))"

definition mp_fopen :: "'w vfs_env \<Rightarrow> cptr \<Rightarrow> cptr \<Rightarrow> ('w, 'z) vfs_scheme
    \<Rightarrow> (stream \<times> ('w, 'z) vfs_scheme) option" where
  "mp_fopen env path mode s =
     (case find_virtual env path s of
        Some slot \<Rightarrow>
          if is_file (entry_of env slot) then virtual_stream env slot (mp_mode_writes mode) s
          else (let (f, s) = sysi env ''fopen'' [CStr path, CStr mode] s
                in if v_win env then native_stream env f s else Some (libc_stream f, s))
      | None \<Rightarrow> (let (f, s) = sysi env ''fopen'' [CStr path, CStr mode] s
                 in if v_win env then native_stream env f s else Some (libc_stream f, s)))"

definition mp_wfopen :: "'w vfs_env \<Rightarrow> wstr option \<Rightarrow> wstr option \<Rightarrow> ('w, 'z) vfs_scheme
    \<Rightarrow> (stream \<times> ('w, 'z) vfs_scheme) option" where
  "mp_wfopen env path mode s =
     (case find_virtual_wide env path s of
        Some slot \<Rightarrow>
          if is_file (entry_of env slot) then virtual_stream env slot (mode_writes_w mode) s
          else (let (f, s) = sysi env ''_wfopen'' [CWstr path, CWstr mode] s in native_stream env f s)
      | None \<Rightarrow> (let (f, s) = sysi env ''_wfopen'' [CWstr path, CWstr mode] s in native_stream env f s))"

text \<open>The error number returned and what is stored through \<^verbatim>\<open>pf\<close>, if anything.\<close>

definition fopen_result :: "(stream \<times> ('w, 'z) vfs_scheme) option
    \<Rightarrow> ((int \<times> stream option) \<times> ('w, 'z) vfs_scheme) option" where
  "fopen_result r = do {
     (e, s) \<leftarrow> r;
     Some (if e = Null then ((if errno s \<noteq> 0 then errno s else ENOENT), Some Null) else (0, Some e), s) }"

definition mp_fopen_s :: "'w vfs_env \<Rightarrow> bool \<Rightarrow> cptr \<Rightarrow> cptr \<Rightarrow> ('w, 'z) vfs_scheme
    \<Rightarrow> ((int \<times> stream option) \<times> ('w, 'z) vfs_scheme) option" where
  "mp_fopen_s env pf path mode s =
     (if \<not> pf \<or> path = None \<or> mode = None then Some ((EINVAL, None), s)
      else fopen_result (mp_fopen env path mode s))"

definition mp_wfopen_s :: "'w vfs_env \<Rightarrow> bool \<Rightarrow> wstr option \<Rightarrow> wstr option \<Rightarrow> ('w, 'z) vfs_scheme
    \<Rightarrow> ((int \<times> stream option) \<times> ('w, 'z) vfs_scheme) option" where
  "mp_wfopen_s env pf path mode s =
     (if \<not> pf \<or> path = None \<or> mode = None then Some ((EINVAL, None), s)
      else fopen_result (mp_wfopen env path mode s))"

definition mp_tmpfile :: "'w vfs_env \<Rightarrow> ('w, 'z) vfs_scheme \<Rightarrow> (stream \<times> ('w, 'z) vfs_scheme) option" where
  "mp_tmpfile env s = (let (f, s) = sysi env ''tmpfile'' [] s in native_stream env f s)"

definition mp_fdopen :: "'w vfs_env \<Rightarrow> int \<Rightarrow> cptr \<Rightarrow> ('w, 'z) vfs_scheme
    \<Rightarrow> (stream \<times> ('w, 'z) vfs_scheme) option" where
  "mp_fdopen env fd mode s =
     (case virtual_fd s fd of
        Some p \<Rightarrow> Some (Efile p, s)
      | None \<Rightarrow> (let (f, s) = sysi env ''fdopen'' [CInt fd, CStr mode] s in native_stream env f s))"

text \<open>A stream gets an fd only when its number is asked for.\<close>

definition mp_fileno :: "'w vfs_env \<Rightarrow> stream \<Rightarrow> ('w, 'z) vfs_scheme \<Rightarrow> (int \<times> ('w, 'z) vfs_scheme) option" where
  "mp_fileno env e s =
     (let s = init_fds s in
      case e of
        Efile p \<Rightarrow> do {
          ef \<leftarrow> heap s p;
          case handle_type ef of
            EHANDLE_NONE \<Rightarrow> None
          | EHANDLE_NATIVE \<Rightarrow> do { f \<leftarrow> fptr ef; Some (sysi env ''fileno'' [CInt (int f)] s) }
          | EHANDLE_VIRTUAL \<Rightarrow>
              let fd = mp_fd_of p (fds s) in
              if fd \<noteq> - 1 then Some (fd, s)
              else if \<not> mp_exec_paths env then fail_with EBADF s
              else let (new_fd, s) = open_executable env (if v_win env then O_NOINHERIT_W else O_CLOEXEC) s in
              if new_fd = - 1 then Some (- 1, s)
              else case mp_fd_register env new_fd p s of
                (True, s) \<Rightarrow> Some (new_fd, s)
              | (False, s) \<Rightarrow> let (_, s) = sysi env ''close'' [CInt new_fd] s in Some (- 1, s) }
      | _ \<Rightarrow> map_option (\<lambda>((v, _), s). (v, s)) (on_stream env ''fileno'' [] (plain 0) e s))"

subsection \<open>Closing and reopening\<close>

definition mp_fclose :: "'w vfs_env \<Rightarrow> stream \<Rightarrow> ('w, 'z) vfs_scheme \<Rightarrow> (int \<times> ('w, 'z) vfs_scheme) option" where
  "mp_fclose env e s =
     (let s = init_fds s in
      case e of
        Efile p \<Rightarrow> do {
          ef \<leftarrow> heap s p;
          case handle_type ef of
            EHANDLE_NONE \<Rightarrow> None
          | EHANDLE_NATIVE \<Rightarrow> do {
              f \<leftarrow> fptr ef;
              let (result, s) = sysi env ''fclose'' [CInt (int f)] s;
              s \<leftarrow> mp_efile_destroy (Some p) s;
              Some (result, s) }
          | EHANDLE_VIRTUAL \<Rightarrow>
              let fd = mp_fd_of p (fds s) in
              if fd \<noteq> - 1 then do {
                let (_, s) = mp_fd_unregister env fd s;
                s \<leftarrow> mp_efile_destroy (Some p) s;
                Some (sysi env ''close'' [CInt fd] s) }
              else do { s \<leftarrow> mp_efile_destroy (Some p) s; Some (0, s) } }
      | _ \<Rightarrow> map_option (\<lambda>((v, _), s). (v, s)) (on_stream env ''fclose'' [] (plain 0) e s))"

text \<open>
  A virtual stream is reopened in place: its buffer is freed, the EFILE zeroed and set up again.
\<close>

definition reopen_virtual :: "'w vfs_env \<Rightarrow> cptr \<Rightarrow> cptr \<Rightarrow> nat \<Rightarrow> ('w, 'z) vfs_scheme
    \<Rightarrow> (stream \<times> ('w, 'z) vfs_scheme) option" where
  "reopen_virtual env path mode p s =
     (let fd = mp_fd_of p (fds s);
          s = (if fd \<noteq> - 1 then let (_, s) = mp_fd_unregister env fd s in snd (sysi env ''close'' [CInt fd] s) else s);
          s = put_efile p zero_efile s
      in case (case find_virtual env path s of
                 Some slot \<Rightarrow> if is_file (entry_of env slot) then Some slot else None | None \<Rightarrow> None) of
           Some slot \<Rightarrow>
             if mp_mode_writes mode then do { s \<leftarrow> free_efile p (s\<lparr>errno := EROFS\<rparr>); Some (Null, s) }
             else (case mp_efile_init_virtual (v_img env) (v_win env) (v_mem env (world s) 0) slot zero_efile of
                     Inr e \<Rightarrow> Some (Efile p, put_efile p e s)
                   | Inl x \<Rightarrow> do { s \<leftarrow> free_efile p (s\<lparr>errno := x\<rparr>); Some (Null, s) })
         | None \<Rightarrow>
             let (f, s) = sysi env ''fopen'' [CStr path, CStr mode] s in
             if f = 0 then do { s \<leftarrow> free_efile p s; Some (Null, s) }
             else Some (Efile p, put_efile p (zero_efile\<lparr>handle_type := EHANDLE_NATIVE, fptr := Some (nat f)\<rparr>) s))"

definition mp_freopen :: "'w vfs_env \<Rightarrow> cptr \<Rightarrow> cptr \<Rightarrow> stream \<Rightarrow> ('w, 'z) vfs_scheme
    \<Rightarrow> (stream \<times> ('w, 'z) vfs_scheme) option" where
  "mp_freopen env path mode e s =
     (case e of
        Efile p \<Rightarrow> do {
          ef \<leftarrow> heap s p;
          case handle_type ef of
            EHANDLE_NONE \<Rightarrow> None
          | EHANDLE_NATIVE \<Rightarrow> do {
              f \<leftarrow> fptr ef;
              let (f, s) = sysi env ''freopen'' [CStr path, CStr mode, CInt (int f)] s;
              if f = 0 then do { s \<leftarrow> free_efile p s; Some (Null, s) }
              else Some (Efile p, put_efile p (ef\<lparr>fptr := Some (nat f)\<rparr>) s) }
          | EHANDLE_VIRTUAL \<Rightarrow>
              if path = None then
                if \<not> mp_mode_writes mode then Some (Efile p, s)
                else do { (_, s) \<leftarrow> mp_fclose env (Efile p) s; Some (Null, s\<lparr>errno := EROFS\<rparr>) }
              else reopen_virtual env path mode p s }
      | _ \<Rightarrow> map_option (\<lambda>((v, _), s). (libc_stream v, s))
               (on_stream env ''freopen'' [CStr path, CStr mode] (plain 0) e s))"

subsection \<open>The linker hooks\<close>

text \<open>
  Code that was not compiled against the header gets a real FILE over a registered fd, and its fd-level
  calls come here.
\<close>

definition mp_lookup_virtual_fd :: "int \<Rightarrow> ('w, 'z) vfs_scheme \<Rightarrow> (nat \<times> efile) option option" where
  "mp_lookup_virtual_fd fd s =
     (case virtual_fd s fd of None \<Rightarrow> Some None
      | Some p \<Rightarrow> do { e \<leftarrow> heap s p; Some (if handle_type e = EHANDLE_VIRTUAL then Some (p, e) else None) })"

definition wrap_fopen :: "'w vfs_env \<Rightarrow> cptr \<Rightarrow> cptr \<Rightarrow> ('w, 'z) vfs_scheme
    \<Rightarrow> (stream \<times> ('w, 'z) vfs_scheme) option" where
  "wrap_fopen env path mode s =
     (case (case find_virtual env path s of
              Some slot \<Rightarrow> if is_file (entry_of env slot) then Some slot else None | None \<Rightarrow> None) of
        None \<Rightarrow> let (f, s) = sysi env ''fopen'' [CStr path, CStr mode] s in Some (libc_stream f, s)
      | Some slot \<Rightarrow>
          if mp_mode_writes mode then Some (Null, s\<lparr>errno := EROFS\<rparr>)
          else case open_efile env slot s of
            (None, s) \<Rightarrow> Some (Null, s)
          | (Some e, s) \<Rightarrow>
            let (fakefd, s) = sysi env ''open'' [CStr (Some ''/dev/null''), CInt 0] s in
            if fakefd < 0 then do { s \<leftarrow> mp_efile_destroy (Some e) s; Some (Null, s) }
            else case mp_fd_register env fakefd e s of
              (False, s) \<Rightarrow>
                let (_, s) = sysi env ''close'' [CInt fakefd] s
                in do { s \<leftarrow> mp_efile_destroy (Some e) s; Some (Null, s) }
            | (True, s) \<Rightarrow>
                let (f, s) = sysi env ''fdopen'' [CInt fakefd, CStr (Some ''rb'')] s in
                if f = 0 then
                  let (_, s) = mp_fd_unregister env fakefd s;
                      (_, s) = sysi env ''close'' [CInt fakefd] s
                  in do { s \<leftarrow> mp_efile_destroy (Some e) s; Some (Null, s) }
                else Some (Libc (nat f), s))"

definition wrap_read :: "'w vfs_env \<Rightarrow> int \<Rightarrow> nat \<Rightarrow> ('w, 'z) vfs_scheme \<Rightarrow> (ret \<times> ('w, 'z) vfs_scheme) option" where
  "wrap_read env fd n s = do {
     e \<leftarrow> mp_lookup_virtual_fd fd s;
     case e of
       None \<Rightarrow> Some (sys env ''read'' [CInt fd, CInt (int n)] s)
     | Some (p, e) \<Rightarrow>
         let avail = mp_avail e; to_read = (if n < avail then n else avail) in
         if to_read = 0 then Some ((0, []), s)
         else let bs = bytes_here to_read e
              in Some ((int to_read, bs), put_efile p (e\<lparr>pos := pos e + int to_read\<rparr>) s) }"

definition wrap_lseek :: "'w vfs_env \<Rightarrow> int \<Rightarrow> int \<Rightarrow> int \<Rightarrow> ('w, 'z) vfs_scheme
    \<Rightarrow> (int \<times> ('w, 'z) vfs_scheme) option" where
  "wrap_lseek env fd offset whence s = do {
     e \<leftarrow> mp_lookup_virtual_fd fd s;
     case e of
       None \<Rightarrow> Some (sysi env ''lseek'' [CInt fd, CInt offset, CInt whence] s)
     | Some (p, e) \<Rightarrow>
         (case mp_virtual_seek (v_win env) offset whence e of
            (None, e) \<Rightarrow> fail_with EINVAL (put_efile p e s)
          | (Some t, e) \<Rightarrow> Some (t, put_efile p e s)) }"

definition wrap_close :: "'w vfs_env \<Rightarrow> int \<Rightarrow> ('w, 'z) vfs_scheme \<Rightarrow> (int \<times> ('w, 'z) vfs_scheme) option" where
  "wrap_close env fd s =
     (let (e, s) = mp_fd_unregister env fd s; (r, s) = sysi env ''close'' [CInt fd] s
      in do { s \<leftarrow> mp_efile_destroy e s; Some (r, s) })"

definition wrap_fclose :: "'w vfs_env \<Rightarrow> stream \<Rightarrow> ('w, 'z) vfs_scheme \<Rightarrow> (int \<times> ('w, 'z) vfs_scheme) option" where
  "wrap_fclose env f s =
     (let (fd, s) = (if f = Null then (- 1, s) else sysi env ''fileno'' [stream_arg f] s);
          (e, s) = mp_fd_unregister env fd s;
          (r, s) = sysi env ''fclose'' [stream_arg f] s
      in do { s \<leftarrow> mp_efile_destroy e s; Some (r, s) })"

end
