(* ===== verification/Vfs_Inv.thy ===== *)
theory Vfs_Inv
  imports Vfs_Stdio
begin

text \<open>
  The invariant of the POSIX state: which EFILEs are allocated, who holds them, and which fds stand for
  them. \<open>held\<close> are the EFILEs the program holds a stream for; an allocated EFILE is held or registered,
  and nothing else is allocated, so that a break of the invariant is a leak, a dangling pointer or an fd
  that answers for the wrong file.
\<close>

subsection \<open>What the kernel promises\<close>

text \<open>
  \<open>opened\<close> are the fds the program owns. Calls that open or duplicate return a number it does not own,
  \<^verbatim>\<open>dup2\<close> and \<^verbatim>\<open>dup3\<close> make it own their second argument, \<^verbatim>\<open>close\<close> and \<^verbatim>\<open>fdopen\<close> take an fd away, and no
  other call changes the set.
\<close>

definition opens_fd :: "string \<Rightarrow> carg list \<Rightarrow> bool" where
  "opens_fd name args \<longleftrightarrow> name = ''open'' \<or> name = ''openat'' \<or> name = ''dup''
     \<or> name = ''fcntl'' \<and> length args = 3 \<and> args ! 1 \<in> {CInt F_DUPFD, CInt F_DUPFD_CLOEXEC}"

definition neutral :: "string \<Rightarrow> carg list \<Rightarrow> bool" where
  "neutral name args \<longleftrightarrow> \<not> opens_fd name args \<and> name \<noteq> ''close'' \<and> name \<noteq> ''dup2'' \<and> name \<noteq> ''dup3''
     \<and> name \<noteq> ''fdopen''"

definition kernel_laws :: "'w vfs_env \<Rightarrow> ('w \<Rightarrow> int set) \<Rightarrow> bool" where
  "kernel_laws env opened \<longleftrightarrow>
     (\<forall>name args w. neutral name args \<longrightarrow> opened (snd (v_sys env name args w)) = opened w)
     \<and> (\<forall>name args w. opens_fd name args \<longrightarrow> (case v_sys env name args w of (r, w') \<Rightarrow>
          - 1 \<le> rval r \<and> (if rval r < 0 then opened w' = opened w
             else rval r \<notin> opened w \<and> opened w' = insert (rval r) (opened w))))
     \<and> (\<forall>name fd fd2 fl w. name = ''dup2'' \<or> name = ''dup3'' \<longrightarrow>
          (case v_sys env name (CInt fd # CInt fd2 # fl) w of (r, w') \<Rightarrow>
             opened w' = (if rval r < 0 then opened w else insert fd2 (opened w))
             \<and> (rval r \<ge> 0 \<longrightarrow> fd2 \<ge> 0)))
     \<and> (\<forall>fd w. opened (snd (v_sys env ''close'' [CInt fd] w)) = opened w - {fd})
     \<and> (\<forall>fd mode w. opened w - {fd} \<subseteq> opened (snd (v_sys env ''fdopen'' [CInt fd, mode] w))
          \<and> opened (snd (v_sys env ''fdopen'' [CInt fd, mode] w)) \<subseteq> opened w)"

lemma kernelD:
  assumes "kernel_laws env opened"
  shows "neutral name args \<Longrightarrow> opened (snd (v_sys env name args w)) = opened w"
    and "opens_fd name args \<Longrightarrow> case v_sys env name args w of (r, w') \<Rightarrow>
          - 1 \<le> rval r \<and> (if rval r < 0 then opened w' = opened w
             else rval r \<notin> opened w \<and> opened w' = insert (rval r) (opened w))"
    and "name = ''dup2'' \<or> name = ''dup3'' \<Longrightarrow> case v_sys env name (CInt fd # CInt fd2 # fl) w of (r, w') \<Rightarrow>
             opened w' = (if rval r < 0 then opened w else insert fd2 (opened w)) \<and> (rval r \<ge> 0 \<longrightarrow> fd2 \<ge> 0)"
    and "opened (snd (v_sys env ''close'' [CInt fd] w)) = opened w - {fd}"
    and "opened w - {fd} \<subseteq> opened (snd (v_sys env ''fdopen'' [CInt fd, mode] w))"
    and "opened (snd (v_sys env ''fdopen'' [CInt fd, mode] w)) \<subseteq> opened w"
proof -
  note k = assms [unfolded kernel_laws_def]
  note k2 = conjunct2 [OF k] note k3 = conjunct2 [OF k2] note k4 = conjunct2 [OF k3]
  note k5 = conjunct2 [OF k4, rule_format]
  show "neutral name args \<Longrightarrow> opened (snd (v_sys env name args w)) = opened w"
    by (rule conjunct1 [OF k, rule_format])
  show "opens_fd name args \<Longrightarrow> case v_sys env name args w of (r, w') \<Rightarrow>
          - 1 \<le> rval r \<and> (if rval r < 0 then opened w' = opened w
             else rval r \<notin> opened w \<and> opened w' = insert (rval r) (opened w))"
    by (rule conjunct1 [OF k2, rule_format])
  show "name = ''dup2'' \<or> name = ''dup3'' \<Longrightarrow> case v_sys env name (CInt fd # CInt fd2 # fl) w of (r, w') \<Rightarrow>
             opened w' = (if rval r < 0 then opened w else insert fd2 (opened w)) \<and> (rval r \<ge> 0 \<longrightarrow> fd2 \<ge> 0)"
    by (rule conjunct1 [OF k3, rule_format])
  show "opened (snd (v_sys env ''close'' [CInt fd] w)) = opened w - {fd}"
    by (rule conjunct1 [OF k4, rule_format])
  show "opened w - {fd} \<subseteq> opened (snd (v_sys env ''fdopen'' [CInt fd, mode] w))"
    by (rule conjunct1 [OF k5])
  show "opened (snd (v_sys env ''fdopen'' [CInt fd, mode] w)) \<subseteq> opened w"
    by (rule conjunct2 [OF k5])
qed

subsection \<open>The invariant\<close>

lemma ran_remove:
  assumes "inj_on m (dom m)" "m a = Some b"
  shows "ran (m(a := None)) = ran m - {b}"
proof (intro set_eqI iffI)
  fix x
  assume "x \<in> ran (m(a := None))"
  then obtain c where c: "c \<noteq> a" "m c = Some x" by (auto simp: ran_def split: if_splits)
  with inj_onD [OF assms(1), of c a] assms(2) have "x \<noteq> b" by auto
  with c show "x \<in> ran m - {b}" by (auto intro: ranI)
next
  fix x
  assume "x \<in> ran m - {b}"
  then obtain c where c: "m c = Some x" "x \<noteq> b" by (auto simp: ran_def)
  with assms(2) have "(m(a := None)) c = Some x" by auto
  then show "x \<in> ran (m(a := None))" by (rule ranI)
qed

definition efile_good :: "efile \<Rightarrow> bool" where
  "efile_good e \<longleftrightarrow> (case handle_type e of EHANDLE_NONE \<Rightarrow> False
     | EHANDLE_NATIVE \<Rightarrow> fptr e \<noteq> None | EHANDLE_VIRTUAL \<Rightarrow> efile_ok e)"

lemma efile_ok_good: "efile_ok e \<Longrightarrow> efile_good e"
  by (simp add: efile_good_def efile_ok_def)

definition fd_map :: "('w, 'z) vfs_scheme \<Rightarrow> int \<Rightarrow> nat option" where
  "fd_map s fd = virtual_fd s fd"

definition inv :: "('w \<Rightarrow> int set) \<Rightarrow> nat set \<Rightarrow> ('w, 'z) vfs_scheme \<Rightarrow> bool" where
  "inv opened held s \<longleftrightarrow> fdtable_ok (fds s) \<and> dom (fd_map s) \<subseteq> opened (world s)
     \<and> inj_on (fd_map s) (dom (fd_map s)) \<and> (\<forall>p \<in> ran (fd_map s). \<exists>e. heap s p = Some e \<and> efile_ok e)
     \<and> (\<forall>p e. heap s p = Some e \<longrightarrow> p < brk s \<and> efile_good e)
     \<and> dom (heap s) = held \<union> ran (fd_map s)"

lemma invD:
  assumes "inv opened held s"
  shows "fdtable_ok (fds s)" "dom (fd_map s) \<subseteq> opened (world s)" "inj_on (fd_map s) (dom (fd_map s))"
    and "virtual_fd s fd = Some p \<Longrightarrow> fd \<in> opened (world s)"
    and "virtual_fd s fd = Some p \<Longrightarrow> \<exists>e. heap s p = Some e \<and> efile_ok e"
    and "virtual_fd s fd = Some p \<Longrightarrow> virtual_fd s fd' = Some p \<Longrightarrow> fd = fd'"
    and "heap s p = Some e \<Longrightarrow> p < brk s" and "heap s p = Some e \<Longrightarrow> efile_good e"
    and "dom (heap s) = held \<union> ran (fd_map s)"
proof -
  note i = assms [unfolded inv_def]
  show 1: "fdtable_ok (fds s)" "dom (fd_map s) \<subseteq> opened (world s)" "inj_on (fd_map s) (dom (fd_map s))"
    "dom (heap s) = held \<union> ran (fd_map s)" using i by simp_all
  show "heap s p = Some e \<Longrightarrow> p < brk s" "heap s p = Some e \<Longrightarrow> efile_good e" using i by simp_all
  show "virtual_fd s fd = Some p \<Longrightarrow> fd \<in> opened (world s)" using 1(2) by (auto simp: fd_map_def)
  show "virtual_fd s fd = Some p \<Longrightarrow> \<exists>e. heap s p = Some e \<and> efile_ok e"
    using i by (auto simp: fd_map_def ran_def)
  show "virtual_fd s fd = Some p \<Longrightarrow> virtual_fd s fd' = Some p \<Longrightarrow> fd = fd'"
    using inj_onD [OF 1(3), of fd fd'] by (simp add: fd_map_def dom_def)
qed

lemma inv_held: "inv opened held s \<Longrightarrow> p \<in> held \<Longrightarrow> \<exists>e. heap s p = Some e \<and> efile_good e"
proof -
  assume i: "inv opened held s" and "p \<in> held"
  with invD(9) [OF i] have "p \<in> dom (heap s)" by simp
  with invD(8) [OF i, of p] show ?thesis by auto
qed

lemma fd_map_cong: "fds s' = fds s \<Longrightarrow> fd_map s' = fd_map s"
  by (simp add: fd_map_def fun_eq_iff)

lemma not_registered: "p \<notin> ran (fd_map s) \<longleftrightarrow> (\<forall>fd. virtual_fd s fd \<noteq> Some p)"
  by (simp add: fd_map_def ran_def)

text \<open>Parts of the state the invariant does not mention.\<close>

lemma inv_same:
  assumes "inv opened held s" "fds s' = fds s" "heap s' = heap s" "brk s' = brk s"
    and "opened (world s') = opened (world s)"
  shows "inv opened held s'"
  using assms fd_map_cong [OF assms(2)] by (simp add: inv_def)

lemma inv_more_open:
  assumes "inv opened held s" "fds s' = fds s" "heap s' = heap s" "brk s' = brk s"
    and "\<And>fd. virtual_fd s fd \<noteq> None \<Longrightarrow> fd \<in> opened (world s) \<Longrightarrow> fd \<in> opened (world s')"
  shows "inv opened held s'"
proof -
  have "dom (fd_map s) \<subseteq> opened (world s')" using assms(5) invD(2) [OF assms(1)] by (auto simp: fd_map_def)
  with assms fd_map_cong [OF assms(2)] show ?thesis by (simp add: inv_def)
qed

lemma fd_map_errno [simp]: "fd_map (s\<lparr>errno := x\<rparr>) = fd_map s"
  by (simp add: fd_map_def fun_eq_iff)

lemma inv_errno [simp]: "inv opened held (s\<lparr>errno := x\<rparr>) = inv opened held s"
  by (simp add: inv_def)

text \<open>A registered EFILE need not be held.\<close>

lemma inv_drop: "inv opened (insert p held) s \<Longrightarrow> virtual_fd s fd = Some p \<Longrightarrow> inv opened held s"
  unfolding inv_def fd_map_def by (auto intro: ranI)

lemma inv_hold: "inv opened held s \<Longrightarrow> virtual_fd s fd = Some p \<Longrightarrow> inv opened (insert p held) s"
  unfolding inv_def fd_map_def by (auto intro: ranI)

subsection \<open>The basic steps\<close>

lemma sys_fields:
  "sys env name args s = (r, s') \<Longrightarrow> fds s' = fds s \<and> heap s' = heap s \<and> brk s' = brk s
     \<and> world s' = snd (v_sys env name args (world s)) \<and> fst r = rval (fst (v_sys env name args (world s)))"
  by (auto simp: sys_def split: prod.splits)

lemma sysi_fields:
  "sysi env name args s = (r, s') \<Longrightarrow> fds s' = fds s \<and> heap s' = heap s \<and> brk s' = brk s
     \<and> world s' = snd (v_sys env name args (world s)) \<and> r = rval (fst (v_sys env name args (world s)))"
  by (auto simp: sysi_def sys_def split: prod.splits)

lemma sys_neutral:
  assumes "sys env name args s = (r, s')" "kernel_laws env opened" "neutral name args" "inv opened held s"
  shows "inv opened held s'"
  using assms sys_fields [OF assms(1)] by (intro inv_same [OF assms(4)]) (simp_all add: kernelD(1))

lemma sysi_neutral:
  assumes "sysi env name args s = (r, s')" "kernel_laws env opened" "neutral name args" "inv opened held s"
  shows "inv opened held s'"
  using assms sysi_fields [OF assms(1)] by (intro inv_same [OF assms(4)]) (simp_all add: kernelD(1))

lemma sysi_opening:
  assumes "sysi env name args s = (fd, s')" "kernel_laws env opened" "opens_fd name args" "inv opened held s"
  shows "inv opened held s'" "- 1 \<le> fd" "0 \<le> fd \<Longrightarrow> fd \<in> opened (world s') \<and> virtual_fd s' fd = None"
    "heap s' = heap s" "fds s' = fds s" "brk s' = brk s"
proof -
  note f = sysi_fields [OF assms(1)]
  obtain r w where rw: "v_sys env name args (world s) = (r, w)" by fastforce
  from kernelD(2) [OF assms(2,3), of "world s"] f rw have law: "- 1 \<le> fd" "if fd < 0 then opened (world s') = opened (world s)
      else fd \<notin> opened (world s) \<and> opened (world s') = insert fd (opened (world s))" by auto
  show "- 1 \<le> fd" "heap s' = heap s" "fds s' = fds s" "brk s' = brk s" using law f by auto
  show "inv opened held s'"
    using law f by (intro inv_more_open [OF assms(4)]) (auto split: if_splits)
  show "fd \<in> opened (world s') \<and> virtual_fd s' fd = None" if "0 \<le> fd"
    using law that f invD(4) [OF assms(4), of fd] by (cases "virtual_fd s fd") auto
qed

lemma sysi_close:
  assumes "sysi env ''close'' [CInt fd] s = (r, s')" "kernel_laws env opened" "inv opened held s"
    and "virtual_fd s fd = None"
  shows "inv opened held s'"
proof -
  note f = sysi_fields [OF assms(1)]
  have o: "opened (world s') = opened (world s) - {fd}"
    using kernelD(4) [OF assms(2), of fd "world s"] f by simp
  show ?thesis
  proof (rule inv_more_open [OF assms(3)])
    show "x \<in> opened (world s')" if "virtual_fd s x \<noteq> None" "x \<in> opened (world s)" for x
      using that assms(4) o by (cases "x = fd") simp_all
  qed (simp_all add: f)
qed

text \<open>Allocation.\<close>

lemma new_efile_inv:
  assumes "inv opened held s" "efile_good e" "new_efile e s = (p, s')"
  shows "inv opened (insert p held) s'" "heap s' p = Some e" "p \<notin> held" "\<And>fd. virtual_fd s' fd \<noteq> Some p"
    "fds s' = fds s" "world s' = world s" "\<And>q. q \<noteq> p \<Longrightarrow> heap s' q = heap s q"
proof -
  have "brk s \<notin> dom (heap s)" using invD(7) [OF assms(1), of "brk s"] by (cases "heap s (brk s)") auto
  then have free: "brk s \<notin> held" "brk s \<notin> ran (fd_map s)" using invD(9) [OF assms(1)] by auto
  have s': "p = brk s" "heap s' = (heap s)(brk s \<mapsto> e)" "brk s' = brk s + 1" "fds s' = fds s" "world s' = world s"
    using assms(3) by (auto simp: new_efile_def)
  note m = fd_map_cong [OF s'(4)]
  show "heap s' p = Some e" "p \<notin> held" "fds s' = fds s" "world s' = world s"
    "\<And>q. q \<noteq> p \<Longrightarrow> heap s' q = heap s q"
    using s' free by simp_all
  show "\<And>fd. virtual_fd s' fd \<noteq> Some p" using free(2) s'(1) not_registered [of p s'] by (simp add: m)
  have "\<forall>q \<in> ran (fd_map s). \<exists>e. heap s' q = Some e \<and> efile_ok e"
    using assms(1) free s'(2) unfolding inv_def by auto
  then show "inv opened (insert p held) s'"
    using invD(1-3,9) [OF assms(1)] invD(7,8) [OF assms(1)] assms(2) s' unfolding inv_def m
    by (auto simp: less_Suc_eq)
qed

lemma init_virtual_good:
  "mp_efile_init_virtual img False mem slot zero_efile = Inr e \<Longrightarrow> efile_ok e \<and> efile_good e"
  using init_virtual_ok by (blast intro: efile_ok_good)

lemma open_efile_inv:
  assumes "inv opened held s" "\<not> v_win env" "open_efile env slot s = (p, s')"
  shows "case p of None \<Rightarrow> inv opened held s' \<and> fds s' = fds s \<and> heap s' = heap s
     | Some p \<Rightarrow> inv opened (insert p held) s' \<and> (\<exists>e. heap s' p = Some e \<and> efile_ok e)
         \<and> p \<notin> held \<and> (\<forall>fd. virtual_fd s' fd \<noteq> Some p) \<and> fds s' = fds s"
proof (cases "v_mem env (world s) 0 \<and>
    (\<exists>e. mp_efile_init_virtual (v_img env) False (v_mem env (world s) 1) slot zero_efile = Inr e)")
  case True
  then obtain e where e: "mp_efile_init_virtual (v_img env) False (v_mem env (world s) 1) slot zero_efile = Inr e"
    and m: "v_mem env (world s) 0" by blast
  obtain q s1 where n: "new_efile e s = (q, s1)" by fastforce
  with e m assms(2,3) have "p = Some q" "s' = s1" by (auto simp: open_efile_def)
  with new_efile_inv [OF assms(1) _ n] init_virtual_good [OF e] show ?thesis by auto
next
  case False
  then have "p = None \<and> (\<exists>x. s' = s\<lparr>errno := x\<rparr>)"
    using assms(2,3) by (auto simp: open_efile_def split: if_splits sum.splits prod.splits)
  with assms(1) show ?thesis by auto
qed

lemma free_efile_inv:
  assumes "inv opened (insert p held) s" "p \<notin> held" "\<And>fd. virtual_fd s fd \<noteq> Some p"
  shows "\<exists>s'. free_efile p s = Some s' \<and> inv opened held s' \<and> fds s' = fds s \<and> world s' = world s
    \<and> errno s' = errno s \<and> (\<forall>q. q \<noteq> p \<longrightarrow> heap s' q = heap s q)"
proof -
  from inv_held [OF assms(1), of p] obtain e where e: "heap s p = Some e" by auto
  let ?s = "s\<lparr>heap := (heap s)(p := None)\<rparr>"
  have m: "fd_map ?s = fd_map s" by (rule fd_map_cong) simp
  have "p \<notin> ran (fd_map s)" using assms(3) by (simp add: not_registered)
  then have "inv opened held ?s" using assms(1,2) unfolding inv_def m by auto
  with e show ?thesis by (intro exI [of _ ?s]) (simp add: free_efile_def)
qed

lemma put_efile_inv:
  assumes "inv opened held s" "heap s p = Some e" "efile_ok e'"
  shows "inv opened held (put_efile p e' s)"
proof -
  have m: "fd_map (put_efile p e' s) = fd_map s" by (rule fd_map_cong) (simp add: put_efile_def)
  have "insert p (dom (heap s)) = dom (heap s)" using assms(2) by auto
  with assms efile_ok_good [OF assms(3)] show ?thesis unfolding inv_def m by (auto simp: put_efile_def)
qed

text \<open>Registration.\<close>

lemma register_inv:
  assumes "inv opened held s" "\<not> v_win env" "mp_fd_register env fd p s = (ok, s')"
    and "0 \<le> fd" "virtual_fd s fd = None" "fd \<in> opened (world s)" "\<And>x. virtual_fd s x \<noteq> Some p"
    and "heap s p = Some e" "efile_ok e"
  shows "inv opened held s'" "heap s' = heap s" "world s' = world s"
    and "ok \<Longrightarrow> virtual_fd s' fd = Some p" and "ok \<Longrightarrow> errno s' = errno s"
    and "\<not> ok \<Longrightarrow> fds s' = fds s \<and> card (dom (virtual_fd s)) = REGISTRY_SLOTS"
proof -
  note ok = invD(1) [OF assms(1)]
  have "(case fd_register fd p (fds s) of None \<Rightarrow> (False, s\<lparr>errno := EMFILE\<rparr>)
    | Some tab \<Rightarrow> (True, s\<lparr>fds := tab, handles := handles s\<rparr>)) = (ok, s')"
    using assms(2,3) by (simp add: mp_fd_register_def cong: option.case_cong)
  then consider (full) "fd_register fd p (fds s) = None" "\<not> ok" "s' = s\<lparr>errno := EMFILE\<rparr>"
    | (filed) tab where "fd_register fd p (fds s) = Some tab" "ok" "s' = s\<lparr>fds := tab\<rparr>"
    by (auto split: option.splits)
  then have "inv opened held s' \<and> heap s' = heap s \<and> world s' = world s \<and> (ok \<longrightarrow> virtual_fd s' fd = Some p)
     \<and> (ok \<longrightarrow> errno s' = errno s) \<and> (\<not> ok \<longrightarrow> fds s' = fds s \<and> card (dom (virtual_fd s)) = REGISTRY_SLOTS)"
  proof cases
    case full
    with assms(1) fd_register_full [OF ok, of fd p] show ?thesis by simp
  next
    case (filed tab)
    note reg = fd_register_ok [OF ok assms(4,5) filed(1)]
    have m: "fd_map s' = (fd_map s)(fd \<mapsto> p)" using reg(3) filed(3) by (simp add: fd_map_def fun_eq_iff)
    have new: "fd_map s fd = None" "p \<notin> ran (fd_map s)" using assms(5,7) by (simp_all add: not_registered, simp add: fd_map_def)
    have "p \<in> held" using assms(8) new(2) invD(9) [OF assms(1)] by auto
    then have "inv opened held s'"
      using assms(1,6,8,9) reg(1) filed(3) new unfolding inv_def m
      by (auto simp: inj_on_def dom_def ran_map_upd) (metis ranI)+
    moreover have "virtual_fd s' fd = Some p" using fun_cong [OF m, of fd] by (simp add: fd_map_def)
    ultimately show ?thesis using filed by simp
  qed
  then show "inv opened held s'" "heap s' = heap s" "world s' = world s"
    and "ok \<Longrightarrow> virtual_fd s' fd = Some p" and "ok \<Longrightarrow> errno s' = errno s"
    and "\<not> ok \<Longrightarrow> fds s' = fds s \<and> card (dom (virtual_fd s)) = REGISTRY_SLOTS" by blast+
qed

lemma unregister_inv:
  assumes "inv opened held s" "\<not> v_win env" "mp_fd_unregister env fd s = (p, s')"
  shows "p = virtual_fd s fd" "virtual_fd s' fd = None" "heap s' = heap s" "world s' = world s" "brk s' = brk s"
    and "errno s' = errno s" and "p = None \<Longrightarrow> inv opened held s'"
    and "p = Some q \<Longrightarrow> inv opened (insert q held) s' \<and> (\<forall>x. virtual_fd s' x \<noteq> Some q)"
    and "x \<noteq> fd \<Longrightarrow> virtual_fd s' x = virtual_fd s x"
proof -
  note ok = invD(1) [OF assms(1)]
  obtain tab where u: "fd_unregister fd (fds s) = (virtual_fd s fd, tab)"
    using fd_unregister_fst [of fd "fds s"] by (cases "fd_unregister fd (fds s)") auto
  then have s': "p = virtual_fd s fd" "s' = s\<lparr>fds := tab\<rparr>"
    using assms(2,3) by (auto simp: mp_fd_unregister_def split: option.splits)
  have look: "mp_fd_lookup x tab = (if x = fd then None else virtual_fd s x)" for x
    using fun_cong [OF fd_unregister_ok(2) [OF ok, of fd], of x] u by simp
  have tok: "fdtable_ok tab" using fd_unregister_ok(1) [OF ok, of fd] u by simp
  show "p = virtual_fd s fd" "virtual_fd s' fd = None" "heap s' = heap s" "world s' = world s" "brk s' = brk s"
    "errno s' = errno s" "x \<noteq> fd \<Longrightarrow> virtual_fd s' x = virtual_fd s x"
    using s' look by simp_all
  have m: "fd_map s' = (fd_map s)(fd := None)" using s'(2) look by (simp add: fd_map_def fun_eq_iff)
  show "inv opened held s'" if "p = None"
  proof -
    have "fd_map s' = fd_map s" using m that s'(1) by (simp add: fd_map_def fun_upd_idem)
    with assms(1) tok s'(2) show ?thesis by (simp add: inv_def)
  qed
  show "inv opened (insert q held) s' \<and> (\<forall>x. virtual_fd s' x \<noteq> Some q)" if q: "p = Some q"
  proof -
    have fd: "fd_map s fd = Some q" using q s'(1) by (simp add: fd_map_def)
    then have "ran (fd_map s') = ran (fd_map s) - {q}"
      unfolding m by (rule ran_remove [OF invD(3) [OF assms(1)]])
    moreover have "q \<in> ran (fd_map s)" using fd by (rule ranI)
    moreover have "dom (fd_map s') \<subseteq> dom (fd_map s)" "inj_on (fd_map s') (dom (fd_map s'))"
      using invD(3) [OF assms(1)] unfolding m by (auto simp: inj_on_def dom_def split: if_splits)
    ultimately show ?thesis
      using assms(1) tok s'(2) unfolding inv_def not_registered [symmetric] by auto
  qed
qed

end
