(* ===== verification/Vfs_Safe.thy ===== *)
theory Vfs_Safe
  imports Vfs_Inv
begin

text \<open>
  Every call on fds and streams keeps the invariant and never touches a freed EFILE, whatever its arguments
  are, as long as the program does not close behind the back of a stream it still uses.
\<close>

subsection \<open>Total correctness\<close>

definition returns :: "('a \<times> 's) option \<Rightarrow> ('a \<Rightarrow> 's \<Rightarrow> bool) \<Rightarrow> bool" where
  "returns r Q \<longleftrightarrow> (case r of None \<Rightarrow> False | Some (a, s) \<Rightarrow> Q a s)"

lemma returns_Some [simp]: "returns (Some (a, s)) Q = Q a s"
  by (simp add: returns_def)

lemma returns_bind:
  "returns m Q' \<Longrightarrow> (\<And>a s. Q' a s \<Longrightarrow> returns (f (a, s)) Q) \<Longrightarrow> returns (Option.bind m f) Q"
  by (cases m) (auto simp: returns_def)

lemma returns_mono: "returns m Q' \<Longrightarrow> (\<And>a s. Q' a s \<Longrightarrow> Q a s) \<Longrightarrow> returns m Q"
  by (auto simp: returns_def split: option.splits)

lemma returnsE: "returns m Q \<Longrightarrow> (\<And>a s. m = Some (a, s) \<Longrightarrow> Q a s \<Longrightarrow> thesis) \<Longrightarrow> thesis"
  by (cases m) (auto simp: returns_def)

lemma returns_fail [simp]: "returns (fail_with x s) Q = Q (- 1) (s\<lparr>errno := x\<rparr>)"
  by (simp add: fail_with_def)

text \<open>The setting of all proofs: the POSIX build on a kernel that keeps its promises.\<close>

definition posix :: "'w vfs_env \<Rightarrow> ('w \<Rightarrow> int set) \<Rightarrow> bool" where
  "posix env opened \<longleftrightarrow> \<not> v_win env \<and> kernel_laws env opened"

lemma posixD: "posix env opened \<Longrightarrow> \<not> v_win env" "posix env opened \<Longrightarrow> kernel_laws env opened"
  by (simp_all add: posix_def)

lemma neutral_simps [simp]:
  "neutral ''read'' a" "neutral ''pread'' a" "neutral ''lseek'' a" "neutral ''readv'' a" "neutral ''preadv'' a"
  "neutral ''preadv2'' a" "neutral ''mmap'' a" "neutral ''munmap'' a" "neutral ''mprotect'' a"
  "neutral ''sysconf'' a" "neutral ''pwrite'' a" "neutral ''writev'' a" "neutral ''pwritev'' a"
  "neutral ''pwritev2'' a" "neutral ''fopen'' a" "neutral ''fclose'' a" "neutral ''fileno'' a"
  "opens_fd ''open'' a" "opens_fd ''openat'' a" "opens_fd ''dup'' a"
  by (simp_all add: neutral_def opens_fd_def)

lemma returns_sysi:
  assumes "posix env opened" "neutral name args" "inv opened held s"
  shows "returns (Some (sysi env name args s)) (\<lambda>_ s'. inv opened held s' \<and> fds s' = fds s \<and> heap s' = heap s)"
proof -
  obtain r s' where e: "sysi env name args s = (r, s')" by fastforce
  with sysi_neutral [OF e posixD(2) [OF assms(1)] assms(2,3)] sysi_fields [OF e] show ?thesis by simp
qed

lemma returns_sys:
  assumes "posix env opened" "neutral name args" "inv opened held s"
  shows "returns (Some (sys env name args s)) (\<lambda>_ s'. inv opened held s' \<and> fds s' = fds s \<and> heap s' = heap s)"
proof -
  obtain r s' where e: "sys env name args s = (r, s')" by fastforce
  with sys_neutral [OF e posixD(2) [OF assms(1)] assms(2,3)] sys_fields [OF e] show ?thesis by simp
qed

subsection \<open>Opening\<close>

lemma open_executable_inv:
  assumes "posix env opened" "inv opened held s" "open_executable env flags s = (fd, s')"
  shows "inv opened held s'" "- 1 \<le> fd" "0 \<le> fd \<Longrightarrow> fd \<in> opened (world s') \<and> virtual_fd s' fd = None"
    "heap s' = heap s" "fds s' = fds s" "brk s' = brk s"
  using sysi_opening [OF _ posixD(2) [OF assms(1)] _ assms(2)] assms(3) posixD(1) [OF assms(1)]
  by (simp_all add: open_executable_def)

lemma destroy_fresh:
  assumes "inv opened (insert p held) s" "p \<notin> held" "\<And>fd. virtual_fd s fd \<noteq> Some p"
  obtains s' where "mp_efile_destroy (Some p) s = Some s'" "inv opened held s'" "fds s' = fds s"
    "errno s' = errno s" "world s' = world s"
  using free_efile_inv [OF assms] that by (auto simp: mp_efile_destroy_def)

text \<open>
  \<open>opened_as env held s0 slot fd s\<close>: an open of an entry left an error, or a new fd of a new EFILE of the
  entry, at its start.
\<close>

definition opened_as :: "('w, 'z) vfs_scheme \<Rightarrow> int \<Rightarrow> ('w, 'z) vfs_scheme \<Rightarrow> bool" where
  "opened_as s0 fd s \<longleftrightarrow> fd = - 1 \<and> fds s = fds s0 \<or> 0 \<le> fd \<and> virtual_fd s0 fd = None \<and> virtual_fd s fd \<noteq> None"

lemma open_virtual_fd_inv:
  assumes "posix env opened" "inv opened held s"
  shows "returns (mp_open_virtual_fd env slot flags s) (\<lambda>fd s'. inv opened held s' \<and> opened_as s fd s')"
proof -
  note w = posixD(1) [OF assms(1)] and k = posixD(2) [OF assms(1)]
  obtain e s1 where o: "open_efile env slot s = (e, s1)" by fastforce
  note o1 = open_efile_inv [OF assms(2) w o]
  have "returns (case e of None \<Rightarrow> Some (- 1, s1)
      | Some e \<Rightarrow>
        let (fakefd, s) = open_executable env flags s1 in
        if fakefd < 0 then do { s \<leftarrow> mp_efile_destroy (Some e) s; Some (- 1, s) }
        else case mp_fd_register env fakefd e s of
          (False, s) \<Rightarrow>
            let (_, s) = sysi env ''close'' [CInt fakefd] s
            in do { s \<leftarrow> mp_efile_destroy (Some e) s; fail_with EMFILE s }
        | (True, s) \<Rightarrow> Some (fakefd, s)) (\<lambda>fd s'. inv opened held s' \<and> opened_as s fd s')"
  proof (cases e)
    case None
    with o1 show ?thesis by (simp add: opened_as_def)
  next
    case (Some p)
    from o1 Some obtain ef where i1: "inv opened (insert p held) s1" and h1: "heap s1 p = Some ef" "efile_ok ef"
      and p: "p \<notin> held" "\<And>fd. virtual_fd s1 fd \<noteq> Some p" and f1: "fds s1 = fds s" by auto
    obtain fd s2 where x: "open_executable env flags s1 = (fd, s2)" by fastforce
    note x2 = open_executable_inv [OF assms(1) i1 x]
    have p2: "virtual_fd s2 a \<noteq> Some p" for a using p(2) x2(5) by simp
    show ?thesis
    proof (cases "fd < 0")
      case True
      from destroy_fresh [OF x2(1) p(1) p2] obtain s3 where "mp_efile_destroy (Some p) s2 = Some s3"
        "inv opened held s3" "fds s3 = fds s2" by metis
      with Some True x x2(5) f1 show ?thesis by (simp add: opened_as_def)
    next
      case False
      then have new: "fd \<in> opened (world s2)" "virtual_fd s2 fd = None" "0 \<le> fd" using x2(3) by auto
      obtain ok s3 where r: "mp_fd_register env fd p s2 = (ok, s3)" by fastforce
      note r3 = register_inv [OF x2(1) w r new(3,2,1) p2, of ef]
      have h2: "heap s2 p = Some ef" using x2(4) h1 by simp
      show ?thesis
      proof (cases ok)
        case True
        with r3 h1 h2 have "inv opened (insert p held) s3" "virtual_fd s3 fd = Some p" by auto
        with inv_drop have "inv opened held s3" by blast
        with True Some False x r new \<open>virtual_fd s3 fd = Some p\<close> x2(5) f1 show ?thesis
          by (simp add: opened_as_def)
      next
        case full: False
        with r3 h1 h2 have i3: "inv opened (insert p held) s3" "fds s3 = fds s2" by auto
        obtain c s4 where c: "sysi env ''close'' [CInt fd] s3 = (c, s4)" by fastforce
        have i4: "inv opened (insert p held) s4"
          using sysi_close [OF c k i3(1)] new(2) i3(2) by simp
        have f4: "fds s4 = fds s" using sysi_fields [OF c] i3(2) x2(5) f1 by simp
        have "virtual_fd s4 a \<noteq> Some p" for a using p(2) f4 f1 by simp
        from destroy_fresh [OF i4 p(1) this] obtain s5 where "mp_efile_destroy (Some p) s4 = Some s5"
          "inv opened held s5" "fds s5 = fds s4" by metis
        with full Some False x r c f4 show ?thesis by (simp add: opened_as_def)
      qed
    qed
  qed
  with assms(2) show ?thesis by (simp add: mp_open_virtual_fd_def o opened_as_def)
qed

lemma open_inv:
  assumes "posix env opened" "inv opened held s"
  shows "returns (mp_open env path flags mode s) (\<lambda>fd s'. inv opened held s')"
proof (cases "find_virtual env path s")
  case None
  obtain r s' where e: "sysi env ''open'' [CStr path, CInt flags, CInt mode] s = (r, s')" by fastforce
  with None sysi_opening(1) [OF e posixD(2) [OF assms(1)] _ assms(2)] show ?thesis by (simp add: mp_open_def)
next
  case (Some slot)
  with open_virtual_fd_inv [OF assms, of slot flags] show ?thesis
    by (simp add: mp_open_def) (erule returns_mono, simp)
qed

lemma find_at_inv:
  assumes "inv opened held s"
  shows "returns (mp_find_virtual_at env dirfd path s) (\<lambda>_ s'. inv opened held s' \<and> fds s' = fds s \<and> heap s' = heap s)"
proof (cases "if take 1 path = ''/'' then None else virtual_fd s dirfd")
  case None
  with assms show ?thesis by (simp add: mp_find_virtual_at_def split: option.split)
next
  case (Some p)
  then have "virtual_fd s dirfd = Some p" by (simp split: if_splits)
  from invD(5) [OF assms this] obtain e where "heap s p = Some e" by blast
  with Some assms show ?thesis by (simp add: mp_find_virtual_at_def split: option.split)
qed

lemma openat_inv:
  assumes "posix env opened" "inv opened held s"
  shows "returns (mp_openat env dirfd path flags mode s) (\<lambda>fd s'. inv opened held s')"
proof -
  from find_at_inv [OF assms(2)] obtain found slot s' where
    f: "mp_find_virtual_at env dirfd path s = Some ((found, slot), s')" and i: "inv opened held s'"
    by (rule returnsE) auto
  obtain r s'' where e: "sysi env ''openat'' [CInt dirfd, CStr (Some path), CInt flags, CInt mode] s' = (r, s'')"
    by fastforce
  have "inv opened held s''" using sysi_opening(1) [OF e posixD(2) [OF assms(1)] _ i] by simp
  moreover have "returns (mp_open_virtual_fd env slot flags s') (\<lambda>fd s'. inv opened held s')"
    using open_virtual_fd_inv [OF assms(1) i, of slot flags] by (auto elim: returns_mono)
  ultimately show ?thesis using f i e by (simp add: mp_openat_def)
qed

subsection \<open>Closing and duplicating\<close>

text \<open>Closing an fd is allowed unless the program still uses the stream of the same EFILE.\<close>

definition may_close :: "nat set \<Rightarrow> int \<Rightarrow> ('w, 'z) vfs_scheme \<Rightarrow> bool" where
  "may_close held fd s \<longleftrightarrow> (\<forall>p. virtual_fd s fd = Some p \<longrightarrow> p \<notin> held)"

lemma unregister_ok:
  assumes "posix env opened" "inv opened held s" "mp_fd_unregister env fd s = (Some p, s')"
  obtains e where "inv opened (insert p held) s'" "\<And>x. virtual_fd s' x \<noteq> Some p" "virtual_fd s fd = Some p"
    "virtual_fd s' fd = None" "heap s' p = Some e" "efile_ok e" "\<And>x. x \<noteq> fd \<Longrightarrow> virtual_fd s' x = virtual_fd s x"
    "world s' = world s" "heap s' = heap s"
proof -
  note u = unregister_inv [OF assms(2) posixD(1) [OF assms(1)] assms(3)]
  have v: "virtual_fd s fd = Some p" using u(1) by simp
  from invD(5) [OF assms(2) v] obtain e where "heap s p = Some e" "efile_ok e" by blast
  with u v that show thesis by simp
qed

lemma close_inv:
  assumes "posix env opened" "inv opened held s" "may_close held fd s"
  shows "returns (mp_close env fd s) (\<lambda>r s'. inv opened held s' \<and> virtual_fd s' fd = None)"
proof -
  note k = posixD(2) [OF assms(1)]
  obtain e s1 where u: "mp_fd_unregister env fd s = (e, s1)" by fastforce
  show ?thesis
  proof (cases e)
    case None
    note u1 = unregister_inv [OF assms(2) posixD(1) [OF assms(1)] u]
    obtain r s2 where c: "sysi env ''close'' [CInt fd] s1 = (r, s2)" by fastforce
    with sysi_close [OF c k] u1 None sysi_fields [OF c] u show ?thesis by (simp add: mp_close_def)
  next
    case (Some p)
    from unregister_ok [OF assms(1,2) u [unfolded Some]] obtain ef where
      i1: "inv opened (insert p held) s1" and p1: "\<And>x. virtual_fd s1 x \<noteq> Some p"
      and v: "virtual_fd s fd = Some p" "virtual_fd s1 fd = None" and h: "heap s1 p = Some ef" "efile_ok ef"
      by metis
    have "p \<notin> held" using assms(3) v(1) by (simp add: may_close_def)
    from destroy_fresh [OF i1 this p1] obtain s2 where d: "mp_efile_destroy (Some p) s1 = Some s2"
      "inv opened held s2" "fds s2 = fds s1" by metis
    obtain r s3 where c: "sysi env ''close'' [CInt fd] s2 = (r, s3)" by fastforce
    have "inv opened held s3" using sysi_close [OF c k d(2)] d(3) v(2) by simp
    with u Some h d c v sysi_fields [OF c] show ?thesis by (simp add: mp_close_def efile_ok_def)
  qed
qed

lemma efile_dup_ok:
  assumes "efile_ok src" "mp_efile_dup img False mem src = Inr e"
  shows "efile_ok e"
proof (cases "owned_buf src = None")
  case True
  with assms show ?thesis by (simp add: mp_efile_dup_def split: if_splits)
next
  case False
  with assms(2) obtain e0 where "mp_efile_init_virtual img False (mem 1) (emap_slot src) zero_efile = Inr e0"
    and e: "e = (let at = pos src - ebase src in
      (if at > 0 then snd (mp_virtual_seek False at SEEK_SET e0) else e0)\<lparr>err := err src\<rparr>)"
    by (auto simp: mp_efile_dup_def Let_def split: if_splits sum.splits)
  then have "efile_ok e0" using init_virtual_ok by blast
  with virtual_seek_ok(2) [OF this] e show ?thesis by (simp add: Let_def efile_simps)
qed

lemma adopt_inv:
  assumes "posix env opened" "inv opened held s" "0 \<le> fd" "virtual_fd s fd = None" "fd \<in> opened (world s)"
    and "efile_ok src"
  shows "returns (mp_fd_adopt env fd src s) (\<lambda>r s'. inv opened held s'
     \<and> (r = fd \<and> virtual_fd s' fd \<noteq> None \<or> r = - 1 \<and> virtual_fd s' fd = None))"
proof -
  note w = posixD(1) [OF assms(1)] and k = posixD(2) [OF assms(1)]
  have "\<exists>s'. mp_fd_adopt env fd src s = Some (- 1, s') \<and> inv opened held s' \<and> virtual_fd s' fd = None"
    if "mp_efile_dup (v_img env) False (v_mem env (world s)) src = Inl x" for x
  proof -
    obtain r s1 where c: "sysi env ''close'' [CInt fd] (s\<lparr>errno := x\<rparr>) = (r, s1)" by fastforce
    have "inv opened held s1" using sysi_close [OF c k] assms(2,4) by simp
    with that w c sysi_fields [OF c] assms(4) show ?thesis
      by (simp add: mp_fd_adopt_def dup_efile_def mp_efile_destroy_def fail_with_def)
  qed
  moreover have "returns (mp_fd_adopt env fd src s) (\<lambda>r s'. inv opened held s'
      \<and> (r = fd \<and> virtual_fd s' fd \<noteq> None \<or> r = - 1 \<and> virtual_fd s' fd = None))"
    if d: "mp_efile_dup (v_img env) False (v_mem env (world s)) src = Inr e" for e
  proof -
    have ok: "efile_ok e" by (rule efile_dup_ok [OF assms(6) d])
    obtain p s1 where n: "new_efile e s = (p, s1)" by fastforce
    note n1 = new_efile_inv [OF assms(2) efile_ok_good [OF ok] n]
    have v1: "virtual_fd s1 fd = None" "fd \<in> opened (world s1)" using n1 assms(4,5) by simp_all
    obtain b s2 where r: "mp_fd_register env fd p s1 = (b, s2)" by fastforce
    note r2 = register_inv [OF n1(1) w r assms(3) v1 n1(4,2) ok]
    show ?thesis
    proof (cases b)
      case True
      with r2 have "inv opened held s2" using inv_drop by blast
      with True r2(4) d w n r show ?thesis by (simp add: mp_fd_adopt_def dup_efile_def)
    next
      case False
      with r2 have i2: "inv opened (insert p held) s2" "fds s2 = fds s1" by auto
      then have "virtual_fd s2 a \<noteq> Some p" for a using n1(4) by simp
      from destroy_fresh [OF i2(1) n1(3) this] obtain s3 where d3: "mp_efile_destroy (Some p) s2 = Some s3"
        "inv opened held s3" "fds s3 = fds s2" by metis
      obtain c s4 where c: "sysi env ''close'' [CInt fd] s3 = (c, s4)" by fastforce
      have "inv opened held s4" using sysi_close [OF c k d3(2)] d3(3) i2(2) v1(1) by simp
      with False d w n r d3 c sysi_fields [OF c] i2(2) v1(1) show ?thesis
        by (simp add: mp_fd_adopt_def dup_efile_def)
    qed
  qed
  ultimately show ?thesis
    by (cases "mp_efile_dup (v_img env) False (v_mem env (world s)) src") (auto simp: returns_def)
qed

text \<open>An fd the kernel just gave, adopted for a virtual source.\<close>

lemma dup_new_inv:
  assumes "posix env opened" "inv opened held s" "sysi env name args s = (fd2, s1)" "opens_fd name args"
  shows "returns (case virtual_fd s fd of
      Some p \<Rightarrow> if fd2 \<ge> 0 then do { src \<leftarrow> heap s1 p; mp_fd_adopt env fd2 src s1 } else Some (fd2, s1)
    | None \<Rightarrow> Some (fd2, s1)) (\<lambda>r s'. inv opened held s')"
proof -
  note o = sysi_opening [OF assms(3) posixD(2) [OF assms(1)] assms(4,2)]
  show ?thesis
  proof (cases "virtual_fd s fd")
    case None
    with o(1) show ?thesis by simp
  next
    case (Some p)
    from invD(5) [OF assms(2) Some] obtain src where src: "heap s p = Some src" "efile_ok src" by blast
    show ?thesis
    proof (cases "fd2 \<ge> 0")
      case True
      with adopt_inv [OF assms(1) o(1) True _ _ src(2)] o(3,4) src(1) Some show ?thesis
        by (auto elim: returns_mono)
    next
      case False
      with Some o(1) show ?thesis by simp
    qed
  qed
qed

lemma dup_inv:
  assumes "posix env opened" "inv opened held s"
  shows "returns (mp_dup env fd s) (\<lambda>r s'. inv opened held s')"
proof -
  obtain fd2 s1 where d: "sysi env ''dup'' [CInt fd] s = (fd2, s1)" by fastforce
  with dup_new_inv [OF assms d, of fd] posixD(1) [OF assms(1)] show ?thesis by (simp add: mp_dup_def)
qed

lemma fcntl_inv:
  assumes "posix env opened" "inv opened held s"
  shows "returns (mp_fcntl env fd cmd arg s) (\<lambda>r s'. inv opened held s')"
proof -
  obtain r s1 where d: "sysi env ''fcntl'' [CInt fd, CInt cmd, CInt arg] s = (r, s1)" by fastforce
  show ?thesis
  proof (cases "cmd = F_DUPFD \<or> cmd = F_DUPFD_CLOEXEC")
    case True
    then have "opens_fd ''fcntl'' [CInt fd, CInt cmd, CInt arg]" by (auto simp: opens_fd_def)
    note n = dup_new_inv [OF assms d this, of fd]
    have "fds s1 = fds s" using sysi_fields [OF d] by simp
    with n True d show ?thesis
      by (cases "virtual_fd s fd"; cases "0 \<le> r") (simp_all add: mp_fcntl_def)
  next
    case False
    then have "neutral ''fcntl'' [CInt fd, CInt cmd, CInt arg]" by (simp add: neutral_def opens_fd_def)
    with sysi_neutral [OF d posixD(2) [OF assms(1)] _ assms(2)] False d show ?thesis
      by (simp add: mp_fcntl_def)
  qed
qed

text \<open>\<^verbatim>\<open>dup2\<close> and \<^verbatim>\<open>dup3\<close>: the target is unregistered beforehand and put back when the call fails.\<close>

lemma dup2_call_inv:
  assumes "posix env opened" "inv opened held s" "dup2_call env fd fd2 flags s = (r, s')"
  shows "inv opened held s'" "heap s' = heap s" "fds s' = fds s"
    "r < 0 \<Longrightarrow> opened (world s') = opened (world s)" "0 \<le> r \<Longrightarrow> fd2 \<in> opened (world s') \<and> 0 \<le> fd2"
proof -
  define name where "name = (if flags < 0 then ''dup2'' else ''dup3'')"
  define fl where "fl = (if flags < 0 then [] else [CInt flags])"
  have c: "sysi env name (CInt fd # CInt fd2 # fl) s = (r, s')"
    using assms(3) posixD(1) [OF assms(1)] by (simp add: dup2_call_def name_def fl_def split: if_splits)
  note f = sysi_fields [OF c]
  have "name = ''dup2'' \<or> name = ''dup3''" by (simp add: name_def)
  from kernelD(3) [OF posixD(2) [OF assms(1)] this, where fd = fd and ?fd2.0 = fd2 and fl = fl and w = "world s"] f
  have o: "opened (world s') = (if r < 0 then opened (world s) else insert fd2 (opened (world s)))"
    "0 \<le> r \<longrightarrow> 0 \<le> fd2" by (auto split: prod.splits)
  show "heap s' = heap s" "fds s' = fds s" using f by simp_all
  show "r < 0 \<Longrightarrow> opened (world s') = opened (world s)" "0 \<le> r \<Longrightarrow> fd2 \<in> opened (world s') \<and> 0 \<le> fd2"
    using o by simp_all
  show "inv opened held s'"
    by (rule inv_more_open [OF assms(2)]) (use f o in auto)
qed

lemma register_again:
  assumes "posix env opened" "inv opened (insert q held) s" "virtual_fd s0 fd = Some q" "fdtable_ok (fds s0)"
    and "\<And>x. virtual_fd s x = (if x = fd then None else virtual_fd s0 x)" "\<And>x. virtual_fd s x \<noteq> Some q"
    and "fd \<in> opened (world s)" "heap s q = Some e" "efile_ok e"
  shows "inv opened held (snd (mp_fd_register env fd q s))"
    "virtual_fd (snd (mp_fd_register env fd q s)) fd = Some q"
proof -
  obtain ok s' where r: "mp_fd_register env fd q s = (ok, s')" by fastforce
  have fd: "0 \<le> fd" using fdreg.get_valid [OF assms(4,3)] .
  have none: "virtual_fd s fd = None" by (simp add: assms(5))
  note r2 = register_inv [OF assms(2) posixD(1) [OF assms(1)] r fd none assms(7,6,8,9)]
  have "dom (virtual_fd s) \<subset> dom (virtual_fd s0)" using assms(3) by (auto simp: assms(5) split: if_splits)
  then have "card (dom (virtual_fd s)) < card (dom (virtual_fd s0))"
    using fdreg.get_finite [OF assms(4)] by (rule psubset_card_mono [rotated])
  with fdreg.get_card [OF assms(4)] have ok using r2(6) by linarith
  with r2 r inv_drop show "inv opened held (snd (mp_fd_register env fd q s))"
    "virtual_fd (snd (mp_fd_register env fd q s)) fd = Some q" by fastforce+
qed

lemma dup_onto_inv:
  assumes "posix env opened" "inv opened held s" "fd = fd2 \<or> may_close held fd2 s"
  shows "returns (mp_dup_onto env fd fd2 flags s) (\<lambda>r s'. inv opened held s')"
proof (cases "fd = fd2")
  case True
  obtain r s1 where c: "dup2_call env fd fd2 flags s = (r, s1)" by fastforce
  from dup2_call_inv [OF assms(1,2) c] True c show ?thesis
    by (simp add: mp_dup_onto_def mp_efile_destroy_def Let_def)
next
  case False
  note w = posixD(1) [OF assms(1)]
  obtain old s1 where u: "mp_fd_unregister env fd2 s = (old, s1)" by fastforce
  note u1 = unregister_inv [OF assms(2) w u]
  obtain r s2 where c: "dup2_call env fd fd2 flags s1 = (r, s2)" by fastforce
  define held1 where "held1 = (case old of None \<Rightarrow> held | Some q \<Rightarrow> insert q held)"
  have i1: "inv opened held1 s1" using u1(7,8) by (cases old) (simp_all add: held1_def)
  note c2 = dup2_call_inv [OF assms(1) i1 c]
  have look: "virtual_fd s2 x = (if x = fd2 then None else virtual_fd s x)" for x
    using u1(2,9) c2(3) by simp
  show ?thesis
  proof (cases "r < 0")
    case True
    have "inv opened held (case old of None \<Rightarrow> s2 | Some p \<Rightarrow> snd (mp_fd_register env fd2 p s2))"
    proof (cases old)
      case None
      with c2(1) show ?thesis by (simp add: held1_def)
    next
      case (Some q)
      then have v: "virtual_fd s fd2 = Some q" using u1(1) by simp
      from invD(5) [OF assms(2) v] obtain e where e: "heap s2 q = Some e" "efile_ok e" using u1(3) c2(2) by auto
      have "fd2 \<in> opened (world s2)" using invD(4) [OF assms(2) v] c2(4) [OF True] u1(4) by simp
      moreover have "virtual_fd s2 x \<noteq> Some q" for x using u1(8) [OF Some] c2(3) by simp
      ultimately show ?thesis
        using register_again(1) [OF assms(1) _ v invD(1) [OF assms(2)] look _ _ e] c2(1) Some
        by (simp add: held1_def)
    qed
    with True False u c show ?thesis by (simp add: mp_dup_onto_def Let_def)
  next
    case ok: False
    obtain s3 where d: "mp_efile_destroy old s2 = Some s3" "inv opened held s3" "fds s3 = fds s2"
      "world s3 = world s2" "\<And>q. old \<noteq> Some q \<Longrightarrow> heap s3 q = heap s q"
    proof (cases old)
      case None
      with c2(1,2) u1(3) that [of s2] show thesis by (simp add: mp_efile_destroy_def held1_def)
    next
      case (Some q)
      then have v: "virtual_fd s fd2 = Some q" using u1(1) by simp
      with assms(3) False have q: "q \<notin> held" by (simp add: may_close_def)
      have "virtual_fd s2 x \<noteq> Some q" for x using u1(8) [OF Some] c2(3) by simp
      with free_efile_inv [OF _ q, of opened s2] c2(1) Some obtain s3 where
        "free_efile q s2 = Some s3" "inv opened held s3" "fds s3 = fds s2" "world s3 = world s2"
        "\<forall>x. x \<noteq> q \<longrightarrow> heap s3 x = heap s2 x" by (auto simp: held1_def)
      with that [of s3] Some c2(2) u1(3) show thesis by (simp add: mp_efile_destroy_def)
    qed
    show ?thesis
    proof (cases "virtual_fd s fd")
      case None
      with False ok u c d show ?thesis by (simp add: mp_dup_onto_def Let_def)
    next
      case (Some p)
      from invD(5) [OF assms(2) Some] obtain src where src: "heap s p = Some src" "efile_ok src" by blast
      have "old \<noteq> Some p" using invD(6) [OF assms(2) Some, of fd2] False u1(1) by auto
      with d(5) src have h3: "heap s3 p = Some src" by simp
      have v3: "virtual_fd s3 fd2 = None" "fd2 \<in> opened (world s3)" "0 \<le> fd2"
        using look [of fd2] d(3,4) c2(5) ok by simp_all
      from adopt_inv [OF assms(1) d(2) v3(3,1,2) src(2)] obtain a s4 where
        "mp_fd_adopt env fd2 src s3 = Some (a, s4)" "inv opened held s4" by (rule returnsE) auto
      with False ok u c d(1) Some h3 show ?thesis by (simp add: mp_dup_onto_def Let_def)
    qed
  qed
qed

end
