(* ===== verification/Vfs_Calls.thy ===== *)
theory Vfs_Calls
  imports Vfs_Safe
begin

text \<open>
  More calls that keep the invariant: reads, positions, mappings, refused writes, and every call on a
  stream but those that open and close one.
\<close>

subsection \<open>Reading and positioning\<close>

lemma virtual_efile:
  assumes "inv opened held s" "virtual_fd s fd = Some p"
  obtains e where "heap s p = Some e" "efile_ok e"
  using invD(5) [OF assms] by blast

lemma advances_ok: "advances n e e' \<Longrightarrow> efile_ok e'"
  by (simp add: advances_def)

lemma read_inv:
  assumes "posix env opened" "inv opened held s"
  shows "returns (mp_read env fd n s) (\<lambda>r s'. inv opened held s')"
proof (cases "virtual_fd s fd")
  case None
  with returns_sys [OF assms(1) _ assms(2), of "''read''" "[CInt fd, CInt (int n)]"] show ?thesis
    by (auto simp: mp_read_def elim: returns_mono)
next
  case (Some p)
  from virtual_efile [OF assms(2) Some] obtain e where e: "heap s p = Some e" "efile_ok e" .
  have "efile_ok (snd (read_virtual False n e))" using read_virtual_ok(2) [OF e(2)] by (rule advances_ok)
  with put_efile_inv [OF assms(2) e(1)] Some e assms(2) posixD(1) [OF assms(1)] show ?thesis
    by (auto simp: mp_read_def split: prod.split)
qed

lemma pread_inv:
  assumes "posix env opened" "inv opened held s"
  shows "returns (mp_pread env fd n off s) (\<lambda>r s'. inv opened held s')"
proof (cases "virtual_fd s fd")
  case None
  with returns_sys [OF assms(1) _ assms(2), of "''pread''" "[CInt fd, CInt (int n), CInt off]"]
    posixD(1) [OF assms(1)] show ?thesis
    by (auto simp: mp_pread_def elim: returns_mono)
next
  case (Some p)
  from virtual_efile [OF assms(2) Some] obtain e where "heap s p = Some e" .
  with Some assms(2) show ?thesis by (simp add: mp_pread_def split: prod.split option.split)
qed

lemma lseek_inv:
  assumes "posix env opened" "inv opened held s"
  shows "returns (mp_lseek env fd off wh s) (\<lambda>r s'. inv opened held s')"
proof (cases "virtual_fd s fd")
  case None
  with returns_sysi [OF assms(1) _ assms(2), of "''lseek''" "[CInt fd, CInt off, CInt wh]"]
    posixD(1) [OF assms(1)] show ?thesis
    by (auto simp: mp_lseek_def elim: returns_mono)
next
  case (Some p)
  from virtual_efile [OF assms(2) Some] obtain e where e: "heap s p = Some e" "efile_ok e" .
  have "efile_ok (snd (mp_virtual_seek False off wh e))" by (rule virtual_seek_ok(2) [OF e(2)])
  with put_efile_inv [OF assms(2) e(1)] Some e posixD(1) [OF assms(1)] show ?thesis
    by (auto simp: mp_lseek_def split: prod.split option.split)
qed

lemma take_min: "take (if length u < n then length u else n) u = take n u"
  by (simp add: min_def)

lemma readv_loop_ok:
  "efile_ok e \<Longrightarrow> concat (fst (readv_loop iov e)) = take (sum_list iov) (unread e)
     \<and> advances (sum_list iov) e (snd (readv_loop iov e))"
proof (induction iov e rule: readv_loop.induct)
  case (1 e)
  then show ?case by (simp add: advances_refl)
next
  case (2 len iov e)
  let ?n = "if len > length (unread e) then length (unread e) else len"
  let ?e = "e\<lparr>pos := pos e + int ?n\<rparr>"
  have adv: "advances ?n e ?e" by (rule advances_step [OF 2(2)])
  have u: "unread ?e = drop len (unread e)" using adv by (auto simp: advances_def)
  show ?case
  proof (cases "length (unread e) < len")
    case True
    have "advances (len + sum_list iov) e ?e" using adv True by (simp add: advances_def)
    with True 2(2) show ?thesis by (simp add: Let_def efile_simps)
  next
    case False
    with 2(2) have n: "?n = len" "mp_avail e = length (unread e)" by (simp_all add: efile_simps)
    have "efile_ok ?e" using adv by (simp add: advances_def)
    with 2(1) [OF refl refl refl refl, unfolded n(2)] False have
      IH: "concat (fst (readv_loop iov ?e)) = take (sum_list iov) (unread ?e)"
        "advances (sum_list iov) ?e (snd (readv_loop iov ?e))" by simp_all
    from advances_trans [OF adv IH(2)] False n IH(1) u 2(2) show ?thesis
      by (simp add: Let_def split_beta efile_simps take_add)
  qed
qed

lemma returns_sysv:
  assumes "posix env opened" "neutral name args" "inv opened held s"
  shows "returns (sysv env name args s) (\<lambda>_ s'. inv opened held s')"
  using returns_sys [OF assms] by (auto simp: sysv_def split: prod.splits)

lemma readv_inv:
  assumes "posix env opened" "inv opened held s"
  shows "returns (mp_readv env fd iov s) (\<lambda>r s'. inv opened held s')"
proof (cases "virtual_fd s fd")
  case None
  with returns_sysv [OF assms(1) _ assms(2)] show ?thesis by (simp add: mp_readv_def)
next
  case (Some p)
  from virtual_efile [OF assms(2) Some] obtain e where e: "heap s p = Some e" "efile_ok e" .
  have "efile_ok (snd (readv_loop iov e))" using readv_loop_ok [OF e(2)] advances_ok by blast
  with put_efile_inv [OF assms(2) e(1)] Some e assms(2) show ?thesis
    by (auto simp: mp_readv_def split: prod.split)
qed

lemma preadv_inv:
  assumes "posix env opened" "inv opened held s"
  shows "returns (mp_preadv env fd iov off s) (\<lambda>r s'. inv opened held s')"
proof (cases "virtual_fd s fd")
  case None
  with returns_sysv [OF assms(1) _ assms(2)] show ?thesis by (simp add: mp_preadv_def)
next
  case (Some p)
  from virtual_efile [OF assms(2) Some] obtain e where "heap s p = Some e" .
  with Some assms(2) show ?thesis by (simp add: mp_preadv_def Let_def)
qed

lemma preadv2_inv:
  assumes "posix env opened" "inv opened held s"
  shows "returns (mp_preadv2 env fd iov off flags s) (\<lambda>r s'. inv opened held s')"
  using returns_sysv [OF assms(1) _ assms(2)] readv_inv [OF assms] preadv_inv [OF assms]
  by (simp add: mp_preadv2_def)

lemma refuse_write_inv:
  assumes "posix env opened" "inv opened held s" "neutral name (CInt fd # args)"
  shows "returns (refuse_write env name fd args s) (\<lambda>r s'. inv opened held s')"
  using returns_sysi [OF assms(1,3,2)] assms(2) by (auto simp: refuse_write_def elim: returns_mono)

lemma mmap_inv:
  assumes "posix env opened" "inv opened held s"
  shows "returns (mp_mmap env addr len prot flags fd off s) (\<lambda>r s'. inv opened held s' \<and> fds s' = fds s \<and> heap s' = heap s)"
proof (cases "if has_flag flags MAP_ANON then None else virtual_fd s fd")
  case None
  with returns_sys [OF assms(1) _ assms(2)] show ?thesis by (simp add: mp_mmap_def)
next
  case (Some q)
  then have v: "virtual_fd s fd = Some q" by (simp split: if_splits)
  from virtual_efile [OF assms(2) v] obtain e where e: "heap s q = Some e" .
  note k = posixD(2) [OF assms(1)]
  obtain page s1 where a: "sysi env ''sysconf'' [CInt SC_PAGESIZE] s = (page, s1)" by fastforce
  note a1 = sysi_neutral [OF a k _ assms(2)] sysi_fields [OF a]
  obtain m s2 where b: "sysi env ''mmap'' [CInt addr, CInt (int len), CInt (PROT_READ OR PROT_WRITE),
      CInt ((flags AND MAP_FIXED) OR MAP_PRIVATE OR MAP_ANON), CInt (- 1), CInt 0] s1 = (m, s2)" by fastforce
  note b1 = sysi_neutral [OF b k _ a1(1)] sysi_fields [OF b]
  obtain r s3 where c: "sysi env ''mprotect'' [CInt m, CInt (int len), CInt prot] s2 = (r, s3)" by fastforce
  note c1 = sysi_neutral [OF c k _ b1(1)] sysi_fields [OF c]
  obtain u s4 where d: "sysi env ''munmap'' [CInt m, CInt (int len)] s3 = (u, s4)" by fastforce
  note d1 = sysi_neutral [OF d k _ c1(1)] sysi_fields [OF d]
  have f: "inv opened held s1" "inv opened held s2" "inv opened held s3" "inv opened held s4"
    "fds s1 = fds s" "fds s2 = fds s" "fds s3 = fds s" "fds s4 = fds s"
    "heap s1 = heap s" "heap s2 = heap s" "heap s3 = heap s" "heap s4 = heap s"
    using a1 b1 c1 d1 by simp_all
  show ?thesis unfolding mp_mmap_def Some
    using e assms(2) f by (simp add: a [simplified] b [simplified] c d Let_def)
qed

subsection \<open>Streams\<close>

text \<open>The streams a program may use: the C library's, and the EFILEs it holds.\<close>

fun usable :: "nat set \<Rightarrow> stream \<Rightarrow> bool" where
  "usable held Null \<longleftrightarrow> False"
| "usable held (Libc f) \<longleftrightarrow> True"
| "usable held (Efile p) \<longleftrightarrow> p \<in> held"

lemma held_cases:
  assumes "inv opened held s" "p \<in> held"
  obtains (native) e f where "heap s p = Some e" "handle_type e = EHANDLE_NATIVE" "fptr e = Some f"
  | (virt) e where "heap s p = Some e" "handle_type e = EHANDLE_VIRTUAL" "efile_ok e"
proof -
  from inv_held [OF assms] obtain e where e: "heap s p = Some e" "efile_good e" by blast
  show thesis
  proof (cases "handle_type e")
    case EHANDLE_NATIVE
    with e that(1) show ?thesis by (auto simp: efile_good_def)
  next
    case EHANDLE_VIRTUAL
    with e that(2) show ?thesis by (auto simp: efile_good_def)
  qed (use e in \<open>simp add: efile_good_def\<close>)
qed

lemma on_stream_inv:
  assumes "posix env opened" "inv opened held s" "usable held e" "\<And>x. neutral name x"
    and "\<And>ef. efile_ok ef \<Longrightarrow> efile_ok (snd (snd (virt ef)))"
  shows "returns (on_stream env name args virt e s) (\<lambda>r s'. inv opened held s')"
proof (cases e)
  case Null
  with assms(3) show ?thesis by simp
next
  case (Libc f)
  with returns_mono [OF returns_sys [OF assms(1) assms(4,2)], of "\<lambda>r s'. inv opened held s'"] show ?thesis
    by (simp add: on_stream_def)
next
  case (Efile p)
  with assms(3) have "p \<in> held" by simp
  with assms(2) show ?thesis
  proof (cases rule: held_cases)
    case (native ef f)
    with Efile returns_mono [OF returns_sys [OF assms(1) assms(4,2)], of "\<lambda>r s'. inv opened held s'"] show ?thesis
      by (simp add: on_stream_def)
  next
    case (virt ef)
    obtain r x ef' where v: "virt ef = (r, x, ef')" by (cases "virt ef") auto
    have "efile_ok ef'" using assms(5) [OF virt(3)] v by simp
    then have "inv opened held (put_efile p ef' (case x of None \<Rightarrow> s | Some x \<Rightarrow> s\<lparr>errno := x\<rparr>))"
      using put_efile_inv [OF assms(2) virt(1)] put_efile_inv [of opened held "s\<lparr>errno := _\<rparr>" p ef]
        assms(2) virt(1) by (auto split: option.split)
    with Efile virt v show ?thesis by (simp add: on_stream_def)
  qed
qed

lemma stream_step_ok: "efile_ok e \<Longrightarrow> efile_ok (stream_step op e)"
  using stream_step_keeps [of e op] by (simp add: keeps_def)

text \<open>Every call on a stream except those that open and close one.\<close>

datatype stdio_op = Op_feof | Op_fread nat nat | Op_fgetpos | Op_fgets int | Op_getline "(bool \<times> nat) option"
  | Op_fgetc | Op_getc_unlocked | Op_fgetwc | Op_ftell | Op_fseek int int | Op_fsetpos int | Op_rewind
  | Op_clearerr | Op_ferror | Op_ungetc int | Op_ungetwc int | Op_setbuf | Op_setvbuf int nat | Op_fflush
  | Op_flockfile | Op_funlockfile | Op_ftrylockfile | Op_fputc int | Op_fputs cstring | Op_fprintf cstring
  | Op_vfprintf cstring | Op_fwrite "u8 list" nat nat | Op_fputwc int

fun run_stdio :: "'w vfs_env \<Rightarrow> stdio_op \<Rightarrow> stream \<Rightarrow> ('w, 'z) vfs_scheme \<Rightarrow> (ret \<times> ('w, 'z) vfs_scheme) option" where
  "run_stdio env Op_feof = mp_feof env"
| "run_stdio env (Op_fread sz n) = mp_fread env sz n"
| "run_stdio env Op_fgetpos = mp_fgetpos env"
| "run_stdio env (Op_fgets n) = mp_fgets env n"
| "run_stdio env (Op_getline a) = mp_getline env a"
| "run_stdio env Op_fgetc = mp_fgetc env"
| "run_stdio env Op_getc_unlocked = mp_getc_unlocked env"
| "run_stdio env Op_fgetwc = mp_fgetwc env"
| "run_stdio env Op_ftell = mp_ftell env"
| "run_stdio env (Op_fseek off wh) = mp_fseek env off wh"
| "run_stdio env (Op_fsetpos at) = mp_fsetpos env at"
| "run_stdio env Op_rewind = mp_rewind env"
| "run_stdio env Op_clearerr = mp_clearerr env"
| "run_stdio env Op_ferror = mp_ferror env"
| "run_stdio env (Op_ungetc c) = mp_ungetc env c"
| "run_stdio env (Op_ungetwc c) = mp_ungetwc env c"
| "run_stdio env Op_setbuf = mp_setbuf env"
| "run_stdio env (Op_setvbuf m n) = mp_setvbuf env m n"
| "run_stdio env Op_fflush = mp_fflush env"
| "run_stdio env Op_flockfile = mp_flockfile env"
| "run_stdio env Op_funlockfile = mp_funlockfile env"
| "run_stdio env Op_ftrylockfile = mp_ftrylockfile env"
| "run_stdio env (Op_fputc c) = mp_fputc env c"
| "run_stdio env (Op_fputs str) = mp_fputs env str"
| "run_stdio env (Op_fprintf fmt) = mp_fprintf env fmt"
| "run_stdio env (Op_vfprintf fmt) = mp_vfprintf env fmt"
| "run_stdio env (Op_fwrite buf sz n) = mp_fwrite env buf sz n"
| "run_stdio env (Op_fputwc c) = mp_fputwc env c"

lemmas stdio_defs = mp_feof_def mp_fread_def mp_fgetpos_def mp_fgets_def mp_getline_def mp_fgetc_def
  mp_getc_unlocked_def mp_fgetwc_def mp_ftell_def mp_fseek_def mp_fsetpos_def mp_rewind_def mp_clearerr_def
  mp_ferror_def mp_ungetc_def mp_ungetwc_def mp_setbuf_def mp_setvbuf_def mp_fflush_def mp_flockfile_def
  mp_funlockfile_def mp_ftrylockfile_def mp_fputc_def mp_fputs_def mp_fprintf_def mp_vfprintf_def mp_fwrite_def
  mp_fputwc_def

text \<open>What each call leaves of the EFILE is a step of the stream, or the EFILE itself.\<close>

lemma answers_ok:
  assumes "efile_ok e"
  shows "efile_ok (snd (snd (plain v e)))" "efile_ok (snd (snd (refuse v e)))"
    "efile_ok (snd (snd (fgetc_answer False e)))"
    "efile_ok (snd (snd (case fread_virtual False sz n e of ((n, bs), e) \<Rightarrow> ((int n, bs), None, e))))"
    "efile_ok (snd (snd (case fgetpos_virtual False e of
       (None, e) \<Rightarrow> ((- 1, []), Some EINVAL, e) | (Some offset, e) \<Rightarrow> ((0, le_bytes 8 (nat offset)), None, e))))"
    "efile_ok (snd (snd (case fgets_virtual False num e of
       (None, e) \<Rightarrow> plain 0 e | (Some line, e) \<Rightarrow> ((1, line @ [0]), None, e))))"
    "efile_ok (snd (snd (case getline_virtual mem args e of ((r, x, line, n), e) \<Rightarrow>
       ((r, if r \<ge> 0 then line @ [0] else line), x, e))))"
    "efile_ok (snd (snd (case fgetwc_virtual False e of (c, e) \<Rightarrow> plain c e)))"
    "efile_ok (snd (snd (case ftell_virtual False e of (c, e) \<Rightarrow> plain c e)))"
    "efile_ok (snd (snd (case fseek_virtual False off wh e of (r, x, e) \<Rightarrow> ((r, []), x, e))))"
    "efile_ok (snd (snd (case fseek_virtual False off wh e of (r, a) \<Rightarrow> ((r, []), a))))"
    "efile_ok (snd (snd (plain v (rewind_virtual False e))))"
    "efile_ok (snd (snd (plain v (clearerr_virtual e))))"
    "efile_ok (snd (snd (case ungetc_virtual False c e of (r, e) \<Rightarrow> plain r e)))"
    "efile_ok (snd (snd (case ungetwc_virtual False c e of (r, e) \<Rightarrow> plain r e)))"
  using assms stream_step_ok [OF assms, of "Fread sz n"] stream_step_ok [OF assms, of "Fgets num"]
    stream_step_ok [OF assms, of "Getline mem args"] stream_step_ok [OF assms, of Fgetwc]
    stream_step_ok [OF assms, of Fgetc] stream_step_ok [OF assms, of "Fseek off wh"]
    stream_step_ok [OF assms, of Rewind] stream_step_ok [OF assms, of Clearerr]
    stream_step_ok [OF assms, of "Ungetc c"] stream_step_ok [OF assms, of "Ungetwc c"]
    stream_step_ok [OF assms, of Write]
  by (auto simp: plain_def refuse_def fgetc_answer_def fgetpos_virtual_def ftell_virtual_def
      split: prod.split option.split)

lemma stdio_inv:
  assumes "posix env opened" "inv opened held s" "usable held e"
  shows "returns (run_stdio env op e s) (\<lambda>r s'. inv opened held s')"
  by (cases op) (auto simp: stdio_defs neutral_def opens_fd_def posixD(1) [OF assms(1)]
      intro!: on_stream_inv [OF assms] answers_ok)

end
