(* ===== verification/Vfs_Streams.thy ===== *)
theory Vfs_Streams
  imports Vfs_Calls
begin

text \<open>
  The invariant under the calls that open, reopen and close streams, under \<^verbatim>\<open>mp_fscanf\<close> and under the linker
  hooks on fds.
\<close>

subsection \<open>Opening and closing streams\<close>

fun holds :: "stream \<Rightarrow> nat set \<Rightarrow> nat set" where
  "holds (Efile p) held = insert p held"
| "holds _ held = held"

fun lets_go :: "stream \<Rightarrow> nat set \<Rightarrow> nat set" where
  "lets_go (Efile p) held = held - {p}"
| "lets_go _ held = held"

lemma holds_libc [simp]: "holds (libc_stream f) held = held"
  by (simp add: libc_stream_def)

lemma virtual_stream_inv:
  assumes "posix env opened" "inv opened held s"
  shows "returns (virtual_stream env slot wr s) (\<lambda>e s'. inv opened (holds e held) s')"
proof -
  obtain p s' where o: "open_efile env slot s = (p, s')" by fastforce
  from open_efile_inv [OF assms(2) posixD(1) [OF assms(1)] o] o assms(2) show ?thesis
    by (auto simp: virtual_stream_def split: option.splits)
qed

lemma fopen_inv:
  assumes "posix env opened" "inv opened held s"
  shows "returns (mp_fopen env path mode s) (\<lambda>e s'. inv opened (holds e held) s')"
proof -
  obtain f s' where o: "sysi env ''fopen'' [CStr path, CStr mode] s = (f, s')" by fastforce
  with returns_sysi [OF assms(1) _ assms(2), of "''fopen''" "[CStr path, CStr mode]"]
    virtual_stream_inv [OF assms] posixD(1) [OF assms(1)] show ?thesis
    by (simp add: mp_fopen_def split: option.split)
qed

text \<open>
  \<^verbatim>\<open>mp_fdopen\<close> wraps a FILE in an EFILE; the allocation is not checked, so it has to succeed.
\<close>

definition may_fdopen :: "'w vfs_env \<Rightarrow> int \<Rightarrow> cptr \<Rightarrow> ('w, 'z) vfs_scheme \<Rightarrow> bool" where
  "may_fdopen env fd mode s \<longleftrightarrow> virtual_fd s fd \<noteq> None
     \<or> v_mem env (world (snd (sysi env ''fdopen'' [CInt fd, CStr mode] s))) 0"

lemma native_stream_inv:
  assumes "inv opened held s" "v_mem env (world s) 0"
  shows "returns (native_stream env f s) (\<lambda>e s'. inv opened (holds e held) s')"
proof (cases "f = 0")
  case False
  let ?e = "zero_efile\<lparr>handle_type := EHANDLE_NATIVE, fptr := Some (nat f)\<rparr>"
  obtain p s' where n: "new_efile ?e s = (p, s')" by fastforce
  have "inv opened (insert p held) s'"
    by (rule new_efile_inv(1) [OF assms(1) _ n]) (simp add: efile_good_def)
  with n assms(2) False show ?thesis by (simp add: native_stream_def wrap_native_def)
qed (use assms in \<open>simp add: native_stream_def\<close>)

lemma fdopen_inv:
  assumes "posix env opened" "inv opened held s" "may_fdopen env fd mode s"
  shows "returns (mp_fdopen env fd mode s) (\<lambda>e s'. inv opened (holds e held) s')"
proof (cases "virtual_fd s fd")
  case None
  obtain f s' where o: "sysi env ''fdopen'' [CInt fd, CStr mode] s = (f, s')" by fastforce
  note k = kernelD(5) [OF posixD(2) [OF assms(1)], where w = "world s" and fd = fd and mode = "CStr mode"]
  have "inv opened held s'"
    by (rule inv_more_open [OF assms(2)]) (use k None sysi_fields [OF o] in auto)
  with native_stream_inv [of opened held s' env f] assms(3) None o show ?thesis
    by (simp add: mp_fdopen_def may_fdopen_def)
next
  case (Some p)
  with inv_hold [OF assms(2) Some] show ?thesis by (simp add: mp_fdopen_def)
qed

lemma init_fds_inv [simp]:
  assumes "inv opened held s"
  shows "inv opened held (init_fds s)"
proof -
  note ok = fdtable_ok_init [OF invD(1) [OF assms]]
  have "fd_map (init_fds s) = fd_map s" using ok by (simp add: fd_map_def fun_eq_iff init_fds_def)
  with assms ok show ?thesis by (simp add: inv_def init_fds_def)
qed

lemma fileno_inv:
  assumes "posix env opened" "inv opened held s0" "usable held e"
  shows "returns (mp_fileno env e s0) (\<lambda>r s'. inv opened held s')"
proof -
  define s where "s = init_fds s0"
  have i: "inv opened held s" using assms(2) by (simp add: s_def)
  show ?thesis
  proof (cases e)
    case Null
    with assms(3) show ?thesis by simp
  next
    case (Libc f)
    obtain r s' where c: "sys env ''fileno'' [stream_arg (Libc f)] s = (r, s')" by fastforce
    with sys_neutral [OF c posixD(2) [OF assms(1)] _ i] Libc show ?thesis
      by (simp add: mp_fileno_def Let_def s_def [symmetric] on_stream_def split: prod.split)
  next
    case (Efile p)
    with assms(3) have "p \<in> held" by simp
    with i show ?thesis
    proof (cases rule: held_cases)
      case (native ef f)
      obtain r s' where c: "sysi env ''fileno'' [CInt (int f)] s = (r, s')" by fastforce
      with sysi_neutral [OF c posixD(2) [OF assms(1)] _ i] Efile native show ?thesis
        by (simp add: mp_fileno_def Let_def s_def [symmetric])
    next
      case (virt ef)
      note fd = fd_of_ok [OF invD(1) [OF i], of p]
      obtain n s1 where x: "open_executable env O_CLOEXEC s = (n, s1)" by fastforce
      note x1 = open_executable_inv [OF assms(1) i x]
      obtain ok s2 where r: "mp_fd_register env n p s1 = (ok, s2)" by fastforce
      obtain c s3 where cl: "sysi env ''close'' [CInt n] s2 = (c, s3)" by fastforce
      have reg: "inv opened held s2 \<and> (\<not> ok \<longrightarrow> inv opened held s3)" if "mp_fd_of p (fds s) = - 1" "n \<noteq> - 1"
      proof -
        have n: "0 \<le> n" using x1(2) that by linarith
        note v = x1(3) [OF n]
        have p: "virtual_fd s1 a \<noteq> Some p" for a using that fd(1) x1(5) by simp
        have h: "heap s1 p = Some ef" using x1(4) virt by simp
        note r2 = register_inv [OF x1(1) posixD(1) [OF assms(1)] r n _ _ p h virt(3)]
        from sysi_close [OF cl posixD(2) [OF assms(1)], of held] r2 v show ?thesis by auto
      qed
      show ?thesis
        using Efile virt i posixD(1) [OF assms(1)] x1(1) reg
        by (auto simp: mp_fileno_def Let_def s_def [symmetric] x r cl split: bool.split)
    qed
  qed
qed


lemma drop_stream:
  assumes "inv opened held s" "p \<in> held" "\<And>fd. virtual_fd s fd \<noteq> Some p"
  obtains s' where "mp_efile_destroy (Some p) s = Some s'" "inv opened (held - {p}) s'" "fds s' = fds s"
    "world s' = world s"
proof -
  have "inv opened (insert p (held - {p})) s" using assms by (simp add: insert_absorb)
  from destroy_fresh [OF this _ assms(3)] that show thesis by auto
qed

lemma native_unregistered:
  assumes "inv opened held s" "heap s p = Some e" "handle_type e = EHANDLE_NATIVE"
  shows "virtual_fd s fd \<noteq> Some p"
  using invD(5) [OF assms(1), of fd p] assms by (auto simp: efile_ok_def)

lemma release_stream_fd:
  assumes "posix env opened" "inv opened held s" "p \<in> held" "mp_fd_of p (fds s) \<noteq> - 1"
  obtains s' where "mp_fd_unregister env (mp_fd_of p (fds s)) s = (Some p, s')" "inv opened held s'"
    "\<And>x. virtual_fd s' x \<noteq> Some p" "virtual_fd s' (mp_fd_of p (fds s)) = None" "heap s' = heap s"
proof -
  obtain q s' where u: "mp_fd_unregister env (mp_fd_of p (fds s)) s = (q, s')" by fastforce
  note u1 = unregister_inv [OF assms(2) posixD(1) [OF assms(1)] u]
  have "virtual_fd s (mp_fd_of p (fds s)) = Some p" using fd_of_ok(2) [OF invD(1) [OF assms(2)] refl assms(4)] .
  with u1 have q: "q = Some p" by simp
  with u1(8) [OF q] u1(2,3) u that [of s'] assms(3) show thesis by (simp add: insert_absorb)
qed

lemma fclose_inv:
  assumes "posix env opened" "inv opened held s0" "usable held e"
  shows "returns (mp_fclose env e s0) (\<lambda>r s'. inv opened (lets_go e held) s')"
proof -
  define s where "s = init_fds s0"
  have i: "inv opened held s" using assms(2) by (simp add: s_def)
  note k = posixD(2) [OF assms(1)]
  show ?thesis
  proof (cases e)
    case Null
    with assms(3) show ?thesis by simp
  next
    case (Libc f)
    obtain r s' where c: "sys env ''fclose'' [stream_arg (Libc f)] s = (r, s')" by fastforce
    with sys_neutral [OF c k _ i] Libc show ?thesis
      by (simp add: mp_fclose_def Let_def s_def [symmetric] on_stream_def split: prod.split)
  next
    case (Efile p)
    with assms(3) have p: "p \<in> held" by simp
    show ?thesis using i p
    proof (cases rule: held_cases)
      case (native ef f)
      obtain r s1 where c: "sysi env ''fclose'' [CInt (int f)] s = (r, s1)" by fastforce
      have i1: "inv opened held s1" using sysi_neutral [OF c k _ i] by simp
      have "virtual_fd s1 x \<noteq> Some p" for x
        using native_unregistered [OF i native(1,2)] sysi_fields [OF c] by simp
      from drop_stream [OF i1 p this] obtain s2 where "mp_efile_destroy (Some p) s1 = Some s2"
        "inv opened (held - {p}) s2" by metis
      with Efile native c show ?thesis by (simp add: mp_fclose_def Let_def s_def [symmetric])
    next
      case (virt ef)
      show ?thesis
      proof (cases "mp_fd_of p (fds s) = - 1")
        case True
        with fd_of_ok(1) [OF invD(1) [OF i], of p] have "virtual_fd s x \<noteq> Some p" for x by simp
        from drop_stream [OF i p this] obtain s2 where "mp_efile_destroy (Some p) s = Some s2"
          "inv opened (held - {p}) s2" by metis
        with Efile virt True show ?thesis by (simp add: mp_fclose_def Let_def s_def [symmetric])
      next
        case False
        from release_stream_fd [OF assms(1) i p False] obtain s1 where
          u: "mp_fd_unregister env (mp_fd_of p (fds s)) s = (Some p, s1)" "inv opened held s1"
            "\<And>x. virtual_fd s1 x \<noteq> Some p" "virtual_fd s1 (mp_fd_of p (fds s)) = None" by metis
        from drop_stream [OF u(2) p u(3)] obtain s2 where d: "mp_efile_destroy (Some p) s1 = Some s2"
          "inv opened (held - {p}) s2" "fds s2 = fds s1" by metis
        obtain r s3 where c: "sysi env ''close'' [CInt (mp_fd_of p (fds s))] s2 = (r, s3)" by fastforce
        have "inv opened (held - {p}) s3" using sysi_close [OF c k d(2)] d(3) u(4) by simp
        with Efile virt False u(1) d(1) c show ?thesis by (simp add: mp_fclose_def Let_def s_def [symmetric])
      qed
    qed
  qed
qed

text \<open>An EFILE refilled in place, and one whose place is freed.\<close>

lemma inv_refill:
  assumes "inv opened held s" "p \<in> held" "\<And>fd. virtual_fd s fd \<noteq> Some p"
    and "fds s' = fds s" "brk s' = brk s" "opened (world s') = opened (world s)"
    and "heap s' = (heap s)(p \<mapsto> e)" "efile_good e"
  shows "inv opened held s'"
proof -
  have m: "fd_map s' = fd_map s" "p \<notin> ran (fd_map s)"
    using fd_map_cong [OF assms(4)] assms(3) by (simp_all add: not_registered)
  from inv_held [OF assms(1,2)] obtain e0 where "heap s p = Some e0" by blast
  with assms m show ?thesis unfolding inv_def by (auto simp: insert_absorb)
qed

lemma inv_freed:
  assumes "inv opened held s" "\<And>fd. virtual_fd s fd \<noteq> Some p"
    and "fds s' = fds s" "brk s' = brk s" "opened (world s') = opened (world s)"
    and "heap s' = (heap s)(p := None)"
  shows "inv opened (held - {p}) s'"
proof -
  have m: "fd_map s' = fd_map s" "p \<notin> ran (fd_map s)"
    using fd_map_cong [OF assms(3)] assms(2) by (simp_all add: not_registered)
  with assms show ?thesis unfolding inv_def by auto
qed

lemma sysi_same: "sysi env name args s = (r, s') \<Longrightarrow> fds s' = fds s \<and> heap s' = heap s \<and> brk s' = brk s"
  using sysi_fields by blast

lemma sysi_opened:
  "sysi env name args s = (r, s') \<Longrightarrow> kernel_laws env opened \<Longrightarrow> neutral name args \<Longrightarrow> opened (world s') = opened (world s)"
  using sysi_fields kernelD(1) by metis

lemma reopen_inv:
  assumes "posix env opened" "inv opened held s" "p \<in> held"
  shows "returns (reopen_virtual env path mode p s) (\<lambda>e s'. inv opened (holds e (held - {p})) s')"
proof -
  note w = posixD(1) [OF assms(1)] and k = posixD(2) [OF assms(1)]
  let ?fd = "mp_fd_of p (fds s)"
  define s1 where "s1 = (if ?fd \<noteq> - 1 then let (_, s) = mp_fd_unregister env ?fd s
    in snd (sysi env ''close'' [CInt ?fd] s) else s)"
  have i1: "inv opened held s1 \<and> (\<forall>x. virtual_fd s1 x \<noteq> Some p)"
  proof (cases "?fd = - 1")
    case True
    with fd_of_ok(1) [OF invD(1) [OF assms(2)], of p] assms(2) show ?thesis by (simp add: s1_def)
  next
    case False
    from release_stream_fd [OF assms(1-3) False] obtain s2 where
      u: "mp_fd_unregister env ?fd s = (Some p, s2)" "inv opened held s2"
        "\<And>x. virtual_fd s2 x \<noteq> Some p" "virtual_fd s2 ?fd = None" by metis
    obtain r s3 where c: "sysi env ''close'' [CInt ?fd] s2 = (r, s3)" by fastforce
    with sysi_close [OF c k u(2,4)] u sysi_same [OF c] False show ?thesis by (simp add: s1_def)
  qed
  then have j: "inv opened held s1" and v: "\<And>x. virtual_fd s1 x \<noteq> Some p" by simp_all
  define s2 where "s2 = put_efile p zero_efile s1"
  have unf: "reopen_virtual env path mode p s =
     (case (case find_virtual env path s2 of
              Some slot \<Rightarrow> if is_file (entry_of env slot) then Some slot else None | None \<Rightarrow> None) of
        Some slot \<Rightarrow>
          if mp_mode_writes mode then do { s \<leftarrow> free_efile p (s2\<lparr>errno := EROFS\<rparr>); Some (Null, s) }
          else (case mp_efile_init_virtual (v_img env) (v_win env) (v_mem env (world s2) 0) slot zero_efile of
                  Inr e \<Rightarrow> Some (Efile p, put_efile p e s2)
                | Inl x \<Rightarrow> do { s \<leftarrow> free_efile p (s2\<lparr>errno := x\<rparr>); Some (Null, s) })
      | None \<Rightarrow>
          let (f, s) = sysi env ''fopen'' [CStr path, CStr mode] s2 in
          if f = 0 then do { s \<leftarrow> free_efile p s; Some (Null, s) }
          else Some (Efile p, put_efile p (zero_efile\<lparr>handle_type := EHANDLE_NATIVE, fptr := Some (nat f)\<rparr>) s))"
    by (simp only: reopen_virtual_def Let_def s1_def s2_def)
  have f2: "fds s2 = fds s1" "brk s2 = brk s1" "world s2 = world s1" "heap s2 = (heap s1)(p \<mapsto> zero_efile)"
    by (simp_all add: s2_def put_efile_def)
  have freed: "\<exists>s''. free_efile p s' = Some s'' \<and> inv opened (held - {p}) s''"
    if "fds s' = fds s2" "brk s' = brk s2" "opened (world s') = opened (world s2)" "heap s' = heap s2" for s'
    using that f2 by (intro exI [of _ "s'\<lparr>heap := (heap s')(p := None)\<rparr>"] conjI inv_freed [OF j v])
      (simp_all add: free_efile_def)
  have filled: "inv opened (insert p (held - {p})) (put_efile p e s')"
    if "fds s' = fds s2" "brk s' = brk s2" "opened (world s') = opened (world s2)" "heap s' = heap s2"
      "efile_good e" for s' e
    using that f2 assms(3) inv_refill [OF j assms(3) v, of "put_efile p e s'" e]
    by (simp add: put_efile_def insert_absorb)
  obtain f s3 where o: "sysi env ''fopen'' [CStr path, CStr mode] s2 = (f, s3)" by fastforce
  note o3 = sysi_same [OF o] sysi_opened [OF o k]
  show ?thesis
  proof (cases "case find_virtual env path s2 of
       Some slot \<Rightarrow> if is_file (entry_of env slot) then Some slot else None | None \<Rightarrow> None")
    case None
    show ?thesis
    proof (cases "f = 0")
      case True
      with None freed [of s3] o o3 show ?thesis
        by (auto simp: unf)
    next
      case False
      have "efile_good (zero_efile\<lparr>handle_type := EHANDLE_NATIVE, fptr := Some (nat f)\<rparr>)"
        by (simp add: efile_good_def)
      with None False filled [of s3] o o3 show ?thesis
        by (auto simp: unf)
    qed
  next
    case (Some slot)
    show ?thesis
    proof (cases "mp_mode_writes mode")
      case True
      with Some freed [of "s2\<lparr>errno := EROFS\<rparr>"] show ?thesis
        by (auto simp: unf)
    next
      case False
      show ?thesis
      proof (cases "mp_efile_init_virtual (v_img env) False (v_mem env (world s2) 0) slot zero_efile")
        case (Inl x)
        with Some False w freed [of "s2\<lparr>errno := x\<rparr>"] show ?thesis
          by (auto simp: unf)
      next
        case (Inr e)
        then have "efile_good e" using init_virtual_good by blast
        with Some False w Inr filled [of s2 e] show ?thesis
          by (auto simp: unf)
      qed
    qed
  qed
qed

lemma neutral_more [simp]: "neutral ''freopen'' a" "neutral ''vfscanf'' a" "neutral ''fmemopen'' a"
  "neutral ''ftell'' a" "neutral ''feof'' a"
  by (simp_all add: neutral_def opens_fd_def)

lemma freopen_inv:
  assumes "posix env opened" "inv opened held s" "usable held e"
  shows "returns (mp_freopen env path mode e s) (\<lambda>e' s'. inv opened (holds e' (lets_go e held)) s')"
proof (cases e)
  case Null
  with assms(3) show ?thesis by simp
next
  case (Libc f)
  obtain r s' where c: "sys env ''freopen'' [CStr path, CStr mode, stream_arg (Libc f)] s = (r, s')" by fastforce
  with sys_neutral [OF c posixD(2) [OF assms(1)] _ assms(2)] Libc show ?thesis
    by (simp add: mp_freopen_def on_stream_def split: prod.split)
next
  case (Efile p)
  with assms(3) have p: "p \<in> held" by simp
  note k = posixD(2) [OF assms(1)]
  show ?thesis using assms(2) p
  proof (cases rule: held_cases)
    case (native ef f)
    obtain g s1 where c: "sysi env ''freopen'' [CStr path, CStr mode, CInt (int f)] s = (g, s1)" by fastforce
    note c1 = sysi_neutral [OF c k _ assms(2)] sysi_same [OF c]
    have v: "virtual_fd s1 x \<noteq> Some p" for x
      using native_unregistered [OF assms(2) native(1,2)] c1(2) by simp
    from drop_stream [OF _ p v] c1(1) obtain s2 where "free_efile p s1 = Some s2" "inv opened (held - {p}) s2"
      by (auto simp: mp_efile_destroy_def)
    moreover have "inv opened (insert p (held - {p})) (put_efile p (ef\<lparr>fptr := Some (nat g)\<rparr>) s1)"
      using inv_refill [OF _ p v, of opened "put_efile p (ef\<lparr>fptr := Some (nat g)\<rparr>) s1" "ef\<lparr>fptr := Some (nat g)\<rparr>"]
        c1(1) native(2) p by (simp add: put_efile_def efile_good_def insert_absorb)
    ultimately show ?thesis using Efile native c by (simp add: mp_freopen_def)
  next
    case (virt ef)
    show ?thesis
    proof (cases path)
      case None
      from fclose_inv [OF assms] obtain r s' where "mp_fclose env e s = Some (r, s')"
        "inv opened (lets_go e held) s'" by (rule returnsE)
      with None Efile virt assms(2) p show ?thesis by (simp add: mp_freopen_def insert_absorb)
    next
      case (Some a)
      with reopen_inv [OF assms(1,2) p, of "Some a" mode] Efile virt show ?thesis
        by (simp add: mp_freopen_def)
    qed
  qed
qed

lemma scan_private_same:
  assumes "posix env opened" "inv opened held s" "scan_private env fmt bs s = (r, s')"
  shows "inv opened held s'" "heap s' = heap s"
proof -
  note k = posixD(2) [OF assms(1)]
  obtain m s1 where a: "sysi env ''fmemopen'' [CBytes bs, CStr (Some ''r'')] s = (m, s1)" by fastforce
  obtain x s2 where b: "sysi env ''vfscanf'' [CInt m, CStr (Some fmt)] s1 = (x, s2)" by fastforce
  obtain u s3 where c: "sysi env ''ftell'' [CInt m] s2 = (u, s3)" by fastforce
  obtain f s4 where d: "sysi env ''feof'' [CInt m] s3 = (f, s4)" by fastforce
  obtain z s5 where e: "sysi env ''fclose'' [CInt m] s4 = (z, s5)" by fastforce
  note i1 = sysi_neutral [OF a k _ assms(2)] note i2 = sysi_neutral [OF b k _ i1]
  note i3 = sysi_neutral [OF c k _ i2] note i4 = sysi_neutral [OF d k _ i3]
  note i5 = sysi_neutral [OF e k _ i4]
  have "s' = s1 \<or> s' = s5"
    using assms(3) posixD(1) [OF assms(1)] a b c d e
    by (auto simp: scan_private_def private_stream_def split: if_splits)
  then show "inv opened held s'" "heap s' = heap s"
    using i1 i5 sysi_same [OF a] sysi_same [OF b] sysi_same [OF c] sysi_same [OF d] sysi_same [OF e] by auto
qed

lemma fscanf_inv:
  assumes "posix env opened" "inv opened held s" "usable held e"
  shows "returns (mp_fscanf env fmt e s) (\<lambda>r s'. inv opened held s')"
proof -
  note plain_case = on_stream_inv [OF assms, of "''vfscanf''" "plain 0"]
  show ?thesis
  proof (cases e)
    case (Efile p)
    with assms(3) have p: "p \<in> held" by simp
    show ?thesis using assms(2) p
    proof (cases rule: held_cases)
      case (native ef f)
      with plain_case Efile show ?thesis by (simp add: mp_fscanf_def plain_def)
    next
      case (virt ef)
      obtain scan s1 where c: "(if mp_avail ef = 0 then (None, s)
        else scan_private env fmt (bytes_here (mp_avail ef) ef) s) = (scan, s1)" by fastforce
      have i: "inv opened held s1" "heap s1 p = Some ef"
        using c scan_private_same [OF assms(1,2)] assms(2) virt(1) by (auto split: if_splits)
      obtain r ef2 where f: "fscanf_virtual False (\<lambda>_. scan) ef = (r, ef2)" by fastforce
      have "efile_ok ef2" using stream_step_ok [OF virt(3), of "Fscanf (\<lambda>_. scan)"] f by simp
      from put_efile_inv [OF i this] Efile virt c f posixD(1) [OF assms(1)] show ?thesis
        by (cases "mp_avail ef = 0") (simp_all add: mp_fscanf_def)
    qed
  qed (use plain_case assms(3) in \<open>auto simp: mp_fscanf_def plain_def\<close>)
qed

text \<open>The linker hooks on fds.\<close>

lemma lookup_virtual:
  assumes "inv opened held s"
  shows "mp_lookup_virtual_fd fd s = Some None \<and> virtual_fd s fd = None \<or>
    (\<exists>p e. mp_lookup_virtual_fd fd s = Some (Some (p, e)) \<and> virtual_fd s fd = Some p \<and> heap s p = Some e \<and> efile_ok e)"
proof (cases "virtual_fd s fd")
  case (Some p)
  from invD(5) [OF assms Some] obtain e where "heap s p = Some e" "efile_ok e" by blast
  with Some show ?thesis by (simp add: mp_lookup_virtual_fd_def efile_ok_def)
qed (simp add: mp_lookup_virtual_fd_def)

lemma efile_ok_pos: "efile_ok e \<Longrightarrow> 0 \<le> x \<Longrightarrow> efile_ok (e\<lparr>pos := x\<rparr>)"
  by (auto simp: efile_ok_def split: option.splits)

lemma wrap_read_inv:
  assumes "posix env opened" "inv opened held s"
  shows "returns (wrap_read env fd n s) (\<lambda>r s'. inv opened held s')"
  using lookup_virtual [OF assms(2), of fd]
proof (elim disjE exE conjE)
  assume "mp_lookup_virtual_fd fd s = Some None"
  with returns_sys [OF assms(1) _ assms(2), of "''read''" "[CInt fd, CInt (int n)]"] show ?thesis
    by (auto simp: wrap_read_def elim: returns_mono)
next
  fix p e
  assume a: "mp_lookup_virtual_fd fd s = Some (Some (p, e))" "heap s p = Some e" "efile_ok e"
  have "efile_ok (e\<lparr>pos := pos e + int m\<rparr>)" for m
    by (rule efile_ok_pos [OF a(3)]) (use a(3) in \<open>simp add: efile_ok_def\<close>)
  with a put_efile_inv [OF assms(2) a(2)] assms(2) show ?thesis by (simp add: wrap_read_def Let_def)
qed

lemma wrap_lseek_inv:
  assumes "posix env opened" "inv opened held s"
  shows "returns (wrap_lseek env fd off wh s) (\<lambda>r s'. inv opened held s')"
  using lookup_virtual [OF assms(2), of fd]
proof (elim disjE exE conjE)
  assume "mp_lookup_virtual_fd fd s = Some None"
  with returns_sysi [OF assms(1) _ assms(2), of "''lseek''" "[CInt fd, CInt off, CInt wh]"] show ?thesis
    by (auto simp: wrap_lseek_def elim: returns_mono)
next
  fix p e
  assume a: "mp_lookup_virtual_fd fd s = Some (Some (p, e))" "heap s p = Some e" "efile_ok e"
  have "efile_ok (snd (mp_virtual_seek False off wh e))" by (rule virtual_seek_ok(2) [OF a(3)])
  with a put_efile_inv [OF assms(2) a(2)] posixD(1) [OF assms(1)] show ?thesis
    by (auto simp: wrap_lseek_def split: prod.split option.split)
qed

lemma wrap_close_inv:
  assumes "posix env opened" "inv opened held s" "may_close held fd s"
  shows "returns (wrap_close env fd s) (\<lambda>r s'. inv opened held s' \<and> virtual_fd s' fd = None)"
proof -
  note k = posixD(2) [OF assms(1)]
  obtain e s1 where u: "mp_fd_unregister env fd s = (e, s1)" by fastforce
  note u1 = unregister_inv [OF assms(2) posixD(1) [OF assms(1)] u]
  obtain r s2 where c: "sysi env ''close'' [CInt fd] s1 = (r, s2)" by fastforce
  define held1 where "held1 = (case e of None \<Rightarrow> held | Some p \<Rightarrow> insert p held)"
  have "inv opened held1 s1" using u1(7,8) by (cases e) (simp_all add: held1_def)
  with sysi_close [OF c k] u1(2) have i2: "inv opened held1 s2" by simp
  have v: "virtual_fd s2 fd = None" using u1(2) sysi_same [OF c] by simp
  show ?thesis
  proof (cases e)
    case None
    with i2 v u c show ?thesis by (simp add: wrap_close_def held1_def mp_efile_destroy_def)
  next
    case (Some p)
    then have "p \<notin> held" using u1(1) assms(3) by (simp add: may_close_def)
    moreover have "virtual_fd s2 x \<noteq> Some p" for x using u1(8) [OF Some] sysi_same [OF c] by simp
    ultimately obtain s3 where "mp_efile_destroy (Some p) s2 = Some s3" "inv opened held s3" "fds s3 = fds s2"
      using destroy_fresh [of opened p held s2] i2 Some by (auto simp: held1_def)
    with Some u c v show ?thesis by (simp add: wrap_close_def)
  qed
qed

end
