(* ===== verification/Vfs_Machine.thy ===== *)
theory Vfs_Machine
  imports Vfs_Streams Vpath_Lookup
begin

text \<open>
  The runs of a program against the POSIX intercepts: a step relation whose steps are the calls, and what
  holds in every state it reaches.
\<close>

subsection \<open>Calls and runs\<close>

text \<open>
  The calls of the fd and stream interfaces. Buffers passed in are those the calls read; \<open>On op e\<close> is a
  stdio call on the stream \<open>e\<close>.
\<close>

datatype call =
    Open cptr int int | Openat int cstring int int | Close int
  | Dup int | Dup2 int int | Dup3 int int int | Fcntl int int int
  | Pread int nat int | Read_fd int nat | Lseek_fd int int int
  | Readv int "nat list" | Preadv int "nat list" int | Preadv2 int "nat list" int int
  | Mmap int nat int int int int
  | Pwrite int "u8 list" int | Writev int "u8 list list" | Pwritev int "u8 list list" int
  | Pwritev2 int "u8 list list" int int
  | Fopen cptr cptr | Fdopen int cptr | Fileno stream | Fclose stream | Freopen cptr cptr stream
  | On stdio_op stream | Scan cstring stream
  | Wrap_read int nat | Wrap_lseek int int int | Wrap_close int

definition then_hold :: "nat set \<Rightarrow> ('a \<times> 's) option \<Rightarrow> (nat set \<times> 's) option" where
  "then_hold held = map_option (\<lambda>(_, s). (held, s))"

text \<open>What a call does to the streams the program holds and to the state.\<close>

fun perform :: "'w vfs_env \<Rightarrow> call \<Rightarrow> nat set \<Rightarrow> 'w vfs \<Rightarrow> (nat set \<times> 'w vfs) option" where
  "perform env (Open path flags mode) held s = then_hold held (mp_open env path flags mode s)"
| "perform env (Openat fd path flags mode) held s = then_hold held (mp_openat env fd path flags mode s)"
| "perform env (Close fd) held s = then_hold held (mp_close env fd s)"
| "perform env (Dup fd) held s = then_hold held (mp_dup env fd s)"
| "perform env (Dup2 fd fd2) held s = then_hold held (mp_dup2 env fd fd2 s)"
| "perform env (Dup3 fd fd2 flags) held s = then_hold held (mp_dup3 env fd fd2 flags s)"
| "perform env (Fcntl fd cmd arg) held s = then_hold held (mp_fcntl env fd cmd arg s)"
| "perform env (Read_fd fd n) held s = then_hold held (mp_read env fd n s)"
| "perform env (Pread fd n off) held s = then_hold held (mp_pread env fd n off s)"
| "perform env (Lseek_fd fd off wh) held s = then_hold held (mp_lseek env fd off wh s)"
| "perform env (Readv fd iov) held s = then_hold held (mp_readv env fd iov s)"
| "perform env (Preadv fd iov off) held s = then_hold held (mp_preadv env fd iov off s)"
| "perform env (Preadv2 fd iov off flags) held s = then_hold held (mp_preadv2 env fd iov off flags s)"
| "perform env (Mmap addr len prot flags fd off) held s = then_hold held (mp_mmap env addr len prot flags fd off s)"
| "perform env (Pwrite fd buf off) held s = then_hold held (mp_pwrite env fd buf off s)"
| "perform env (Writev fd iov) held s = then_hold held (mp_writev env fd iov s)"
| "perform env (Pwritev fd iov off) held s = then_hold held (mp_pwritev env fd iov off s)"
| "perform env (Pwritev2 fd iov off flags) held s = then_hold held (mp_pwritev2 env fd iov off flags s)"
| "perform env (Fopen path mode) held s = map_option (\<lambda>(e, s). (holds e held, s)) (mp_fopen env path mode s)"
| "perform env (Fdopen fd mode) held s = map_option (\<lambda>(e, s). (holds e held, s)) (mp_fdopen env fd mode s)"
| "perform env (Fileno e) held s = then_hold held (mp_fileno env e s)"
| "perform env (Fclose e) held s = then_hold (lets_go e held) (mp_fclose env e s)"
| "perform env (Freopen path mode e) held s =
     map_option (\<lambda>(e', s). (holds e' (lets_go e held), s)) (mp_freopen env path mode e s)"
| "perform env (On op e) held s = then_hold held (run_stdio env op e s)"
| "perform env (Scan fmt e) held s = then_hold held (mp_fscanf env fmt e s)"
| "perform env (Wrap_read fd n) held s = then_hold held (wrap_read env fd n s)"
| "perform env (Wrap_lseek fd off wh) held s = then_hold held (wrap_lseek env fd off wh s)"
| "perform env (Wrap_close fd) held s = then_hold held (wrap_close env fd s)"

text \<open>
  What a program owes: it passes streams it holds, does not close the fd of a stream it still holds, and
  \<^verbatim>\<open>mp_fdopen\<close> finds memory.
\<close>

fun allowed :: "'w vfs_env \<Rightarrow> call \<Rightarrow> nat set \<Rightarrow> 'w vfs \<Rightarrow> bool" where
  "allowed env (Close fd) held s = may_close held fd s"
| "allowed env (Dup2 fd fd2) held s = (fd = fd2 \<or> may_close held fd2 s)"
| "allowed env (Dup3 fd fd2 flags) held s = (fd = fd2 \<or> may_close held fd2 s)"
| "allowed env (Fdopen fd mode) held s = may_fdopen env fd mode s"
| "allowed env (Fileno e) held s = usable held e"
| "allowed env (Fclose e) held s = usable held e"
| "allowed env (Freopen path mode e) held s = usable held e"
| "allowed env (On op e) held s = usable held e"
| "allowed env (Scan fmt e) held s = usable held e"
| "allowed env (Wrap_close fd) held s = may_close held fd s"
| "allowed env _ held s = True"

definition initial :: "'w vfs \<Rightarrow> bool" where
  "initial s \<longleftrightarrow> heap s = Map.empty \<and> fds s = fd2file_initial"

inductive reached :: "'w vfs_env \<Rightarrow> 'w vfs \<Rightarrow> nat set \<Rightarrow> 'w vfs \<Rightarrow> bool" for env s0 where
  start: "reached env s0 {} s0"
| step: "reached env s0 held s \<Longrightarrow> allowed env c held s \<Longrightarrow> perform env c held s = Some (held', s')
    \<Longrightarrow> reached env s0 held' s'"

subsection \<open>Safety\<close>

lemma returns_then:
  "returns m (\<lambda>r s'. inv opened held s')
     \<Longrightarrow> \<exists>held' s'. then_hold held m = Some (held', s') \<and> inv opened held' s'"
  by (auto simp: then_hold_def returns_def split: option.splits)

lemma returns_holding:
  "returns m (\<lambda>e s'. inv opened (f e) s')
     \<Longrightarrow> \<exists>held' s'. map_option (\<lambda>(e, s). (f e, s)) m = Some (held', s') \<and> inv opened held' s'"
  by (auto simp: returns_def split: option.splits)

lemma perform_ok:
  assumes "posix env opened" "inv opened held s" "allowed env c held s"
  shows "\<exists>held' s'. perform env c held s = Some (held', s') \<and> inv opened held' s'"
proof -
  note simple = returns_then [where opened = opened]
  have weak: "\<exists>held' s'. then_hold held m = Some (held', s') \<and> inv opened held' s'"
    if "returns m Q" "\<And>r s'. Q r s' \<Longrightarrow> inv opened held s'" for m :: "('x \<times> 'a vfs) option" and Q
    using that by (auto simp: then_hold_def returns_def split: option.splits)
  show ?thesis
  proof (cases c)
    case (Close fd)
    with weak [OF close_inv [OF assms(1,2)]] assms(3) show ?thesis by auto
  next
    case (Wrap_close fd)
    with weak [OF wrap_close_inv [OF assms(1,2)]] assms(3) show ?thesis by auto
  next
    case (Mmap addr len prot flags fd off)
    with weak [OF mmap_inv [OF assms(1,2)]] show ?thesis by auto
  next
    case (Fclose e)
    with returns_then [OF fclose_inv [OF assms(1,2)]] assms(3) show ?thesis by auto
  next
    case (Fopen path mode)
    with returns_holding [where f = "\<lambda>e. holds e held", OF fopen_inv [OF assms(1,2)]] show ?thesis by auto
  next
    case (Fdopen fd mode)
    with returns_holding [where f = "\<lambda>e. holds e held", OF fdopen_inv [OF assms(1,2)]] assms(3) show ?thesis by auto
  next
    case (Freopen path mode e)
    with returns_holding [where f = "\<lambda>e'. holds e' (lets_go e held)", OF freopen_inv [OF assms(1,2)]] assms(3)
    show ?thesis by auto
  next
    case (Dup2 fd fd2)
    with simple [OF dup_onto_inv [OF assms(1,2)]] assms(3) show ?thesis by (auto simp: mp_dup2_def)
  next
    case (Dup3 fd fd2 flags)
    with simple [OF dup_onto_inv [OF assms(1,2)]] assms(3) show ?thesis by (auto simp: mp_dup3_def)
  next
    case (Pwrite fd buf off)
    with simple [OF refuse_write_inv [OF assms(1,2)]] show ?thesis by (auto simp: mp_pwrite_def)
  next
    case (Writev fd iov)
    with simple [OF refuse_write_inv [OF assms(1,2)]] show ?thesis by (auto simp: mp_writev_def)
  next
    case (Pwritev fd iov off)
    with simple [OF refuse_write_inv [OF assms(1,2)]] show ?thesis by (auto simp: mp_pwritev_def)
  next
    case (Pwritev2 fd iov off flags)
    with simple [OF refuse_write_inv [OF assms(1,2)]] show ?thesis by (auto simp: mp_pwritev2_def)
  qed (use assms(3) simple [OF open_inv [OF assms(1,2)]] simple [OF openat_inv [OF assms(1,2)]]
      simple [OF dup_inv [OF assms(1,2)]] simple [OF fcntl_inv [OF assms(1,2)]]
      simple [OF read_inv [OF assms(1,2)]] simple [OF pread_inv [OF assms(1,2)]]
      simple [OF lseek_inv [OF assms(1,2)]] simple [OF readv_inv [OF assms(1,2)]]
      simple [OF preadv_inv [OF assms(1,2)]] simple [OF preadv2_inv [OF assms(1,2)]]
      simple [OF fileno_inv [OF assms(1,2)]] simple [OF stdio_inv [OF assms(1,2)]]
      simple [OF fscanf_inv [OF assms(1,2)]] simple [OF wrap_read_inv [OF assms(1,2)]]
      simple [OF wrap_lseek_inv [OF assms(1,2)]] in auto)
qed

lemma empty_inv:
  assumes "heap s = Map.empty" "fds s = fd2file_initial"
  shows "inv opened {} s"
proof -
  have "fd_map s = Map.empty"
    using assms(2) by (simp add: fd_map_def fun_eq_iff fd2file_initial_def mp_fd_lookup_def)
  with assms fdtable_ok_initial show ?thesis by (simp add: inv_def)
qed

lemma initial_inv: "initial s \<Longrightarrow> inv opened {} s"
  by (simp add: initial_def empty_inv)

lemma reached_inv:
  assumes "reached env s0 held s" "posix env opened" "initial s0"
  shows "inv opened held s"
  using assms
proof (induction rule: reached.induct)
  case start
  then show ?case by (simp add: initial_inv)
next
  case (step held s c held' s')
  with perform_ok [OF step.prems(1) _ step.hyps(2)] show ?case by auto
qed

subsection \<open>The properties\<close>



end
