(* ===== verification/Vfile_Props.thy ===== *)
theory Vfile_Props
  imports Vfile_Spec Blob_Example
begin

text \<open>
  The properties of virtual streams, and the round trip from the files the build script packed to
  the bytes a program reads.
\<close>

subsection \<open>Example streams\<close>

text \<open>The example image with a file of any content: the one frame decompresses to \<open>bs\<close>.\<close>

definition text_image :: "u8 list \<Rightarrow> image" where
  "text_image bs = example_image\<lparr>zstd_frame_size := (\<lambda>f. Zstd_Size (length bs)),
     zstd_decompress := (\<lambda>cap f. Some bs)\<rparr>"

definition text_stream :: "u8 list \<Rightarrow> efile" where
  "text_stream bs = zero_efile\<lparr>handle_type := EHANDLE_VIRTUAL, ename := ''~/lib/a'', pos := 1,
     eend := 1 + int (length bs), esize := length bs, emap_slot := Suc 0, owned_buf := Some (0 # bs)\<rparr>"

lemma ex_emap_of:
  "emap_of example_image (Suc 0) = \<lparr> em_hash = 15954595338620067225, data_pos = 0, data_size = 1,
     children_start = 0, path_offset = 6, children_count = 0, path_len = 7, em_type = 1 \<rparr>"
  "emap_of example_image 0 = \<lparr> em_hash = 8905131798615252409, data_pos = 0, data_size = 0,
     children_start = 0, path_offset = 0, children_count = 1, path_len = 5, em_type = 0 \<rparr>"
  by (simp_all add: emap_of_def embed_ptrs_of_def ex_ptrs entry_at_def EMAP_SIZE_def ex_simple
      ex_map_reads)

lemma ex_path: "mp_path_of example_image (Suc 0) = ''~/lib/a''"
  by (simp add: mp_path_of_def embed_ptrs_of_def ex_ptrs ex_emap_of ex_simple cstr_at_def example_map_def
      char_of_def bit_0)

lemma ex_content: "file_content example_image (Suc 0) = Some [7]"
proof -
  have "frame_of example_image (Suc 0) = [7]" by (simp add: frame_of_def ex_emap_of ex_simple)
  then show ?thesis by (simp add: file_content_def ex_emap_of) (simp add: example_image_def)
qed

lemma text_image_same:
  "emap_of (text_image bs) k = emap_of example_image k" "mp_path_of (text_image bs) k = mp_path_of example_image k"
  by (simp_all add: text_image_def emap_of_def mp_path_of_def embed_ptrs_of_def mp_embed_init_def)

lemma text_file: "is_file (emap_of (text_image bs) (Suc 0))"
  by (simp add: text_image_same ex_emap_of is_file_def)

lemma text_content: "file_content (text_image bs) (Suc 0) = Some bs"
  using ex_emap_of by (simp add: file_content_def text_image_same) (simp add: text_image_def)

lemma text_opened: "mp_efile_init_virtual (text_image bs) False True (Suc 0) zero_efile = Inr (text_stream bs)"
  by (simp add: init_virtual_file [OF text_file text_content] text_stream_def text_image_same ex_path
      zero_efile_def)

lemma text_reach: "stream_reach (text_image bs) (Suc 0) (text_stream bs)"
  by (rule stream_reach.opened [OF text_opened])

lemma text_views:
  "unread (text_stream bs) = bs" "content_of (text_stream bs) = bs" "esize (text_stream bs) = length bs"
  "unget_saved (text_stream bs) = 0" "err (text_stream bs) = 0" "pos (text_stream bs) = 1"
  "owned_buf (text_stream bs) = Some (0 # bs)" "eend (text_stream bs) = 1 + int (length bs)"
  by (simp_all add: text_stream_def unread_def content_of_def mp_unget_restore_def zero_efile_def)

subsection \<open>Properties\<close>

text \<open>
  C6. Whatever sequence of reads, seeks, push-backs, flag resets and refused writes a virtual stream
  goes through, it stays well-formed (the position is in or past its buffer, the buffer has the size
  of the file and a byte of headroom), belongs to its entry, and the file's bytes are what they were.
\<close>

theorem stream_invariant:
  assumes "stream_reach img slot e"
  shows "efile_ok e \<and> emap_slot e = slot
     \<and> (is_file (emap_of img slot) \<longrightarrow> file_content img slot = Some (content_of e))"
  using assms by (rule stream_reach_ok)

theorem stream_invariant_witness:
  "content_of (stream_step (Ungetc 9) (stream_step Fgetc (text_stream [1, 2]))) = [1, 2]"
  using stream_invariant [OF stream_reach.stepped [OF stream_reach.stepped [OF text_reach [of "[1, 2]"], of Fgetc],
        of "Ungetc 9"]] text_content text_file by auto

text \<open>
  C29. \<^verbatim>\<open>mp_fread\<close> on a virtual stream stores the next \<open>sz * count\<close> bytes, or all that is left, returns
  the number of complete items, moves past what it stored, and sets the end-of-file flag exactly when
  fewer bytes were left than asked for, also when the product exceeds \<^verbatim>\<open>size_t\<close>.
\<close>

theorem fread_spec:
  assumes "stream_reach img slot e" and "esize e + 2 \<le> SIZE_MAX" and "sz \<noteq> 0" and "count \<noteq> 0"
    and "fread_virtual False sz count e = ((n, bs), e')"
  shows "bs = take (sz * count) (unread e) \<and> n = min count (length (unread e) div sz)
     \<and> unread e' = drop (sz * count) (unread e)
     \<and> (feof_virtual e' \<longleftrightarrow> feof_virtual e \<or> length (unread e) < sz * count)"
proof -
  have ok: "efile_ok e" using stream_reach_ok [OF assms(1)] by blast
  have le: "length (unread e) < SIZE_MAX" using assms(2) ok
    by (auto elim!: efile_ok_cases simp: unread_def)
  have big: "SIZE_MAX < sz * count" if "SIZE_MAX div sz < count"
  proof -
    have "sz * Suc (SIZE_MAX div sz) \<le> sz * count" using that by (intro mult_le_mono2) simp
    with dividend_less_times_div [of sz SIZE_MAX] assms(3) show ?thesis by simp
  qed
  have w: "take (wanted sz count) (unread e) = take (sz * count) (unread e)"
    "drop (wanted sz count) (unread e) = drop (sz * count) (unread e)"
    "length (unread e) < wanted sz count \<longleftrightarrow> length (unread e) < sz * count"
    using le big by (auto simp: wanted_def)
  have n: "(if length (unread e) < sz * count then length (unread e) div sz else count)
      = min count (length (unread e) div sz)"
  proof (cases "length (unread e) < sz * count")
    case True
    then have "length (unread e) div sz < count" by (simp add: less_mult_imp_div_less mult.commute)
    with True show ?thesis by simp
  next
    case False
    then have "sz * count div sz \<le> length (unread e) div sz" by (intro div_le_mono) simp
    with False assms(3) show ?thesis by simp
  qed
  show ?thesis
    using fread_virtual_ok [OF ok assms(3,4)] w n assms(5) by (simp add: advances_def)
qed

theorem fread_spec_witness:
  "fread_virtual False 2 4 (text_stream [1, 2, 3]) = ((1, [1, 2, 3]),
     (text_stream [1, 2, 3])\<lparr>pos := 4, err := 1\<rparr>) \<and> min (4::nat) (3 div 2) = 1"
proof -
  have r: "fread_virtual False 2 4 (text_stream [1, 2, 3]) = ((1, [1, 2, 3]),
     (text_stream [1, 2, 3])\<lparr>pos := 4, err := 1\<rparr>)"
    by (simp add: fread_virtual_def mp_avail_def text_views bytes_here_def SIZE_MAX_def Let_def MP_EFILE_EOF_def)
  with fread_spec [OF text_reach [of "[1, 2, 3]"] _ _ _ r] show ?thesis
    by (simp add: text_views SIZE_MAX_def)
qed


text \<open>
  C30. \<^verbatim>\<open>mp_fgets\<close> with room for \<open>num\<close> characters returns NULL when there is no room for one or nothing
  is left; otherwise the rest of the line up to and including its newline, at most \<open>num - 1\<close> bytes (so
  the terminating NUL fits), and moves past exactly what it returned.
\<close>

theorem fgets_spec:
  assumes "stream_reach img slot e" and "fgets_virtual False num e = (r, e')"
  shows "r = (if num \<le> 1 \<or> unread e = [] then None else Some (take_line (nat (num - 1)) (unread e)))
     \<and> unread e' = drop (case r of None \<Rightarrow> 0 | Some s \<Rightarrow> length s) (unread e)
     \<and> (case r of None \<Rightarrow> True | Some s \<Rightarrow> int (length s) < num \<and> s = take (length s) (unread e)
          \<and> NEWLINE \<notin> set (butlast s))"
proof -
  have ok: "efile_ok e" using stream_reach_ok [OF assms(1)] by blast
  have len: "length (take_line k bs) \<le> k" and nl: "NEWLINE \<notin> set (butlast (take_line k bs))" for k bs
    by (induction k bs rule: take_line.induct) auto
  have "int (length (take_line (nat (num - 1)) bs)) < num" if "\<not> num \<le> 1" for bs
    using len [of "nat (num - 1)" bs] that by linarith
  then show ?thesis
    using fgets_virtual_ok [OF ok, of num] assms(2) nl by (auto simp: advances_def take_line_prefix)
qed

theorem fgets_spec_witness:
  "fgets_virtual False 4 (text_stream [65, 10, 66]) = (Some [65, 10], (text_stream [65, 10, 66])\<lparr>pos := 3\<rparr>)
   \<and> take_line 3 [65, 10, 66] = [65, 10]"
proof -
  have r: "fgets_virtual False 4 (text_stream [65, 10, 66]) = (Some [65, 10], (text_stream [65, 10, 66])\<lparr>pos := 3\<rparr>)"
    by (simp add: fgets_virtual_def mp_avail_def text_views bytes_here_def Let_def numeral_3_eq_3)
  with fgets_spec [OF text_reach r] show ?thesis by (simp add: text_views)
qed

text \<open>
  C31. \<^verbatim>\<open>mp_getline\<close> never stores outside the buffer it reports (there is always room for the NUL), and
  when memory suffices returns the next line, newline included, whatever its length, or -1 when
  nothing is left; it moves past exactly the line.
\<close>

theorem getline_spec:
  assumes "stream_reach img slot e" and "getline_virtual mem (Some (has_buf, n)) e = ((r, en, line, cap), e')"
  shows "(cap = 0 \<or> length line < cap) \<and> content_of e' = content_of e
     \<and> ((\<forall>k. mem k) \<longrightarrow> line = first_line (unread e) \<and> r = (if line = [] then - 1 else int (length line))
          \<and> unread e' = drop (length line) (unread e))"
proof -
  have ok: "efile_ok e" using stream_reach_ok [OF assms(1)] by blast
  have loop: "length line < cap \<and> content_of e' = content_of e
     \<and> ((\<forall>k. mem k) \<longrightarrow> line = first_line (unread e) \<and> r = (if line = [] then - 1 else int (length line))
          \<and> unread e' = drop (length line) (unread e))"
    if "getline_loop mem k c [] e = ((r, line, cap), e')" "0 < c" for k c
    using getline_loop_ok [OF ok, of "[]" c mem k] that by (auto simp: advances_def)
  consider "\<not> has_buf \<or> n = 0" "\<not> mem 0" | "\<not> has_buf \<or> n = 0" "mem 0" | "has_buf" "0 < n" by auto
  then show ?thesis
  proof cases
    case 1
    with assms(2) show ?thesis by (auto simp: getline_virtual_def)
  next
    case 2
    with assms(2) loop [of 1 128] show ?thesis
      by (auto simp: getline_virtual_def split: prod.splits)
  next
    case 3
    with assms(2) loop [of 0 n] show ?thesis
      by (auto simp: getline_virtual_def split: prod.splits)
  qed
qed


theorem getline_spec_witness:
  "getline_virtual (\<lambda>k. True) (Some (False, 0)) (text_stream [65, 10, 66])
     = ((2, None, [65, 10], 128), (text_stream [65, 10, 66])\<lparr>pos := 3\<rparr>)
   \<and> first_line [65, 10, 66] = [65, 10]"
proof -
  have r: "getline_virtual (\<lambda>k. True) (Some (False, 0)) (text_stream [65, 10, 66])
     = ((2, None, [65, 10], 128), (text_stream [65, 10, 66])\<lparr>pos := 3\<rparr>)"
    by (simp add: getline_virtual_def getline_loop.simps fgetc_virtual_def mp_avail_def text_views bytes_here_def Let_def)
  with getline_spec [OF text_reach r] show ?thesis by (simp add: text_views)
qed

text \<open>
  C32. \<^verbatim>\<open>mp_fseek\<close> accepts the three origins and any target from 0 on, past the end too, and fails
  otherwise leaving position and flags alone; after a successful seek the stream reads the file's own
  bytes from the target on (a push-back is undone), \<^verbatim>\<open>mp_ftell\<close> reports the target and the end-of-file
  flag is clear.
\<close>

theorem fseek_spec:
  assumes "stream_reach img slot e" and "fseek_virtual False offset whence e = (r, en, e')"
  shows "case seek_target offset whence e of
       None \<Rightarrow> r = - 1 \<and> en = Some EINVAL \<and> e' = e
     | Some t \<Rightarrow> r = 0 \<and> 0 \<le> t \<and> unread e' = drop (nat t) (content_of e)
         \<and> fst (ftell_virtual False e') = t \<and> \<not> feof_virtual e'"
proof -
  have ok: "efile_ok e" using stream_reach_ok [OF assms(1)] by blast
  have clear: "(x AND NOT MP_EFILE_EOF) AND MP_EFILE_EOF = 0" for x
    by (simp add: and.assoc)
  have nonneg: "0 \<le> t" if "seek_target offset whence e = Some t" for t
    using that by (auto simp: seek_target_def Let_def split: if_splits)
  show ?thesis
    using virtual_seek_ok [OF ok, of offset whence] assms(2) clear nonneg
    by (cases "mp_virtual_seek False offset whence e"; cases "seek_target offset whence e")
      (auto simp: fseek_virtual_def ftell_virtual_def feof_virtual_def efile_simps)
qed

theorem fseek_spec_witness:
  "seek_target (- 1) SEEK_END (text_stream [5, 6, 7]) = Some 2
   \<and> unread (snd (snd (fseek_virtual False (- 1) SEEK_END (text_stream [5, 6, 7])))) = [7]"
proof -
  obtain r en e' where f: "fseek_virtual False (- 1) SEEK_END (text_stream [5, 6, 7]) = (r, en, e')"
    by (metis prod.collapse)
  have "seek_target (- 1) SEEK_END (text_stream [5, 6, 7]) = Some 2"
    by (simp add: seek_target_def text_views wrap64_def)
  with fseek_spec [OF text_reach f] f show ?thesis by (simp add: text_views)
qed

text \<open>
  C33. Push-back: when \<^verbatim>\<open>mp_ungetc\<close> accepts a byte, the next read returns it and then goes on where the
  stream was; when it refuses, nothing is lost; the file's content never changes; and one byte is
  accepted at every position of a file but past the end, as long as none is pending.
\<close>

theorem ungetc_spec:
  assumes "stream_reach img slot e" and "0 \<le> ch" and "ch < 256"
    and "ungetc_virtual False ch e = (r, e')"
  shows "(if can_unget (word_of_int ch) e
      then r = ch \<and> fst (fgetc_virtual False e') = Some (word_of_int ch)
         \<and> unread (snd (fgetc_virtual False e')) = unread e
      else r = - 1 \<and> unread e' = unread e)
    \<and> content_of e' = content_of e
    \<and> (unget_saved e = 0 \<and> owned_buf e \<noteq> None \<and> 0 < pos e \<and> pos e \<le> eend e
         \<longrightarrow> can_unget (word_of_int ch) e)"
proof -
  have ok: "efile_ok e" using stream_reach_ok [OF assms(1)] by blast
  have "uint (word_of_int ch :: u8) = ch" using assms(2,3) by (simp add: uint_word_of_int)
  moreover have "ch \<noteq> - 1" using assms(2) by simp
  ultimately show ?thesis
    using ungetc_virtual_ok [OF ok, of ch] fgetc_virtual_ok [of e'] assms(4)
    by (auto simp: advances_def can_unget_def)
qed

theorem ungetc_spec_witness:
  "fst (ungetc_virtual False 9 (text_stream [1])) = 9
   \<and> unread (snd (fgetc_virtual False (snd (ungetc_virtual False 9 (text_stream [1]))))) = [1]"
proof -
  obtain r e' where u: "ungetc_virtual False 9 (text_stream [1]) = (r, e')" by (metis prod.collapse)
  have "can_unget (word_of_int 9) (text_stream [1])" by (simp add: can_unget_def text_views)
  with ungetc_spec [OF text_reach _ _ u] u show ?thesis by (simp add: text_views)
qed

text \<open>
  \<^verbatim>\<open>mp_pread\<close> on a virtual file returns the bytes at the offset without moving the stream, as
  long as no pushed-back byte is pending in the buffer.
\<close>

theorem pread_spec:
  assumes "stream_reach img slot e" and "unget_saved e = 0" and "0 \<le> offset"
  shows "pread_virtual count offset e
    = (int (length (take count (drop (nat offset) (content_of e)))), None,
       take count (drop (nat offset) (content_of e)))"
proof (cases "content_of e = []")
  case True
  with stream_reach_ok [OF assms(1)] assms(3) length_content [of e] show ?thesis
    by (simp add: pread_virtual_def)
next
  case False
  with stream_reach_ok [OF assms(1)] assms(2,3) pread_virtual_ok show ?thesis by blast
qed

theorem pread_spec_witness:
  "pread_virtual 5 1 (text_stream [5, 6, 7]) = (2, None, [6, 7])"
  using pread_spec [OF text_reach, of "[5, 6, 7]" 1 5] by (simp add: text_views)

text \<open>
  A pushed-back byte is stored in the buffer that \<^verbatim>\<open>mp_pread\<close> copies from, and stays there after it
  has been read back, so a positional read returns a byte the file does not have.
\<close>

lemma pread_sees_pushback:
  "let e = stream_step Fgetc (stream_step (Ungetc 9) (stream_step Fgetc (text_stream [1, 2])))
   in pread_virtual 2 0 e = (2, None, [9, 2]) \<and> content_of e = [1, 2]"
  by (simp add: fgetc_virtual_def ungetc_virtual_def mp_unget_def mp_avail_def text_views bytes_here_def
      Let_def pread_virtual_def content_of_def mp_unget_restore_def text_stream_def zero_efile_def)


subsection \<open>From the packed files to the bytes read\<close>

text \<open>What the runtime relies on of the zstd library: frames are non-empty and state their size.\<close>

definition zstd_inverts :: "image \<Rightarrow> (u8 list \<Rightarrow> u8 list) \<Rightarrow> bool" where
  "zstd_inverts img compress \<longleftrightarrow> (\<forall>c. c \<noteq> [] \<longrightarrow> compress c \<noteq> []
     \<and> zstd_frame_size img (compress c) = Zstd_Size (length c)
     \<and> zstd_decompress img (length c) (compress c) = Some c)"

text \<open>Reading in chunks of the given sizes.\<close>

fun read_chunks :: "nat list \<Rightarrow> efile \<Rightarrow> u8 list list" where
  "read_chunks [] e = []"
| "read_chunks (n # ns) e = (let (bs, e) = read_virtual False n e in bs # read_chunks ns e)"

lemma read_chunks_concat:
  "efile_ok e \<Longrightarrow> concat (read_chunks ns e) = take (sum_list ns) (unread e)"
proof (induction ns arbitrary: e)
  case Nil
  show ?case by simp
next
  case (Cons n ns)
  obtain bs e' where r: "read_virtual False n e = (bs, e')" by (metis prod.collapse)
  with read_virtual_ok [OF Cons.prems, of n] have
    "bs = take n (unread e)" "efile_ok e'" "unread e' = drop n (unread e)" by (simp_all add: advances_def)
  with Cons.IH [of e'] r show ?case by (simp add: take_add)
qed

text \<open>
  C5. The round trip: every file the script packed can be opened by its path in any casing and, read
  in chunks of whatever sizes, yields exactly the bytes it had when it was packed.
\<close>

theorem packed_file_reads_back:
  assumes "build_blob compress ws = Inr (nuitka_embed_map img, nuitka_embed_data img)"
    and "collect_entries ws = Inr es" and "e \<in> set es" and "etype e = 1"
    and "map mp_ascii_lower p = map mp_ascii_lower (vpath e)"
    and "zstd_inverts img compress"
  shows "\<exists>slot st. find_embedded_file img p = Some slot
     \<and> mp_efile_init_virtual img False True slot zero_efile = Inr st
     \<and> unread st = content e \<and> concat (read_chunks ns st) = take (sum_list ns) (content e)"
proof -
  have "built img ws compress" using assms(1) by (simp add: built_def)
  from find_every_entry_slot [OF this assms(2,3,5)] obtain se seeds slots cs i where
    d: "describes compress img es se seeds slots cs" and i: "i < length es" "e = es ! i"
    and f: "find_embedded_file img p = Some (slots ! i)" .
  have ne: "es \<noteq> []" using i by auto
  note entry = describes_entry [OF d ne i(1)]
  have isf: "is_file (emap_of img (slots ! i))" using entry(1) i(2) assms(4) by (simp add: is_file_def)
  have "file_content img (slots ! i) = Some (content e)"
    using assms(4,6) entry(4,5) i(2) by (auto simp: file_content_def zstd_inverts_def)
  note init = init_virtual_file [OF isf this, of zero_efile]
  from init_virtual_ok [OF init] have ok: "efile_ok (projr (mp_efile_init_virtual img False True (slots ! i) zero_efile))"
    and u: "unread (projr (mp_efile_init_virtual img False True (slots ! i) zero_efile)) = content e"
    using init by (auto simp: unread_def)
  show ?thesis
    using f init u read_chunks_concat [OF ok, of ns] by auto
qed

theorem packed_file_reads_back_witness:
  "\<exists>slot st. find_embedded_file example_image ''~/Lib/A'' = Some slot
     \<and> mp_efile_init_virtual example_image False True slot zero_efile = Inr st
     \<and> concat (read_chunks [0, 5, 1] st) = [7]"
proof -
  have z: "zstd_inverts example_image (\<lambda>c. c)"
    by (simp add: zstd_inverts_def example_image_def)
  show ?thesis
    using packed_file_reads_back [OF ex_built ex_entries, of "ex_file 0 0" "''~/Lib/A''" "[0, 5, 1]", OF _ _ _ z]
    by (auto simp: ex_defs ex_lower)
qed

end
