(* ===== verification/Vfs_Dir.thy ===== *)
theory Vfs_Dir
  imports Vfs_Fd "HOL-Library.Signed_Division"
begin

text \<open>
  Metadata and directories on POSIX (Embedded/mp_embed.c: \<^verbatim>\<open>mp_fill_stat\<close>, \<^verbatim>\<open>mp_stat\<close> to \<^verbatim>\<open>mp_fstatvfs\<close>,
  \<^verbatim>\<open>mp_opendir\<close> to \<^verbatim>\<open>mp_rewinddir\<close>).
\<close>

subsection \<open>Metadata\<close>

record vstat =
  st_mode :: int
  st_size :: int
  st_nlink :: int
  st_ino :: u64
  st_dev :: nat
  st_time :: "int \<times> int"

text \<open>What a stat call stores: a virtual entry's data, or what the kernel stored.\<close>

datatype stat_buf = Virtual_Stat vstat | Os_Stat "u8 list" | No_Stat

abbreviation (input) S_IFDIR :: int where "S_IFDIR \<equiv> 0x4000"
abbreviation (input) S_IFREG :: int where "S_IFREG \<equiv> 0x8000"
abbreviation (input) W_OK :: int where "W_OK \<equiv> 2"
abbreviation (input) AT_EMPTY_PATH :: int where "AT_EMPTY_PATH \<equiv> 0x1000"

definition MP_VIRTUAL_INO_BASE :: u64 where "MP_VIRTUAL_INO_BASE = 0x4d50000000000000"

definition mp_fill_stat :: "'w vfs_env \<Rightarrow> nat \<Rightarrow> vstat" where
  "mp_fill_stat env slot =
     (let mode = 0x100 OR 0x40 OR 0x20 OR 8 OR 4 OR 1;
          ns = mp_mtime_ns (v_img env) slot
      in \<lparr> st_mode = mode OR (if is_dir (entry_of env slot) then S_IFDIR else S_IFREG),
           st_size = int (mp_uncompressed_size (v_img env) slot),
           st_nlink = 1,
           st_ino = MP_VIRTUAL_INO_BASE + word_of_nat slot,
           st_dev = mp_exec_dev (v_xp env),
           st_time = (ns sdiv 1000000000, ns smod 1000000000) \<rparr>)"

type_synonym stat_ret = "int \<times> stat_buf"

definition sys_stat :: "'w vfs_env \<Rightarrow> string \<Rightarrow> carg list \<Rightarrow> ('w, 'z) vfs_scheme
    \<Rightarrow> (stat_ret \<times> ('w, 'z) vfs_scheme) option" where
  "sys_stat env name args s = (case sys env name args s of ((r, bs), s) \<Rightarrow> Some ((r, Os_Stat bs), s))"

definition mp_stat :: "'w vfs_env \<Rightarrow> cptr \<Rightarrow> ('w, 'z) vfs_scheme \<Rightarrow> (stat_ret \<times> ('w, 'z) vfs_scheme) option" where
  "mp_stat env path s =
     (case find_virtual env path s of
        Some slot \<Rightarrow> Some ((0, Virtual_Stat (mp_fill_stat env slot)), s)
      | None \<Rightarrow> sys_stat env ''stat'' [CStr path] s)"

definition mp_lstat :: "'w vfs_env \<Rightarrow> cptr \<Rightarrow> ('w, 'z) vfs_scheme \<Rightarrow> (stat_ret \<times> ('w, 'z) vfs_scheme) option" where
  "mp_lstat env path s =
     (case find_virtual env path s of
        Some slot \<Rightarrow> Some ((0, Virtual_Stat (mp_fill_stat env slot)), s)
      | None \<Rightarrow> sys_stat env ''lstat'' [CStr path] s)"

definition mp_fstat :: "'w vfs_env \<Rightarrow> int \<Rightarrow> ('w, 'z) vfs_scheme \<Rightarrow> (stat_ret \<times> ('w, 'z) vfs_scheme) option" where
  "mp_fstat env fd s =
     (case virtual_fd s fd of
        Some p \<Rightarrow> do { e \<leftarrow> heap s p; Some ((0, Virtual_Stat (mp_fill_stat env (emap_slot e))), s) }
      | None \<Rightarrow> sys_stat env ''fstat'' [CInt fd] s)"

definition mp_fstatat :: "'w vfs_env \<Rightarrow> int \<Rightarrow> cstring \<Rightarrow> int \<Rightarrow> ('w, 'z) vfs_scheme
    \<Rightarrow> (stat_ret \<times> ('w, 'z) vfs_scheme) option" where
  "mp_fstatat env dirfd path flags s =
     (if path = [] \<and> has_flag flags AT_EMPTY_PATH then mp_fstat env dirfd s
      else do {
        ((found, slot), s) \<leftarrow> mp_find_virtual_at env dirfd path s;
        if found > 0 then Some ((0, Virtual_Stat (mp_fill_stat env slot)), s)
        else if found < 0 then Some ((- 1, No_Stat), s)
        else sys_stat env ''fstatat'' [CInt dirfd, CStr (Some path), CInt flags] s })"

text \<open>The hook for code that was not compiled against the header.\<close>

definition wrap_fstat :: "'w vfs_env \<Rightarrow> int \<Rightarrow> ('w, 'z) vfs_scheme \<Rightarrow> (stat_ret \<times> ('w, 'z) vfs_scheme) option" where
  "wrap_fstat env fd s =
     (case virtual_fd s fd of
        Some p \<Rightarrow> do {
          e \<leftarrow> heap s p;
          if handle_type e = EHANDLE_VIRTUAL
          then Some ((0, Virtual_Stat (mp_fill_stat env (emap_slot e))), s)
          else sys_stat env ''fstat'' [CInt fd] s }
      | None \<Rightarrow> sys_stat env ''fstat'' [CInt fd] s)"

definition mp_virtual_access :: "int \<Rightarrow> ('w, 'z) vfs_scheme \<Rightarrow> (int \<times> ('w, 'z) vfs_scheme) option" where
  "mp_virtual_access mode s = (if has_flag mode W_OK then fail_with EROFS s else Some (0, s))"

definition mp_access :: "'w vfs_env \<Rightarrow> cptr \<Rightarrow> int \<Rightarrow> ('w, 'z) vfs_scheme \<Rightarrow> (int \<times> ('w, 'z) vfs_scheme) option" where
  "mp_access env path mode s =
     (case find_virtual env path s of
        Some slot \<Rightarrow> mp_virtual_access mode s
      | None \<Rightarrow> Some (sysi env ''access'' [CStr path, CInt mode] s))"

definition mp_faccessat :: "'w vfs_env \<Rightarrow> int \<Rightarrow> cstring \<Rightarrow> int \<Rightarrow> int \<Rightarrow> ('w, 'z) vfs_scheme
    \<Rightarrow> (int \<times> ('w, 'z) vfs_scheme) option" where
  "mp_faccessat env dirfd path mode flags s = do {
     ((found, slot), s) \<leftarrow> mp_find_virtual_at env dirfd path s;
     if found > 0 then mp_virtual_access mode s
     else if found < 0 then Some (- 1, s)
     else Some (sysi env ''faccessat'' [CInt dirfd, CStr (Some path), CInt mode, CInt flags] s) }"

definition mp_statvfs :: "'w vfs_env \<Rightarrow> cptr \<Rightarrow> ('w, 'z) vfs_scheme \<Rightarrow> (ret \<times> ('w, 'z) vfs_scheme) option" where
  "mp_statvfs env path s =
     (case find_virtual env path s of
        Some slot \<Rightarrow> Some (sys env ''statvfs'' [CStr (Some (mp_execfolder (v_xp env)))] s)
      | None \<Rightarrow> Some (sys env ''statvfs'' [CStr path] s))"

definition mp_fstatvfs :: "'w vfs_env \<Rightarrow> int \<Rightarrow> ('w, 'z) vfs_scheme \<Rightarrow> (ret \<times> ('w, 'z) vfs_scheme) option" where
  "mp_fstatvfs env fd s =
     (if virtual_fd s fd \<noteq> None then Some (sys env ''statvfs'' [CStr (Some (mp_execfolder (v_xp env)))] s)
      else Some (sys env ''fstatvfs'' [CInt fd] s))"

subsection \<open>Directory streams\<close>

text \<open>
  A VDIR lists the children of an entry, then what lies on disk under it. A real DIR is the number the C
  library returned; \<^verbatim>\<open>readdir\<close> on it gives the name (without NUL) in the bytes stored.
\<close>

record vdir =
  dir_map :: nat
  next_child :: nat
  dir_fd :: int
  real_dir :: int

record 'w pfs = "'w vfs" +
  vdirs :: "nat \<Rightarrow> vdir option"
  dbrk :: nat
  open_vdirs :: "nat list"

definition mp_vdir_open_real :: "'w vfs_env \<Rightarrow> nat \<Rightarrow> ('w, 'z) vfs_scheme \<Rightarrow> int \<times> ('w, 'z) vfs_scheme" where
  "mp_vdir_open_real env dir s =
     (let vpath = mp_path_of (v_img env) dir;
          path = (if take 1 vpath = ''~'' then mp_execfolder (v_xp env) @ drop 1 vpath else vpath);
          path = take (PATH_MAX - 1) path;
          x = errno s;
          (real, s) = sysi env ''opendir'' [CStr (Some path)] s
      in (real, s\<lparr>errno := x\<rparr>))"

text \<open>A DIR pointer: one of the C library's, or the address of a VDIR.\<close>

datatype dirp = Libc_Dir int | Vdir nat | Null_Dir

definition libc_dir :: "int \<Rightarrow> dirp" where
  "libc_dir p = (if p = 0 then Null_Dir else Libc_Dir p)"

definition dir_arg :: "dirp \<Rightarrow> carg" where
  "dir_arg d = CInt (case d of Libc_Dir p \<Rightarrow> p | Vdir p \<Rightarrow> int p | Null_Dir \<Rightarrow> 0)"

definition mp_vdir_open :: "'w vfs_env \<Rightarrow> nat \<Rightarrow> int \<Rightarrow> 'w pfs \<Rightarrow> dirp \<times> 'w pfs" where
  "mp_vdir_open env dir fd s =
     (if \<not> v_mem env (world s) 0 then (Null_Dir, s\<lparr>errno := ENOMEM\<rparr>)
      else let (real, s) = mp_vdir_open_real env dir s;
               p = dbrk s;
               s = s\<lparr>dbrk := p + 1\<rparr>
           in case vdir_claim p (open_vdirs s) of
                Some t \<Rightarrow> (Vdir p, s\<lparr>open_vdirs := t, vdirs := (vdirs s)(p \<mapsto>
                   \<lparr> dir_map = dir, next_child = 0, dir_fd = fd, real_dir = real \<rparr>)\<rparr>)
              | None \<Rightarrow>
                  let s = (if real \<noteq> 0 then snd (sysi env ''closedir'' [CInt real] s) else s)
                  in (Null_Dir, s\<lparr>errno := EMFILE\<rparr>))"

text \<open>
  The scan compares addresses. For NULL it stops at a free slot, but what it returns is NULL either way.
\<close>

definition mp_vdir_lookup :: "dirp \<Rightarrow> 'w pfs \<Rightarrow> nat option" where
  "mp_vdir_lookup d s =
     (case d of Libc_Dir p \<Rightarrow> None | Vdir p \<Rightarrow> vdir_scan p (open_vdirs s)
      | Null_Dir \<Rightarrow> None)"

definition mp_opendir :: "'w vfs_env \<Rightarrow> cptr \<Rightarrow> 'w pfs \<Rightarrow> (dirp \<times> 'w pfs) option" where
  "mp_opendir env path s =
     (case find_virtual env path s of
        Some slot \<Rightarrow>
          if \<not> is_dir (entry_of env slot) then Some (Null_Dir, s\<lparr>errno := ENOTDIR\<rparr>)
          else Some (mp_vdir_open env slot (- 1) s)
      | None \<Rightarrow> let (p, s) = sysi env ''opendir'' [CStr path] s in Some (libc_dir p, s))"

definition mp_fdopendir :: "'w vfs_env \<Rightarrow> int \<Rightarrow> 'w pfs \<Rightarrow> (dirp \<times> 'w pfs) option" where
  "mp_fdopendir env fd s =
     (case virtual_fd s fd of
        Some p \<Rightarrow> do {
          e \<leftarrow> heap s p;
          if \<not> is_dir (entry_of env (emap_slot e)) then Some (Null_Dir, s\<lparr>errno := ENOTDIR\<rparr>)
          else Some (mp_vdir_open env (emap_slot e) fd s) }
      | None \<Rightarrow> let (p, s) = sysi env ''fdopendir'' [CInt fd] s in Some (libc_dir p, s))"

text \<open>
  An entry read: the name with the inode number and type of a virtual entry, or what the C library's
  \<^verbatim>\<open>readdir\<close> gave. \<open>fuel\<close> bounds the entries of the real directory that are passed over; \<open>None\<close> when
  it is used up.
\<close>

datatype dirent = Virtual_Entry cstring u64 bool | Real_Entry cstring

definition name_of_bytes :: "u8 list \<Rightarrow> cstring" where
  "name_of_bytes bs = map (\<lambda>b. char_of (unat b)) bs"

fun read_real :: "'w vfs_env \<Rightarrow> nat \<Rightarrow> nat \<Rightarrow> int \<Rightarrow> ('w, 'z) vfs_scheme
    \<Rightarrow> (dirent option \<times> ('w, 'z) vfs_scheme) option" where
  "read_real env dir 0 real s = None"
| "read_real env dir (Suc fuel) real s =
     (case sys env ''readdir'' [CInt real] s of ((r, bs), s) \<Rightarrow>
        if r = 0 then Some (None, s)
        else if \<not> mp_shadowed (v_img env) dir (name_of_bytes bs)
        then Some (Some (Real_Entry (name_of_bytes bs)), s)
        else read_real env dir fuel real s)"

text \<open>The component after the last slash, cut to the 255 bytes of \<^verbatim>\<open>d_name\<close>.\<close>

definition last_component :: "cstring \<Rightarrow> cstring" where
  "last_component path = (case strrchr_slash path of None \<Rightarrow> path | Some i \<Rightarrow> drop (i + 1) path)"

definition mp_readdir :: "'w vfs_env \<Rightarrow> nat \<Rightarrow> dirp \<Rightarrow> 'w pfs \<Rightarrow> (dirent option \<times> 'w pfs) option" where
  "mp_readdir env fuel d s =
     (case mp_vdir_lookup d s of
        None \<Rightarrow> (case sys env ''readdir'' [dir_arg d] s of ((r, bs), s) \<Rightarrow>
                   Some (if r = 0 then None else Some (Real_Entry (name_of_bytes bs)), s))
      | Some p \<Rightarrow> do {
          v \<leftarrow> vdirs s p;
          if next_child v \<ge> children_count (entry_of env (dir_map v)) then
            (if real_dir v = 0 then Some (None, s) else read_real env (dir_map v) fuel (real_dir v) s)
          else let slot = mp_embed_child_at (v_img env) (dir_map v) (next_child v)
               in Some (Some (Virtual_Entry (take 255 (last_component (mp_path_of (v_img env) slot)))
                          (MP_VIRTUAL_INO_BASE + word_of_nat slot) (is_dir (entry_of env slot))),
                    s\<lparr>vdirs := (vdirs s)(p \<mapsto> v\<lparr>next_child := next_child v + 1\<rparr>)\<rparr>) })"

definition mp_closedir :: "'w vfs_env \<Rightarrow> dirp \<Rightarrow> 'w pfs \<Rightarrow> (int \<times> 'w pfs) option" where
  "mp_closedir env d s =
     (case mp_vdir_lookup d s of
        None \<Rightarrow> Some (sysi env ''closedir'' [dir_arg d] s)
      | Some p \<Rightarrow> do {
          v \<leftarrow> vdirs s p;
          let s = s\<lparr>open_vdirs := vdir_release p (open_vdirs s)\<rparr>;
          let s = (if real_dir v \<noteq> 0 then snd (sysi env ''closedir'' [CInt (real_dir v)] s) else s);
          let s = s\<lparr>vdirs := (vdirs s)(p := None)\<rparr>;
          if dir_fd v \<ge> 0 then mp_close env (dir_fd v) s else Some (0, s) })"

definition mp_rewinddir :: "'w vfs_env \<Rightarrow> dirp \<Rightarrow> 'w pfs \<Rightarrow> 'w pfs option" where
  "mp_rewinddir env d s =
     (case mp_vdir_lookup d s of
        None \<Rightarrow> Some (snd (sysi env ''rewinddir'' [dir_arg d] s))
      | Some p \<Rightarrow> do {
          v \<leftarrow> vdirs s p;
          let s = s\<lparr>vdirs := (vdirs s)(p \<mapsto> v\<lparr>next_child := 0\<rparr>)\<rparr>;
          Some (if real_dir v \<noteq> 0 then snd (sysi env ''rewinddir'' [CInt (real_dir v)] s) else s) })"

end
