(* ===== verification/Vfs_Props.thy ===== *)
theory Vfs_Props
  imports Vfs_Machine Vfile_Props Vfs_Dir
begin

text \<open>
  What the fd and stream calls do with an embedded file, from the path to the bytes: opening, reading, copies
  of fds, the linker hooks, scattered reads, mappings and refused writes.
\<close>

subsection \<open>The EFILE behind a new fd\<close>

lemma open_efile_gives:
  assumes "\<not> v_win env" "open_efile env slot s = (Some p, s')"
  obtains e mem where "mp_efile_init_virtual (v_img env) False mem slot zero_efile = Inr e"
    "heap s' = (heap s)(p \<mapsto> e)" "p = brk s" "fds s' = fds s"
proof (cases "mp_efile_init_virtual (v_img env) False (v_mem env (world s) 1) slot zero_efile")
  case (Inl x)
  with assms show thesis by (simp add: open_efile_def split: if_splits)
next
  case (Inr e)
  with assms have "s' = snd (new_efile e s)" "p = fst (new_efile e s)"
    by (auto simp: open_efile_def split: if_splits prod.splits)
  with that [OF Inr] show thesis by (simp add: new_efile_def)
qed

lemma destroy_None: "mp_efile_destroy None s = Some s"
  by (simp add: mp_efile_destroy_def)

lemma register_lookup:
  assumes "inv opened held s" "\<not> v_win env" "mp_fd_register env fd p s = (True, s')" "0 \<le> fd" "virtual_fd s fd = None"
  shows "virtual_fd s' x = (if x = fd then Some p else virtual_fd s x)" "fst (fds s')"
proof -
  have "fd_register fd p (fds s) = Some (fds s')"
    using assms(2,3) by (auto simp: mp_fd_register_def cong: option.case_cong split: option.splits)
  from fd_register_ok(2,3) [OF invD(1) [OF assms(1)] assms(4,5) this]
  show "virtual_fd s' x = (if x = fd then Some p else virtual_fd s x)" "fst (fds s')"
    by (simp_all add: fun_eq_iff)
qed

lemma open_virtual_fd_gives:
  assumes "posix env opened" "inv opened held s" "mp_open_virtual_fd env slot flags s = Some (fd, s')" "0 \<le> fd"
  obtains p e mem where "virtual_fd s' fd = Some p"
    "mp_efile_init_virtual (v_img env) False mem slot zero_efile = Inr e"
    "heap s' = (heap s)(p \<mapsto> e)" "p = brk s" "\<And>x. x \<noteq> fd \<Longrightarrow> virtual_fd s' x = virtual_fd s x"
    "virtual_fd s fd = None" "inv opened held s'"
proof -
  note w = posixD(1) [OF assms(1)]
  obtain q s1 where o: "open_efile env slot s = (q, s1)" by fastforce
  obtain fd1 s2 where x: "open_executable env flags s1 = (fd1, s2)" by fastforce
  from assms(3,4) o obtain p where p: "q = Some p"
    by (cases q) (auto simp: mp_open_virtual_fd_def fail_with_def split: if_splits)
  from open_efile_inv [OF assms(2) w o] p obtain e1 where
    i1: "inv opened (insert p held) s1" and pn: "p \<notin> held" "\<And>fd. virtual_fd s1 fd \<noteq> Some p" by auto
  note x2 = open_executable_inv [OF assms(1) i1 x]
  obtain ok s3 where r: "mp_fd_register env fd1 p s2 = (ok, s3)" by fastforce
  obtain c s4 where cl: "sysi env ''close'' [CInt fd1] s3 = (c, s4)" by fastforce
  have "mp_open_virtual_fd env slot flags s =
      (if fd1 < 0 then do { s \<leftarrow> mp_efile_destroy (Some p) s2; Some (- 1, s) }
       else if ok then Some (fd1, s3) else do { s \<leftarrow> mp_efile_destroy (Some p) s4; fail_with EMFILE s })"
    using assms(3,4) o p x r cl
    by (auto simp: mp_open_virtual_fd_def fail_with_def [abs_def] split: if_splits bool.split)
  with assms(3,4) have g: "fd1 = fd" "ok" "s3 = s'" "0 \<le> fd"
    by (auto simp: fail_with_def split: if_splits bind_splits)
  from open_efile_gives [OF w o [unfolded p]] obtain e mem where
    e: "mp_efile_init_virtual (v_img env) False mem slot zero_efile = Inr e"
    and h: "heap s1 = (heap s)(p \<mapsto> e)" "p = brk s" "fds s1 = fds s" by metis
  have ok: "efile_ok e" using init_virtual_ok [OF e] by simp
  have v2: "virtual_fd s2 fd = None" "fd \<in> opened (world s2)" "fds s2 = fds s" "heap s2 = heap s1"
    using x2(3-5) g h(3) by simp_all
  have p2: "virtual_fd s2 y \<noteq> Some p" for y using pn(2) x2(5) by simp
  have h2: "heap s2 p = Some e" using v2(4) h(1) by simp
  note r2 = register_inv [OF x2(1) w r [unfolded g(1)] g(4) v2(1,2) p2 h2 ok]
  have "virtual_fd s' y = virtual_fd s y" if "y \<noteq> fd" for y
    using register_lookup(1) [OF x2(1) w _ g(4) v2(1), of p s' y] r g that v2(3) by simp
  moreover have v: "virtual_fd s' fd = Some p" and i: "inv opened (insert p held) s'" "heap s' = heap s2"
    using r2 g by simp_all
  moreover have "inv opened held s'" by (rule inv_drop [OF i(1) v])
  ultimately show thesis using that [of p mem e] e h v2 by simp
qed

subsection \<open>From a path to the bytes\<close>

fun read_all :: "'w vfs_env \<Rightarrow> int \<Rightarrow> nat list \<Rightarrow> ('w, 'z) vfs_scheme \<Rightarrow> (u8 list list \<times> ('w, 'z) vfs_scheme) option" where
  "read_all env fd [] s = Some ([], s)"
| "read_all env fd (n # ns) s = do {
     ((r, bs), s) \<leftarrow> mp_read env fd n s;
     (bss, s) \<leftarrow> read_all env fd ns s;
     Some (bs # bss, s) }"

lemma read_file:
  assumes "\<not> v_win env" "virtual_fd s fd = Some p" "heap s p = Some e" "efile_ok e"
    and "is_file (entry_of env (emap_slot e))"
  obtains e' where "mp_read env fd n s = Some ((int (length (take n (unread e))), take n (unread e)), put_efile p e' s)"
    "advances n e e'"
proof -
  have "\<not> is_dir (entry_of env (emap_slot e))" using assms(5) by (simp add: is_file_def is_dir_def)
  with assms read_virtual_ok [OF assms(4), of n] that [of "snd (read_virtual False n e)"] show thesis
    by (simp add: mp_read_def case_prod_beta)
qed

lemma put_efile_fds [simp]: "fds (put_efile p e s) = fds s" "heap (put_efile p e s) p = Some e"
  by (simp_all add: put_efile_def)

lemma read_all_file:
  assumes "\<not> v_win env"
  shows "virtual_fd s fd = Some p \<Longrightarrow> heap s p = Some e \<Longrightarrow> efile_ok e \<Longrightarrow> is_file (entry_of env (emap_slot e))
    \<Longrightarrow> \<exists>bss s'. read_all env fd ns s = Some (bss, s') \<and> concat bss = take (sum_list ns) (unread e)"
proof (induction ns arbitrary: s e)
  case Nil
  then show ?case by simp
next
  case (Cons n ns)
  from read_file [OF assms Cons.prems, of n] obtain e' where
    r: "mp_read env fd n s = Some ((int (length (take n (unread e))), take n (unread e)), put_efile p e' s)"
    and a: "advances n e e'" by metis
  from Cons.IH [of "put_efile p e' s" e'] a Cons.prems obtain bss s' where
    "read_all env fd ns (put_efile p e' s) = Some (bss, s')" "concat bss = take (sum_list ns) (drop n (unread e))"
    by (auto simp: advances_def)
  with r show ?case by (simp add: take_add)
qed

text \<open>
  C3. Opening an embedded file gives a new fd, and reads on it, in chunks of any sizes, give the file's bytes
  in order and nothing after them.
\<close>

theorem open_reads_content:
  assumes "posix env opened" and "inv opened held s"
    and "find_virtual env path s = Some slot" and "is_file (entry_of env slot)"
    and "file_content (v_img env) slot = Some c"
    and "mp_open env path flags mode s = Some (fd, s1)" and "0 \<le> fd"
  shows "virtual_fd s fd = None \<and> (\<exists>bss s2. read_all env fd ns s1 = Some (bss, s2) \<and> concat bss = take (sum_list ns) c)"
proof -
  have "mp_open_virtual_fd env slot flags s = Some (fd, s1)" using assms(3,6) by (simp add: mp_open_def)
  from open_virtual_fd_gives [OF assms(1,2) this assms(7)] obtain p e mem where
    v: "virtual_fd s1 fd = Some p" "heap s1 p = Some e" "virtual_fd s fd = None"
    and e: "mp_efile_init_virtual (v_img env) False mem slot zero_efile = Inr e" by (metis fun_upd_same)
  from init_virtual_ok [OF e] assms(4,5) have "efile_ok e" "unread e = c" "emap_slot e = slot" by simp_all
  with read_all_file [OF posixD(1) [OF assms(1)] v(1,2)] assms(4) v(3) show ?thesis by auto
qed

subsection \<open>The linker hooks\<close>

lemma pos_same [simp]: "e\<lparr>pos := pos e\<rparr> = e"
  by simp

lemma put_same: "heap s p = Some e \<Longrightarrow> put_efile p e s = s"
  by (simp add: put_efile_def fun_upd_idem)

text \<open>
  C23. On an fd of an embedded file the linker hooks \<^verbatim>\<open>__wrap_read\<close> and \<^verbatim>\<open>__wrap_lseek\<close> do exactly what the intercepts
  \<^verbatim>\<open>mp_read\<close> and \<^verbatim>\<open>mp_lseek\<close> do: the same result and the same state.
\<close>

theorem hooks_agree:
  assumes "posix env opened" and "inv opened held s" and "virtual_fd s fd = Some p" and "heap s p = Some e"
    and "is_file (entry_of env (emap_slot e))"
  shows "wrap_read env fd n s = mp_read env fd n s \<and> wrap_lseek env fd off wh s = mp_lseek env fd off wh s"
proof -
  have ok: "efile_ok e" using invD(5) [OF assms(2,3)] assms(4) by simp
  then have v: "mp_lookup_virtual_fd fd s = Some (Some (p, e))"
    using assms(3,4) by (simp add: mp_lookup_virtual_fd_def efile_ok_def)
  have "\<not> is_dir (entry_of env (emap_slot e))" using assms(5) by (simp add: is_file_def is_dir_def)
  moreover have "length (take m (unread e)) = m" if "m \<le> mp_avail e" for m
    using that ok by (simp add: efile_simps)
  ultimately show ?thesis
    using v assms(3,4) posixD(1) [OF assms(1)] put_same [OF assms(4)]
    by (simp add: wrap_read_def mp_read_def wrap_lseek_def mp_lseek_def read_virtual_def Let_def efile_simps)
qed

subsection \<open>Scattered reads\<close>

lemma readv_loop_enough:
  assumes "\<not> u < len" "mp_avail e = u"
  shows "snd (readv_loop (len # iov) e) = snd (readv_loop iov (e\<lparr>pos := pos e + int len\<rparr>))"
  using assms by (simp add: Let_def case_prod_beta)

lemma min_diff_add: "len \<le> u \<Longrightarrow> len + min (u - len) S = min u (len + S)" for S :: nat
  by linarith

lemma readv_loop_pos:
  "efile_ok e \<Longrightarrow> snd (readv_loop iov e) = e\<lparr>pos := pos e + int (min (length (unread e)) (sum_list iov))\<rparr>"
proof (induction iov e rule: readv_loop.induct)
  case (1 e)
  then show ?case by simp
next
  case (2 len iov e)
  show ?case
  proof (cases "length (unread e) < len")
    case True
    with 2(2) show ?thesis by (simp add: Let_def efile_simps)
  next
    case False
    let ?e = "e\<lparr>pos := pos e + int len\<rparr>" and ?u = "length (unread e)"
    from 2(2) have n: "mp_avail e = ?u" by (simp add: efile_simps)
    have ok: "efile_ok ?e" "unread ?e = drop len (unread e)"
      using advances_step [OF 2(2), of len] by (simp_all add: advances_def)
    have ih: "snd (readv_loop iov ?e) = ?e\<lparr>pos := pos ?e + int (min (length (unread ?e)) (sum_list iov))\<rparr>"
      using 2(1) [OF refl refl refl refl, unfolded n] False ok(1) by simp
    have sum: "int len + int (min (?u - len) (sum_list iov)) = int (min ?u (len + sum_list iov))"
      using min_diff_add [of len ?u "sum_list iov"] False by (simp only: of_nat_add [symmetric] not_less)
    have "snd (readv_loop (len # iov) e) = snd (readv_loop iov ?e)"
      using readv_loop_enough [OF False n] .
    also have "\<dots> = e\<lparr>pos := pos e + int (min ?u (len + sum_list iov))\<rparr>"
      unfolding ih ok(2) sum [symmetric] by simp
    finally show ?thesis by simp
  qed
qed

lemma preadv_loop_readv: "preadv_loop iov start e = fst (readv_loop iov (e\<lparr>pos := start\<rparr>))"
  by (induction iov start e rule: preadv_loop.induct) (simp add: mp_avail_def Let_def case_prod_beta)+

text \<open>
  C17. A scattered read is one read: the buffers that \<^verbatim>\<open>mp_readv\<close> fills, put together, are the bytes \<^verbatim>\<open>mp_read\<close> of their
  total size stores, with the same value returned and the same state after it; and \<^verbatim>\<open>mp_preadv\<close> likewise stores
  the bytes of one \<^verbatim>\<open>mp_pread\<close>.
\<close>

theorem scattered_reads:
  assumes "posix env opened" and "inv opened held s" and "virtual_fd s fd = Some p" and "heap s p = Some e"
    and "is_file (entry_of env (emap_slot e))" and "0 \<le> off"
  shows "(\<exists>bss s'. mp_readv env fd iov s = Some ((total bss, bss), s')
        \<and> mp_read env fd (sum_list iov) s = Some ((total bss, concat bss), s'))
     \<and> (\<exists>bss. mp_preadv env fd iov off s = Some ((total bss, bss), s)
        \<and> mp_pread env fd (sum_list iov) off s = Some ((total bss, concat bss), s))"
proof
  have ok: "efile_ok e" using invD(5) [OF assms(2,3)] assms(4) by simp
  have dir: "\<not> is_dir (entry_of env (emap_slot e))" using assms(5) by (simp add: is_file_def is_dir_def)
  let ?u = "length (unread e)" and ?n = "sum_list iov"
  note loop = readv_loop_ok [OF ok, of iov, THEN conjunct1]
  have v: "mp_readv env fd iov s = Some ((total (fst (readv_loop iov e)), fst (readv_loop iov e)),
      put_efile p (e\<lparr>pos := pos e + int (min ?u ?n)\<rparr>) s)"
    using assms(3,4) dir by (simp add: mp_readv_def case_prod_beta readv_loop_pos [OF ok])
  have t: "total (fst (readv_loop iov e)) = int (length (take ?n (unread e)))" by (simp only: total_def loop)
  have m: "(if ?n < ?u then ?n else ?u) = min ?u ?n" by simp
  have "mp_read env fd ?n s = Some ((int (length (take ?n (unread e))), take ?n (unread e)),
      put_efile p (e\<lparr>pos := pos e + int (min ?u ?n)\<rparr>) s)"
    using assms(3,4) dir ok posixD(1) [OF assms(1)] m
    by (simp add: mp_read_def read_virtual_def Let_def efile_simps min_def)
  with v t loop show "\<exists>bss s'. mp_readv env fd iov s = Some ((total bss, bss), s')
        \<and> mp_read env fd ?n s = Some ((total bss, concat bss), s')" by auto
  let ?e = "e\<lparr>pos := ebase e + off\<rparr>"
  show "\<exists>bss. mp_preadv env fd iov off s = Some ((total bss, bss), s)
        \<and> mp_pread env fd ?n off s = Some ((total bss, concat bss), s)"
  proof (cases "off < int (esize e)")
    case False
    with assms(3,4,6) dir show ?thesis by (simp add: mp_preadv_def mp_pread_def pread_virtual_def total_def)
  next
    case True
    have u: "length (unread ?e) = esize e - nat off" "efile_ok ?e"
      using ok assms(6) True by (auto simp: efile_ok_def unread_def split: option.splits)
    note loop2 = readv_loop_ok [OF u(2), of iov, THEN conjunct1]
    have "total (fst (readv_loop iov ?e)) = int (min (esize e - nat off) ?n)"
      by (simp only: total_def loop2 length_take u(1))
    moreover have "bytes_here (if ?n < esize e - nat off then ?n else esize e - nat off) ?e = take ?n (unread ?e)"
      by (simp add: efile_simps u(1) min_def)
    ultimately show ?thesis
      using assms(3,4,6) dir True loop2
      by (simp add: mp_preadv_def mp_pread_def pread_virtual_def Let_def preadv_loop_readv min_def)
  qed
qed

subsection \<open>Mappings\<close>

text \<open>
  C22. A successful \<^verbatim>\<open>mp_mmap\<close> of an embedded file has put the file's bytes from the offset on, at most \<^verbatim>\<open>len\<close> of
  them, into the new mapping; it was asked for a non-empty range at a non-negative offset and not for a
  writable shared mapping.
\<close>

theorem mmap_content:
  assumes "posix env opened" and "inv opened held s" and "virtual_fd s fd = Some p" and "heap s p = Some e"
    and "unget_saved e = 0" and "\<not> has_flag flags MAP_ANON"
    and "mp_mmap env addr len prot flags fd off s = Some ((m, bs), s')" and "m \<noteq> MAP_FAILED"
  shows "bs = take len (drop (nat off) (content_of e)) \<and> is_file (entry_of env (emap_slot e))
     \<and> 0 < len \<and> 0 \<le> off \<and> \<not> (has_flag prot PROT_WRITE \<and> has_flag flags MAP_SHARED)"
proof -
  have ok: "efile_ok e" using invD(5) [OF assms(2,3)] assms(4) by simp
  have r: "is_file (entry_of env (emap_slot e))" "0 < len" "0 \<le> off"
      "\<not> (has_flag prot PROT_WRITE \<and> has_flag flags MAP_SHARED)"
    and bs: "bs = (if off < int (esize e) then
       bytes_here (if esize e - nat off < len then esize e - nat off else len) (e\<lparr>pos := ebase e + off\<rparr>) else [])"
    using assms(3,4,6-8) by (auto simp: mp_mmap_def Let_def split: if_splits prod.splits)
  with ok assms(5) r(3) have "bytes_here k (e\<lparr>pos := ebase e + off\<rparr>) = take k (drop (nat off) (content_of e))"
    if "off < int (esize e)" for k
    using that by (auto simp: bytes_here_def content_of_def efile_ok_def mp_unget_restore_def nat_add_distrib drop_Suc
        split: option.splits)
  with bs length_content [OF ok] r show ?thesis by (auto simp: min_def)
qed

subsection \<open>Read-only\<close>


subsection \<open>Opening and closing\<close>

lemma fresh_unheld: "inv opened held s \<Longrightarrow> brk s \<notin> held \<and> heap s (brk s) = None"
  using invD(7) [of opened held s "brk s"] invD(9) [of opened held s] by (cases "heap s (brk s)") auto

lemma sysi_snd [simp]: "heap (snd (sysi env name args s)) = heap s" "fds (snd (sysi env name args s)) = fds s"
  using sysi_same [of env name args s "fst (sysi env name args s)"] by (simp_all add: prod_eq_iff)

lemma close_fd_effect:
  assumes "posix env opened" "inv opened held s" "virtual_fd s fd = Some p" "heap s p = Some e"
    and "handle_type e = EHANDLE_VIRTUAL" "mp_close env fd s = Some (r, s2)"
  shows "heap s2 = (heap s)(p := None)" "virtual_fd s2 x = (if x = fd then None else virtual_fd s x)"
proof -
  obtain q s' where u: "mp_fd_unregister env fd s = (q, s')" by fastforce
  note u1 = unregister_inv [OF assms(2) posixD(1) [OF assms(1)] u]
  have q: "q = Some p" using u1(1) assms(3) by simp
  have "Some (sysi env ''close'' [CInt fd] (s'\<lparr>heap := (heap s')(p := None)\<rparr>)) = Some (r, s2)"
    using assms(4-6) u q u1(3) by (simp add: mp_close_def mp_efile_destroy_def free_efile_def)
  then have "s2 = snd (sysi env ''close'' [CInt fd] (s'\<lparr>heap := (heap s')(p := None)\<rparr>))" by simp
  with u1(2,3,9) show "heap s2 = (heap s)(p := None)" "virtual_fd s2 x = (if x = fd then None else virtual_fd s x)"
    by simp_all
qed

text \<open>
  C20. Opening and closing an embedded file leaves the table of fds and the heap as they were, as an fd and as a
  stream.
\<close>

theorem open_close_restores:
  assumes "posix env opened" and "inv opened held s" and "find_virtual env path s = Some slot"
    and "mp_open env path flags m s = Some (fd, s1)" and "0 \<le> fd" and "mp_close env fd s1 = Some (r, s2)"
  shows "heap s2 = heap s \<and> (\<forall>x. virtual_fd s2 x = virtual_fd s x)"
proof -
  have "mp_open_virtual_fd env slot flags s = Some (fd, s1)" using assms(3,4) by (simp add: mp_open_def)
  from open_virtual_fd_gives [OF assms(1,2) this assms(5)] obtain p e mem where
    v: "virtual_fd s1 fd = Some p" "heap s1 = (heap s)(p \<mapsto> e)" "p = brk s"
      "\<And>x. x \<noteq> fd \<Longrightarrow> virtual_fd s1 x = virtual_fd s x" "virtual_fd s fd = None" "inv opened held s1"
    and e: "mp_efile_init_virtual (v_img env) False mem slot zero_efile = Inr e" by metis
  have h: "heap s1 p = Some e" "handle_type e = EHANDLE_VIRTUAL"
    using init_virtual_ok [OF e] v(2) by (simp_all add: efile_ok_def)
  have "(heap s)(p := None) = heap s" using fresh_unheld [OF assms(2)] v(3) by (simp add: fun_upd_idem)
  with close_fd_effect [OF assms(1) v(6,1) h assms(6)] v(2,4,5) show ?thesis by simp
qed

subsection \<open>The fd of a stream\<close>

lemma init_fds_idem: "init_fds (init_fds s) = init_fds s"
  by (cases "fds s") (auto simp: init_fds_def)

text \<open>
  A stream has one fd: once \<^verbatim>\<open>mp_fileno\<close> has given it a number, that fd stands for the stream's EFILE, and
  asking again gives the same number and changes nothing.
\<close>

theorem fileno_stable:
  assumes "posix env opened" and "inv opened held s" and "p \<in> held" and "heap s p = Some e"
    and "handle_type e = EHANDLE_VIRTUAL" and "mp_fileno env (Efile p) s = Some (fd, s1)" and "fd \<noteq> - 1"
  shows "virtual_fd s1 fd = Some p \<and> mp_fileno env (Efile p) s1 = Some (fd, s1)"
proof -
  note w = posixD(1) [OF assms(1)]
  define s0 where "s0 = init_fds s"
  have i0: "inv opened held s0" and h0: "heap s0 p = Some e" and w0: "init_fds s0 = s0"
    using assms(2,4) by (simp_all add: s0_def init_fds_idem) (simp add: init_fds_def)
  have eq: "mp_fileno env (Efile p) s = mp_fileno env (Efile p) s0"
    by (simp add: mp_fileno_def Let_def s0_def init_fds_idem)
  show ?thesis
  proof (cases "mp_fd_of p (fds s0) = - 1")
    case False
    with assms(5,6) eq h0 w0 have "s1 = s0" "fd = mp_fd_of p (fds s0)" by (auto simp: mp_fileno_def Let_def)
    with fd_of_ok(2) [OF invD(1) [OF i0] refl False] assms(6) eq show ?thesis by simp
  next
    case True
    obtain n t where x: "open_executable env O_CLOEXEC s0 = (n, t)" by fastforce
    note x1 = open_executable_inv [OF assms(1) i0 x]
    obtain ok t2 where r: "mp_fd_register env n p t = (ok, t2)" by fastforce
    obtain c t3 where cl: "sysi env ''close'' [CInt n] t2 = (c, t3)" by fastforce
    have g: "n = fd" "ok" "t2 = s1"
      using assms(5-7) True eq h0 w0 w x r cl
      by (auto simp: mp_fileno_def Let_def fail_with_def split: if_splits bool.splits)
    then have n: "0 \<le> fd" using x1(2) assms(7) by simp
    have v: "virtual_fd t fd = None" "fd \<in> opened (world t)" "fds t = fds s0" "heap t p = Some e"
      using x1(3-5) g(1) n h0 by simp_all
    have p: "virtual_fd t y \<noteq> Some p" for y using True fd_of_ok(1) [OF invD(1) [OF i0], of p] v(3) by simp
    have ok: "efile_ok e" using invD(8) [OF i0 h0] assms(5) by (simp add: efile_good_def)
    note r2 = register_inv [OF x1(1) w r [unfolded g(1)] n v(1,2) p v(4) ok]
    have "fst (fds s1)" using register_lookup(2) [OF x1(1) w _ n v(1)] r g by simp
    then have "init_fds s1 = s1" by (cases "fds s1") (simp add: init_fds_def)
    moreover have i1: "inv opened held s1" and v1: "virtual_fd s1 fd = Some p" and h1: "heap s1 p = Some e"
      using r2 g v(4) by simp_all
    have "mp_fd_of p (fds s1) \<noteq> - 1" using fd_of_ok(1) [OF invD(1) [OF i1], of p] v1 by auto
    moreover from this have "mp_fd_of p (fds s1) = fd"
      using fd_of_ok(2) [OF invD(1) [OF i1] refl] invD(6) [OF i1 v1] by metis
    ultimately show ?thesis using v1 h1 assms(5) by (simp add: mp_fileno_def Let_def)
  qed
qed

subsection \<open>Copies of an fd\<close>

lemma unread_from_pos:
  assumes "efile_ok e" "unget_saved e = 0" "ebase e \<le> pos e"
  shows "unread e = drop (nat (pos e - ebase e)) (content_of e)"
  using unread_at(1) [OF assms(1,2), of "pos e - ebase e"] assms(3) by simp

lemma dup_efile_unread:
  assumes "stream_reach img slot e" "unget_saved e = 0" "ebase e \<le> pos e" "mp_efile_dup img False mem e = Inr e2"
    and "is_file (emap_of img slot)"
  shows "efile_ok e2 \<and> unread e2 = unread e \<and> content_of e2 = content_of e \<and> err e2 = err e"
proof -
  from stream_reach_ok [OF assms(1)] have ok: "efile_ok e" "emap_slot e = slot"
    "is_file (emap_of img slot) \<longrightarrow> file_content img slot = Some (content_of e)" by simp_all
  show ?thesis
  proof (cases "owned_buf e = None")
    case True
    with assms(4) ok(1) show ?thesis by (simp add: mp_efile_dup_def split: if_splits)
  next
    case False
    let ?at = "pos e - ebase e"
    from False assms(4) obtain e0 where i: "mp_efile_init_virtual img False (mem 1) slot zero_efile = Inr e0"
      and e2: "e2 = (if ?at > 0 then snd (mp_virtual_seek False ?at SEEK_SET e0) else e0)\<lparr>err := err e\<rparr>"
      using ok(2) by (auto simp: mp_efile_dup_def Let_def split: if_splits sum.splits)
    from init_virtual_ok [OF i] assms(5) ok(3) have e0: "efile_ok e0" "unread e0 = content_of e" "content_of e0 = content_of e"
      by simp_all
    note sk = virtual_seek_ok [OF e0(1), of ?at SEEK_SET]
    have "?at > 0 \<Longrightarrow> fst (mp_virtual_seek False ?at SEEK_SET e0) = Some ?at"
      using sk(1) by (simp add: seek_target_def Let_def)
    with sk(2,3) sk(6) [of ?at] e0 e2 unread_from_pos [OF ok(1) assms(2,3)] show ?thesis
      by (auto simp: efile_simps)
  qed
qed

lemma adopt_gives:
  assumes "posix env opened" "inv opened held s" "0 \<le> fd" "virtual_fd s fd = None" "fd \<in> opened (world s)"
    and "efile_ok src" "mp_fd_adopt env fd src s = Some (r, s')" "0 \<le> r"
  obtains e mem where "mp_efile_dup (v_img env) False mem src = Inr e" "r = fd" "virtual_fd s' fd = Some (brk s)"
    "heap s' = (heap s)(brk s \<mapsto> e)" "\<And>x. x \<noteq> fd \<Longrightarrow> virtual_fd s' x = virtual_fd s x"
proof -
  note w = posixD(1) [OF assms(1)]
  show thesis
  proof (cases "mp_efile_dup (v_img env) False (v_mem env (world s)) src")
    case (Inl x)
    with assms(7,8) w show thesis
      by (auto simp: mp_fd_adopt_def dup_efile_def mp_efile_destroy_def fail_with_def split: prod.splits)
  next
    case (Inr e)
    have ok: "efile_ok e" by (rule efile_dup_ok [OF assms(6) Inr])
    obtain p s1 where n: "new_efile e s = (p, s1)" by fastforce
    note n1 = new_efile_inv [OF assms(2) efile_ok_good [OF ok] n]
    have p: "p = brk s" "heap s1 = (heap s)(brk s \<mapsto> e)" using n by (auto simp: new_efile_def)
    have v1: "virtual_fd s1 fd = None" "fd \<in> opened (world s1)" using n1(5,6) assms(4,5) by simp_all
    obtain b s2 where r: "mp_fd_register env fd p s1 = (b, s2)" by fastforce
    have "b" "s' = s2" "r = fd"
      using assms(7,8) Inr w n r
      by (auto simp: mp_fd_adopt_def dup_efile_def fail_with_def Let_def split: if_splits bind_splits prod.splits)
    note r2 = register_inv [OF n1(1) w r assms(3) v1 n1(4,2) ok]
    have "virtual_fd s' x = (if x = fd then Some p else virtual_fd s x)" for x
      using register_lookup(1) [OF n1(1) w _ assms(3) v1(1)] r \<open>b\<close> \<open>s' = s2\<close> n1(5) by simp
    with that [OF Inr \<open>r = fd\<close>] p r2(2) \<open>s' = s2\<close> show thesis by simp
  qed
qed

text \<open>
  C19. A copy of an fd reads on from where the original stood, on an EFILE of its own: whatever is read through one of
  the two leaves the other where it was.
\<close>

theorem dup_independent:
  assumes "posix env opened" and "inv opened held s" and "virtual_fd s fd = Some p" and "heap s p = Some e"
    and "stream_reach (v_img env) slot e" and "is_file (entry_of env slot)"
    and "unget_saved e = 0" and "ebase e \<le> pos e"
    and "mp_dup env fd s = Some (fd2, s1)" and "0 \<le> fd2"
  shows "\<exists>q e2. virtual_fd s1 fd2 = Some q \<and> heap s1 q = Some e2 \<and> unread e2 = unread e \<and> err e2 = err e
     \<and> q \<noteq> p \<and> virtual_fd s1 fd = Some p \<and> heap s1 p = Some e"
proof -
  obtain n t where d: "sysi env ''dup'' [CInt fd] s = (n, t)" by fastforce
  note o = sysi_opening [OF d posixD(2) [OF assms(1)] neutral_simps(20) assms(2)]
  have a: "mp_fd_adopt env n e t = Some (fd2, s1)" "0 \<le> n"
    using assms(3,4,9,10) d o(4) posixD(1) [OF assms(1)] by (auto simp: mp_dup_def split: if_splits)
  have ok: "efile_ok e" using stream_reach_ok [OF assms(5)] by simp
  have new: "virtual_fd t n = None" "n \<in> opened (world t)" using o(3) a(2) by simp_all
  show ?thesis
  proof (rule adopt_gives [OF assms(1) o(1) a(2) new ok a(1) assms(10)])
    fix e2 mem
    assume e2: "mp_efile_dup (v_img env) False mem e = Inr e2" and r: "fd2 = n" "virtual_fd s1 n = Some (brk t)"
      "heap s1 = (heap t)(brk t \<mapsto> e2)" "\<And>x. x \<noteq> n \<Longrightarrow> virtual_fd s1 x = virtual_fd t x"
    have t: "heap t = heap s" "fds t = fds s" "brk t = brk s" using o(4-6) by simp_all
    have "fd \<noteq> n" using new(1) t(2) assms(3) by auto
    moreover have "brk t \<noteq> p" using fresh_unheld [OF assms(2)] t(3) assms(4) by auto
    ultimately show ?thesis
      using dup_efile_unread [OF assms(5,7,8) e2 assms(6)] r t assms(3,4) by simp
  qed
qed

lemma dup2_same: "dup2_call env fd fd2 flags s = (r, s') \<Longrightarrow> fds s' = fds s \<and> heap s' = heap s"
  by (auto simp: dup2_call_def dest: sysi_same split: if_splits)

text \<open>
  C21. When the system's \<^verbatim>\<open>dup2\<close> or \<^verbatim>\<open>dup3\<close> fails, its error is passed on and every fd stands for the EFILE it
  stood for: the entry of the target, taken out beforehand, is put back.
\<close>

theorem dup2_failure_restores:
  assumes "posix env opened" and "inv opened held s" and "fst (dup2_call env fd fd2 flags s) < 0"
  shows "\<exists>s1. mp_dup_onto env fd fd2 flags s = Some (fst (dup2_call env fd fd2 flags s), s1)
     \<and> errno s1 = errno (snd (dup2_call env fd fd2 flags s)) \<and> heap s1 = heap s
     \<and> (\<forall>x. virtual_fd s1 x = virtual_fd s x)"
proof -
  note w = posixD(1) [OF assms(1)]
  obtain r t where c: "dup2_call env fd fd2 flags s = (r, t)" by fastforce
  with assms(3) have r: "r < 0" by simp
  note c0 = dup2_call_inv [OF assms(1,2) c]
  show ?thesis
  proof (cases "fd = fd2")
    case True
    with r c c0 show ?thesis by (simp add: mp_dup_onto_def Let_def)
  next
    case False
    obtain old s1 where u: "mp_fd_unregister env fd2 s = (old, s1)" by fastforce
    note u1 = unregister_inv [OF assms(2) w u]
    obtain r2 s2 where c2: "dup2_call env fd fd2 flags s1 = (r2, s2)" by fastforce
    have same: "r2 = r" "errno s2 = errno t"
      using c c2 u1(4,6) w by (auto simp: dup2_call_def sysi_def sys_def split: if_splits prod.splits option.splits)
    have look: "virtual_fd s2 x = (if x = fd2 then None else virtual_fd s x)" for x
      using u1(2,9) dup2_same [OF c2] by simp
    have "heap (case old of None \<Rightarrow> s2 | Some p \<Rightarrow> snd (mp_fd_register env fd2 p s2)) = heap s
      \<and> virtual_fd (case old of None \<Rightarrow> s2 | Some p \<Rightarrow> snd (mp_fd_register env fd2 p s2)) x = virtual_fd s x" for x
    proof (cases old)
      case None
      with look [of x] u1(1,3) dup2_same [OF c2] show ?thesis by (auto split: if_splits)
    next
      case (Some q)
      then have v: "virtual_fd s fd2 = Some q" using u1(1) by simp
      from invD(5) [OF assms(2) v] obtain e where e: "heap s2 q = Some e" "efile_ok e" using u1(3) dup2_same [OF c2] by auto
      have i: "inv opened (insert q held) s1" "\<And>x. virtual_fd s1 x \<noteq> Some q" using u1(8) [OF Some] by simp_all
      note c3 = dup2_call_inv [OF assms(1) i(1) c2]
      have o: "fd2 \<in> opened (world s2)" using invD(4) [OF assms(2) v] c3(4) r same(1) u1(4) by simp
      have n: "virtual_fd s2 x \<noteq> Some q" for x using i(2) c3(3) by simp
      note again = register_again(2) [OF assms(1) c3(1) v invD(1) [OF assms(2)] look n o e]
      obtain ok s3 where g: "mp_fd_register env fd2 q s2 = (ok, s3)" by fastforce
      have n2: "0 \<le> fd2" "virtual_fd s2 fd2 = None" using fdreg.get_valid [OF invD(1) [OF assms(2)] v] look by simp_all
      note g2 = register_inv [OF c3(1) w g n2 o n e]
      have ok using g2(6) again g n2(2) by (cases ok) auto
      with register_lookup(1) [OF c3(1) w _ n2, of q s3 x] g g2(2) c3(2) u1(3) look [of x] v Some show ?thesis by simp
    qed
    with r False u c c2 same show ?thesis by (simp add: mp_dup_onto_def Let_def)
  qed
qed

end
