(* ===== verification/Vfs_Demo.thy ===== *)
theory Vfs_Demo
  imports Vfs_Props
begin

text \<open>
  The properties of the fd and stream calls on the example image and a small kernel: the states a run of the model
  reaches there, and the theorems applied to them.
\<close>

subsection \<open>A kernel to run on\<close>

text \<open>The world is the list of fds in use; a new one is above all others, a copy needs
  an original; everything else answers 0.\<close>

definition demo_sys :: "string \<Rightarrow> carg list \<Rightarrow> int list \<Rightarrow> cres \<times> int list" where
  "demo_sys name args w =
     (let (v, w) =
        (if opens_fd name args then let fd = fold max w 2 + 1 in (fd, fd # w)
         else if name = ''dup2'' \<or> name = ''dup3'' then
           (case args of
              CInt fd # CInt fd2 # _ \<Rightarrow> if fd \<in> set w \<and> 0 \<le> fd2 then (fd2, fd2 # w) else (- 1, w)
            | _ \<Rightarrow> (- 1, w))
         else if name = ''close'' then
           (case args of [CInt fd] \<Rightarrow> (0, filter (\<lambda>x. x \<noteq> fd) w) | _ \<Rightarrow> (- 1, w))
         else (0, w))
      in (\<lparr> rval = v, rerr = None, rout = [] \<rparr>, w))"

definition demo_env :: "int list vfs_env" where
  "demo_env = \<lparr> v_img = example_image, v_win = False, v_xp = example_xp, v_wxp = no_win_exec_paths,
     v_cwd = \<lambda>w. Some ''/opt/app'', v_api = \<lambda>w. example_api, v_mem = \<lambda>w k. True, v_entries_addr = 0,
     v_sys = demo_sys \<rparr>"

definition demo_start :: "int list vfs" where
  "demo_start = \<lparr> world = [], errno = 0, heap = Map.empty, brk = 1, fds = fd2file_initial, handles = [] \<rparr>"

lemma fold_max_ge: "(x :: int) \<le> fold max w x \<and> (\<forall>y \<in> set w. y \<le> fold max w x)"
proof (induction w arbitrary: x)
  case (Cons a w)
  from Cons [of "max a x"] show ?case by auto
qed simp

lemma demo_posix: "posix demo_env set"
proof -
  have fresh: "fold max w 2 + 1 \<notin> set w" "2 \<le> fold max w 2" for w :: "int list"
    using fold_max_ge [of 2 w] by force+
  have laws: "\<And>name args w. neutral name args \<Longrightarrow> set (snd (demo_sys name args w)) = set w"
    "\<And>name args w. opens_fd name args \<Longrightarrow> demo_sys name args w =
       (\<lparr> rval = fold max w 2 + 1, rerr = None, rout = [] \<rparr>, (fold max w 2 + 1) # w)"
    by (simp_all add: demo_sys_def neutral_def Let_def)
  have "kernel_laws demo_env set"
    unfolding kernel_laws_def
  proof (intro conjI allI impI)
    fix name args and w :: "int list"
    assume "opens_fd name args"
    with laws(2) [OF this] fresh [of w] show "case v_sys demo_env name args w of (r, w') \<Rightarrow>
        - 1 \<le> rval r \<and> (if rval r < 0 then set w' = set w else rval r \<notin> set w \<and> set w' = insert (rval r) (set w))"
      by (simp add: demo_env_def)
  qed (use laws(1) in \<open>auto simp: demo_env_def demo_sys_def opens_fd_def Let_def\<close>)
  then show ?thesis by (simp add: posix_def demo_env_def)
qed

lemma demo_initial: "initial demo_start"
  by (simp add: initial_def demo_start_def)


definition demo_path :: cptr where
  "demo_path = Some ''lib/a''"

subsection \<open>The states of a run\<close>

lemma demo_simps [simp]: "v_img demo_env = example_image" "\<not> v_win demo_env" "v_sys demo_env = demo_sys"
  "v_mem demo_env w k" "v_xp demo_env = example_xp" "v_cwd demo_env w = Some ''/opt/app''"
  by (simp_all add: demo_env_def)

lemma demo_entry [simp]: "is_file (emap_of example_image (Suc 0))"
  by (simp add: ex_emap_of is_file_def)

lemma demo_stream: "mp_efile_init_virtual example_image False True (Suc 0) zero_efile = Inr (text_stream [7])"
proof -
  from init_virtual_file [OF demo_entry ex_content] show ?thesis
    by (simp add: text_stream_def ex_path zero_efile_def)
qed

lemma demo_find: "find_virtual demo_env demo_path s = Some (Suc 0)"
proof -
  have "get_virtual_path example_xp (mp_get_absolute_path (Some ''/opt/app'') ''lib/a'' [] PATH_MAX) = ''~/lib/a''"
    "mp_exec_ok example_xp" by code_simp+
  with ex_find show ?thesis by (simp add: find_virtual_def mp_find_virtual_def demo_path_def)
qed

lemma text_stream_is [simp]: "emap_slot (text_stream c) = Suc 0"
  "handle_type (text_stream c) = EHANDLE_VIRTUAL"
  by (simp_all add: text_stream_def)

text \<open>The fd table after the first registration of an fd.\<close>

definition one_fd :: "int \<Rightarrow> nat \<Rightarrow> fdtable" where
  "one_fd fd p = (True, (fd, Some p) # replicate (REGISTRY_SLOTS - 1) (- 1, None))"

lemma register_first: "fd_register fd p fd2file_initial = Some (one_fd fd p)"
proof -
  have "init_fd2file fd2file_initial = (True, replicate REGISTRY_SLOTS (- 1, None))"
    by (simp add: fd2file_initial_def)
  then show ?thesis by (simp add: fd_register_def one_fd_def claim_replicate REGISTRY_SLOTS_def)
qed

text \<open>\<open>fd_state\<close> has the file open as fd 3, \<open>stream_state\<close> as a stream, \<open>both_state\<close> as both.\<close>

definition fd_state :: "int list vfs" where
  "fd_state = demo_start\<lparr>world := [3], heap := [1 \<mapsto> text_stream [7]], brk := 2, fds := one_fd 3 1\<rparr>"

definition stream_state :: "int list vfs" where
  "stream_state = demo_start\<lparr>heap := [1 \<mapsto> text_stream [7]], brk := 2\<rparr>"

lemma demo_open: "mp_open demo_env demo_path 0 0 demo_start = Some (3, fd_state)"
  by (simp add: mp_open_def demo_find mp_open_virtual_fd_def has_flag_def open_efile_def demo_stream new_efile_def
      demo_start_def open_executable_def sysi_def sys_def demo_sys_def opens_fd_def Let_def mp_fd_register_def
      register_first fd_state_def)

lemma demo_fopen: "mp_fopen demo_env demo_path (Some ''rb'') demo_start = Some (Efile 1, stream_state)"
  by (simp add: mp_fopen_def demo_find virtual_stream_def open_efile_def demo_stream new_efile_def
      demo_start_def mp_mode_writes_def stream_state_def)

text \<open>The fd table, looked at.\<close>

lemma one_fd_simps:
  "mp_fd_lookup x (one_fd fd p) = (if x = fd \<and> 0 \<le> x then Some p else None)"
  "0 \<le> fd \<Longrightarrow> mp_fd_of q (one_fd fd p) = (if q = p then fd else - 1)"
  "init_fd2file (one_fd fd p) = one_fd fd p"
proof -
  have cons: "find_slot P (a # t) = (if P a then Some a else find_slot P t)" for P :: "int \<times> nat option \<Rightarrow> bool" and a t
    by (simp add: find_slot_def option.map_comp comp_def)
  show "mp_fd_lookup x (one_fd fd p) = (if x = fd \<and> 0 \<le> x then Some p else None)"
    by (simp add: mp_fd_lookup_def one_fd_def cons find_slot_replicate)
  show "0 \<le> fd \<Longrightarrow> mp_fd_of q (one_fd fd p) = (if q = p then fd else - 1)"
    by (simp add: mp_fd_of_def one_fd_def cons find_slot_replicate)
qed (simp add: one_fd_def)

lemma no_fd: "mp_fd_of q (init_fd2file fd2file_initial) = - 1"
  by (simp add: mp_fd_of_def fd2file_initial_def find_slot_replicate)

lemma demo_fileno: "mp_fileno demo_env (Efile 1) stream_state = Some (3, fd_state)"
proof -
  have "mp_exec_ok example_xp" by (simp add: example_xp_def)
  then show ?thesis
    by (simp add: mp_fileno_def stream_state_def init_fds_def demo_start_def no_fd open_executable_def mp_exec_paths_def
      sysi_def sys_def demo_sys_def opens_fd_def Let_def mp_fd_register_def fd_state_def
      fd_register_init [symmetric] register_first)
qed

lemma register_second: "fd_register 4 q (one_fd 3 p) \<noteq> None"
  by (simp add: fd_register_def one_fd_def claim_def first_slot_replicate REGISTRY_SLOTS_def)

lemma demo_dup: "\<exists>s1. mp_dup demo_env 3 fd_state = Some (4, s1)"
proof -
  have d: "mp_efile_dup example_image False (v_mem demo_env w) (text_stream [7]) = Inr (text_stream [7])" for w
    using demo_stream by (simp add: mp_efile_dup_def) (simp add: text_stream_def)
  from register_second [of 2 1] show ?thesis
    by (auto simp: mp_dup_def fd_state_def one_fd_simps sysi_def sys_def demo_sys_def opens_fd_def Let_def mp_fd_adopt_def
      demo_start_def dup_efile_def d new_efile_def mp_fd_register_def)
qed

definition both_state :: "int list vfs" where
  "both_state = fd_state\<lparr>heap := [1 \<mapsto> text_stream [7], 2 \<mapsto> text_stream [7]], brk := 3\<rparr>"

lemma demo_fopen_too: "mp_fopen demo_env demo_path (Some ''rb'') fd_state = Some (Efile 2, both_state)"
  by (simp add: mp_fopen_def demo_find virtual_stream_def open_efile_def demo_stream new_efile_def
      demo_start_def mp_mode_writes_def fd_state_def both_state_def)

lemma demo_reached: "reached demo_env demo_start {} fd_state" "reached demo_env demo_start {1} stream_state"
  "reached demo_env demo_start {2} both_state"
proof -
  show f: "reached demo_env demo_start {} fd_state"
    by (rule reached.step [OF reached.start, where c = "Open demo_path 0 0"]) (simp_all add: demo_open then_hold_def)
  show "reached demo_env demo_start {1} stream_state"
    by (rule reached.step [OF reached.start, where c = "Fopen demo_path (Some ''rb'')"]) (simp_all add: demo_fopen)
  show "reached demo_env demo_start {2} both_state"
    by (rule reached.step [OF f, where c = "Fopen demo_path (Some ''rb'')"]) (simp_all add: demo_fopen_too)
qed

lemma demo_reach: "stream_reach (v_img demo_env) 1 (text_stream [7])"
  using stream_reach.opened [OF demo_stream] by simp

lemma demo_found: "find_virtual demo_env demo_path s = Some 1"
  by (simp add: demo_find)

lemma demo_file: "is_file (entry_of demo_env 1)" "is_file (entry_of demo_env (emap_slot (text_stream [7])))"
  "file_content (v_img demo_env) 1 = Some [7]"
  by (simp_all add: ex_content)

lemma fd_facts: "inv set {} fd_state" "virtual_fd fd_state 3 = Some 1" "heap fd_state 1 = Some (text_stream [7])"
  using reached_inv [OF demo_reached(1) demo_posix demo_initial] by (simp_all add: fd_state_def one_fd_simps)

lemma stream_facts: "inv set {1} stream_state" "heap stream_state 1 = Some (text_stream [7])"
  using reached_inv [OF demo_reached(2) demo_posix demo_initial] by (simp_all add: stream_state_def)

lemma both_facts: "virtual_fd both_state 3 = Some 1" "world both_state = [3]" "dom (heap both_state) = {1, 2}"
  by (auto simp add: both_state_def fd_state_def one_fd_simps)

subsection \<open>The properties applied\<close>

theorem open_reads_content_witness:
  "mp_open demo_env demo_path 0 0 demo_start = Some (3, fd_state)
     \<and> (\<exists>bss s2. read_all demo_env 3 [1, 5] fd_state = Some (bss, s2) \<and> concat bss = [7])"
  using open_reads_content [OF demo_posix initial_inv [OF demo_initial] demo_found demo_file(1,3) demo_open, of "[1, 5]"]
    demo_open by simp

theorem hooks_agree_witness:
  "wrap_read demo_env 3 4 fd_state = mp_read demo_env 3 4 fd_state \<and> wrap_lseek demo_env 3 1 0 fd_state = mp_lseek demo_env 3 1 0 fd_state"
  by (rule hooks_agree [OF demo_posix fd_facts demo_file(2)])

theorem scattered_reads_witness:
  "\<exists>bss s'. mp_readv demo_env 3 [0, 4] fd_state = Some ((total bss, bss), s')
     \<and> mp_read demo_env 3 4 fd_state = Some ((total bss, concat bss), s')"
  using scattered_reads [OF demo_posix fd_facts demo_file(2), of 0 "[0, 4]"] by simp

theorem mmap_content_witness:
  "\<exists>m s'. mp_mmap demo_env 0 9 1 2 3 0 fd_state = Some ((m, [7]), s') \<and> m \<noteq> - 1"
proof -
  obtain m c s' where r: "mp_mmap demo_env 0 9 1 2 3 0 fd_state = Some ((m, c), s')" "m = 0"
    using fd_facts(2,3) demo_file(2)
    by (auto simp: mp_mmap_def has_flag_def sysi_def sys_def Let_def demo_sys_def opens_fd_def)
  have "c = [7]"
    using mmap_content [OF demo_posix fd_facts _ _ r(1)] r(2) by (simp add: text_views has_flag_def)
  with r show ?thesis by simp
qed


theorem open_close_restores_witness:
  "\<exists>r s2. mp_close demo_env 3 fd_state = Some (r, s2) \<and> heap s2 = Map.empty \<and> virtual_fd s2 3 = None"
proof -
  from close_inv [OF demo_posix fd_facts(1), of 3] obtain r s2 where c: "mp_close demo_env 3 fd_state = Some (r, s2)"
    by (auto simp: may_close_def elim: returnsE)
  have "heap demo_start = Map.empty" "virtual_fd demo_start 3 = None"
    by (simp_all add: demo_start_def fd2file_initial_def mp_fd_lookup_def)
  with open_close_restores [OF demo_posix initial_inv [OF demo_initial] demo_find demo_open _ c] c show ?thesis by simp
qed

theorem fileno_stable_witness:
  "\<exists>s1. mp_fileno demo_env (Efile 1) stream_state = Some (3, s1) \<and> mp_fileno demo_env (Efile 1) s1 = Some (3, s1)"
proof -
  have "handle_type (text_stream [7]) = EHANDLE_VIRTUAL" by (simp add: text_stream_def)
  from fileno_stable [OF demo_posix stream_facts(1) _ stream_facts(2) this demo_fileno] demo_fileno show ?thesis by simp
qed

theorem dup_independent_witness:
  "\<exists>s1 q e2. mp_dup demo_env 3 fd_state = Some (4, s1) \<and> virtual_fd s1 4 = Some q \<and> q \<noteq> 1
     \<and> heap s1 q = Some e2 \<and> unread e2 = [7]"
proof -
  from demo_dup obtain s1 where d: "mp_dup demo_env 3 fd_state = Some (4, s1)" by auto
  from dup_independent [OF demo_posix fd_facts demo_reach demo_file(1) _ _ d] d show ?thesis
    by (auto simp: text_views)
qed

theorem dup2_failure_restores_witness:
  "\<exists>s1. mp_dup_onto demo_env 9 3 (- 1) fd_state = Some (- 1, s1) \<and> virtual_fd s1 3 = Some 1"
proof -
  have "dup2_call demo_env 9 3 (- 1) fd_state = (- 1, fd_state)"
    by (simp add: fd_state_def dup2_call_def sysi_def sys_def demo_sys_def opens_fd_def)
  with dup2_failure_restores [OF demo_posix fd_facts(1), of 9 3 "- 1"] fd_facts(2) show ?thesis by auto
qed



text \<open>
  Without its side condition the last property fails: closing the fd that \<^verbatim>\<open>mp_fileno\<close> gave to a stream frees
  the EFILE of the stream.
\<close>

lemma close_frees_stream:
  "\<exists>s1 s2. mp_fileno demo_env (Efile 1) stream_state = Some (3, s1) \<and> mp_close demo_env 3 s1 = Some (0, s2)
     \<and> perform demo_env (On Op_fgetc (Efile 1)) {1} s2 = None"
proof -
  have "fst (fd_unregister 3 (one_fd 3 1)) = Some 1"
    by (simp add: fd_unregister_def one_fd_def find_slot_def)
  then have "\<exists>s2. mp_close demo_env 3 fd_state = Some (0, s2) \<and> heap s2 1 = None"
    by (auto simp: mp_close_def mp_fd_unregister_def fd_state_def demo_start_def mp_efile_destroy_def free_efile_def text_stream_def
        zero_efile_def sysi_def sys_def demo_sys_def opens_fd_def split: prod.splits)
  then show ?thesis
    using demo_fileno by (auto simp: then_hold_def mp_fgetc_def on_stream_def)
qed

end
