(* ===== verification/Dir_Safe.thy ===== *)
theory Dir_Safe
  imports Vfs_Streams Vfs_Dir
begin

text \<open>
  Directory streams: the table of open VDIRs agrees with what is allocated, and every call on them keeps it so.
\<close>

subsection \<open>The table of directory streams\<close>

definition vdir_at :: "nat list \<Rightarrow> nat \<Rightarrow> unit option" where
  "vdir_at = slots_get (\<lambda>p. p) (\<lambda>p. Some ())"

definition dirs_ok :: "'w pfs \<Rightarrow> bool" where
  "dirs_ok s \<longleftrightarrow> slots_ok (\<lambda>p. p) (\<lambda>p. Some ()) (open_vdirs s) \<and> dom (vdirs s) = dom (vdir_at (open_vdirs s))
     \<and> (\<forall>p \<in> dom (vdirs s). p < dbrk s) \<and> 0 < dbrk s"

lemma dirs_ok_errno [simp]: "dirs_ok (s\<lparr>errno := x\<rparr>) = dirs_ok s"
  by (simp add: dirs_ok_def)

lemma dirs_ok_same:
  "dirs_ok s \<Longrightarrow> vdirs s' = vdirs s \<Longrightarrow> dbrk s' = dbrk s \<Longrightarrow> open_vdirs s' = open_vdirs s \<Longrightarrow> dirs_ok s'"
  by (simp add: dirs_ok_def)

lemma dirs_ok_more:
  assumes "dirs_ok s" "vdirs s' = vdirs s" "dbrk s \<le> dbrk s'" "open_vdirs s' = open_vdirs s"
  shows "dirs_ok s'"
  using assms unfolding dirs_ok_def by (metis dual_order.strict_trans1)

lemma scan_live: "slots_ok (\<lambda>p. p) (\<lambda>p. Some ()) t \<Longrightarrow> p \<noteq> 0 \<Longrightarrow> vdir_scan p t = (if vdir_at t p = None then None else Some p)"
  using find_slot_SomeD [of "\<lambda>s. s = p" t p]
  by (cases "find_slot (\<lambda>s. s = p) t") (auto simp: vdir_scan_def vdir_at_def slots_get_def dest: find_slot_SomeD)

lemma vdirs_live:
  assumes "dirs_ok s" "vdirs s p = Some v"
  shows "p \<noteq> 0" "mp_vdir_lookup (Vdir p) s = Some p"
proof -
  have ok: "slots_ok (\<lambda>p. p) (\<lambda>p. Some ()) (open_vdirs s)" and "vdir_at (open_vdirs s) p \<noteq> None"
    using assms by (auto simp: dirs_ok_def)
  then show "p \<noteq> 0" by (auto simp: vdir_at_def slots_get_def split: if_splits)
  with scan_live [OF ok] \<open>vdir_at (open_vdirs s) p \<noteq> None\<close> show "mp_vdir_lookup (Vdir p) s = Some p"
    by (simp add: mp_vdir_lookup_def)
qed

lemma lookup_live: "dirs_ok s \<Longrightarrow> mp_vdir_lookup (Vdir p) s = Some q \<Longrightarrow> p \<noteq> 0 \<Longrightarrow> q = p \<and> (\<exists>v. vdirs s p = Some v)"
  using scan_live [of "open_vdirs s" p] unfolding dirs_ok_def
  by (auto simp: mp_vdir_lookup_def split: if_splits)

lemma sys_pfs:
  "sys env name args s = (r, s') \<Longrightarrow> vdirs s' = vdirs s \<and> dbrk s' = dbrk s \<and> open_vdirs s' = open_vdirs s"
  "sysi env name args s = (v, s') \<Longrightarrow> vdirs s' = vdirs s \<and> dbrk s' = dbrk s \<and> open_vdirs s' = open_vdirs s"
  by (auto simp: sysi_def sys_def split: prod.splits)

lemma neutral_dirs [simp]: "neutral ''opendir'' a" "neutral ''readdir'' a" "neutral ''closedir'' a" "neutral ''rewinddir'' a"
  by (simp_all add: neutral_def opens_fd_def)

lemma vdir_open_ok:
  assumes "posix env opened" "inv opened held s" "dirs_ok s" "mp_vdir_open env dir fd s = (d, s')"
  shows "inv opened held s' \<and> dirs_ok s' \<and> (case d of Vdir p \<Rightarrow> p \<notin> dom (vdirs s)
       \<and> vdirs s' = (vdirs s)(p \<mapsto> \<lparr> dir_map = dir, next_child = 0, dir_fd = fd, real_dir = real_dir (the (vdirs s' p)) \<rparr>)
     | Libc_Dir q \<Rightarrow> False | Null_Dir \<Rightarrow> vdirs s' = vdirs s)"
proof -
  note k = posixD(2) [OF assms(1)]
  obtain real s1 where r: "mp_vdir_open_real env dir s = (real, s1)" by fastforce
  then obtain path x s0 where c: "sysi env ''opendir'' [CStr (Some path)] s = (real, s0)" and s1: "s1 = s0\<lparr>errno := x\<rparr>"
    by (auto simp: mp_vdir_open_real_def Let_def split: prod.splits)
  have i1: "inv opened held s1" using sysi_neutral [OF c k _ assms(2)] s1 by simp
  have p1: "vdirs s1 = vdirs s" "dbrk s1 = dbrk s" "open_vdirs s1 = open_vdirs s" using sys_pfs(2) [OF c] s1 by simp_all
  obtain q s2 where cl: "sysi env ''closedir'' [CInt real] (s1\<lparr>dbrk := dbrk s1 + 1\<rparr>) = (q, s2)" by fastforce
  have i2: "inv opened held s2 \<and> vdirs s2 = vdirs s \<and> dbrk s2 = dbrk s + 1 \<and> open_vdirs s2 = open_vdirs s"
    using sysi_neutral [OF cl k _ inv_same [OF i1]] sys_pfs(2) [OF cl] p1 by simp
  note ok = assms(3) [unfolded dirs_ok_def, folded vdir_at_def]
  show ?thesis
  proof (cases "v_mem env (world s) 0")
    case False
    with assms show ?thesis by (auto simp: mp_vdir_open_def)
  next
    case mem: True
    let ?p = "dbrk s"
    have new: "vdir_at (open_vdirs s) ?p = None" "?p \<noteq> 0" "?p \<notin> dom (vdirs s)" using ok by auto
    show ?thesis
    proof (cases "vdir_claim ?p (open_vdirs s)")
      case None
      then have "d = Null_Dir" "s' = (if real = 0 then s1\<lparr>dbrk := dbrk s1 + 1\<rparr> else s2)\<lparr>errno := EMFILE\<rparr>"
        using assms(4) mem r cl p1 by (auto simp: mp_vdir_open_def Let_def split: if_splits)
      moreover have "dirs_ok s2" "dirs_ok (s1\<lparr>dbrk := dbrk s1 + 1\<rparr>)"
        using i2 p1 by (auto intro: dirs_ok_more [OF assms(3)])
      moreover have "inv opened held (s1\<lparr>dbrk := dbrk s1 + 1\<rparr>)" by (rule inv_same [OF i1]) simp_all
      ultimately show ?thesis using i2 p1 by simp
    next
      case (Some t)
      have t: "slots_ok (\<lambda>p. p) (\<lambda>p. Some ()) t" "vdir_at t = (vdir_at (open_vdirs s))(?p \<mapsto> ())"
        using vdirreg.put_ok [of "open_vdirs s" ?p t] vdirreg.put_get [of "open_vdirs s" ?p t] ok new Some
        by (simp_all add: vdir_claim_def vdir_at_def)
      have d: "d = Vdir ?p" "s' = s1\<lparr>dbrk := dbrk s1 + 1, open_vdirs := t, vdirs := (vdirs s1)(?p \<mapsto>
          \<lparr> dir_map = dir, next_child = 0, dir_fd = fd, real_dir = real \<rparr>)\<rparr>"
        using assms(4) mem r Some p1 by (simp_all add: mp_vdir_open_def Let_def)
      have "inv opened held s'" unfolding d(2) by (rule inv_same [OF i1]) simp_all
      moreover have "dirs_ok s'" using ok t p1 unfolding d(2) dirs_ok_def by (auto simp: vdir_at_def [symmetric] less_Suc_eq)
      ultimately show ?thesis using d new(3) p1 by simp
    qed
  qed
qed

lemma opendir_ok:
  assumes "posix env opened" "inv opened held s" "dirs_ok s"
  shows "returns (mp_opendir env path s) (\<lambda>d s'. inv opened held s' \<and> dirs_ok s')"
proof (cases "find_virtual env path s")
  case None
  obtain p s' where c: "sysi env ''opendir'' [CStr path] s = (p, s')" by fastforce
  have "dirs_ok s'" using sys_pfs(2) [OF c] by (intro dirs_ok_same [OF assms(3)]) simp_all
  with None c sysi_neutral [OF c posixD(2) [OF assms(1)] _ assms(2)] show ?thesis by (simp add: mp_opendir_def)
next
  case (Some slot)
  obtain d s' where o: "mp_vdir_open env slot (- 1) s = (d, s')" by fastforce
  from vdir_open_ok [OF assms o] Some o assms show ?thesis by (simp add: mp_opendir_def)
qed

text \<open>The streams a program may pass: its VDIRs that are open, not NULL.\<close>

definition live :: "nat \<Rightarrow> 'w pfs \<Rightarrow> bool" where
  "live p s \<longleftrightarrow> vdirs s p \<noteq> None"

lemma read_real_fields:
  "posix env opened \<Longrightarrow> inv opened held s \<Longrightarrow> read_real env dir fuel real s = Some (r, s')
     \<Longrightarrow> inv opened held s' \<and> vdirs s' = vdirs s \<and> dbrk s' = dbrk s \<and> open_vdirs s' = open_vdirs s"
proof (induction fuel arbitrary: s)
  case (Suc fuel)
  obtain v bs s1 where c: "sys env ''readdir'' [CInt real] s = ((v, bs), s1)" by (metis prod.collapse)
  have i: "inv opened held s1" using sys_neutral [OF c posixD(2) [OF Suc.prems(1)] _ Suc.prems(2)] by simp
  from Suc.prems(3) c Suc.IH [OF Suc.prems(1) i] i sys_pfs(1) [OF c] show ?case
    by (auto split: if_splits)
qed simp

lemma readdir_ok:
  assumes "posix env opened" "inv opened held s" "dirs_ok s" "live p s" "mp_readdir env fuel (Vdir p) s = Some (r, s')"
  shows "inv opened held s' \<and> dirs_ok s' \<and> dom (vdirs s') = dom (vdirs s)"
proof -
  from assms(4) obtain v where v: "vdirs s p = Some v" by (auto simp: live_def)
  have d: "insert p (dom (vdirs s)) = dom (vdirs s)" using v by auto
  from vdirs_live [OF assms(3) v] have look: "mp_vdir_lookup (Vdir p) s = Some p" by simp
  show ?thesis
  proof (cases "next_child v \<ge> children_count (entry_of env (dir_map v))")
    case True
    show ?thesis
    proof (cases "real_dir v = 0")
      case False
      with True look v assms(5) have "read_real env (dir_map v) fuel (real_dir v) s = Some (r, s')"
        by (simp add: mp_readdir_def)
      from read_real_fields [OF assms(1,2) this] dirs_ok_same [OF assms(3), of s'] show ?thesis by simp
    qed (use True look v assms in \<open>simp add: mp_readdir_def\<close>)
  next
    case False
    then have "s' = s\<lparr>vdirs := (vdirs s)(p \<mapsto> v\<lparr>next_child := next_child v + 1\<rparr>)\<rparr>"
      using look v assms(5) by (simp add: mp_readdir_def Let_def)
    with assms(2,3) d show ?thesis
      by (auto simp: dirs_ok_def intro: inv_same)
  qed
qed

lemma rewinddir_ok:
  assumes "posix env opened" "inv opened held s" "dirs_ok s" "live p s"
  shows "\<exists>s'. mp_rewinddir env (Vdir p) s = Some s' \<and> inv opened held s' \<and> dirs_ok s' \<and> dom (vdirs s') = dom (vdirs s)
     \<and> next_child (the (vdirs s' p)) = 0"
proof -
  from assms(4) obtain v where v: "vdirs s p = Some v" by (auto simp: live_def)
  have d: "insert p (dom (vdirs s)) = dom (vdirs s)" using v by auto
  define s1 where "s1 = s\<lparr>vdirs := (vdirs s)(p \<mapsto> v\<lparr>next_child := 0\<rparr>)\<rparr>"
  obtain u s2 where c: "sysi env ''rewinddir'' [CInt (real_dir v)] s1 = (u, s2)" by fastforce
  have i: "inv opened held s1" unfolding s1_def by (rule inv_same [OF assms(2)]) simp_all
  have o: "dirs_ok s1" "dom (vdirs s1) = dom (vdirs s)" "next_child (the (vdirs s1 p)) = 0"
    using assms(3) d by (auto simp: s1_def dirs_ok_def)
  note f = sys_pfs(2) [OF c]
  have "dirs_ok s2" by (rule dirs_ok_same [OF o(1)]) (simp_all add: f)
  with sysi_neutral [OF c posixD(2) [OF assms(1)] _ i] i o f v vdirs_live [OF assms(3) v] c show ?thesis
    by (simp add: mp_rewinddir_def s1_def Let_def)
qed

lemma close_pfs:
  "mp_close env fd s = Some (r, s') \<Longrightarrow> vdirs s' = vdirs s \<and> dbrk s' = dbrk s \<and> open_vdirs s' = open_vdirs s"
  by (auto simp: mp_close_def mp_fd_unregister_def mp_efile_destroy_def free_efile_def Let_def dest!: sys_pfs(2)
      split: prod.splits option.splits if_splits bind_splits)

lemma closedir_ok:
  assumes "posix env opened" "inv opened held s" "dirs_ok s" "vdirs s p = Some v"
    and "0 \<le> dir_fd v \<longrightarrow> may_close held (dir_fd v) s"
  shows "returns (mp_closedir env (Vdir p) s) (\<lambda>r s'. inv opened held s' \<and> dirs_ok s' \<and> vdirs s' = (vdirs s)(p := None))"
proof -
  note k = posixD(2) [OF assms(1)]
  note look = vdirs_live [OF assms(3,4)]
  define s1 where "s1 = s\<lparr>open_vdirs := vdir_release p (open_vdirs s)\<rparr>"
  define s2 where "s2 = (if real_dir v \<noteq> 0 then snd (sysi env ''closedir'' [CInt (real_dir v)] s1) else s1)"
  define s3 where "s3 = s2\<lparr>vdirs := (vdirs s2)(p := None)\<rparr>"
  have i1: "inv opened held s1" unfolding s1_def by (rule inv_same [OF assms(2)]) simp_all
  obtain u t where c: "sysi env ''closedir'' [CInt (real_dir v)] s1 = (u, t)" by fastforce
  have s2: "s2 = (if real_dir v \<noteq> 0 then t else s1)" by (simp add: s2_def c)
  have i2: "inv opened held s2" using sysi_neutral [OF c k _ i1] i1 by (simp add: s2)
  have f2: "vdirs s2 = vdirs s" "dbrk s2 = dbrk s" "open_vdirs s2 = vdir_release p (open_vdirs s)" "fds s2 = fds s"
    using sys_pfs(2) [OF c] sysi_same [OF c] by (simp_all add: s2 s1_def)
  have i3: "inv opened held s3" unfolding s3_def by (rule inv_same [OF i2]) simp_all
  note ok = assms(3) [unfolded dirs_ok_def]
  have "slots_ok (\<lambda>p. p) (\<lambda>p. Some ()) (vdir_release p (open_vdirs s))"
    "vdir_at (vdir_release p (open_vdirs s)) = (vdir_at (open_vdirs s))(p := None)"
    using vdirreg.del_ok [of "open_vdirs s" p] vdirreg.del_get [of "open_vdirs s" p] ok look(1)
    by (simp_all add: vdir_release_def vdir_at_def)
  then have o3: "dirs_ok s3" using ok by (auto simp: dirs_ok_def s3_def f2)
  have eq: "mp_closedir env (Vdir p) s = (if dir_fd v \<ge> 0 then mp_close env (dir_fd v) s3 else Some (0, s3))"
    using look(2) assms(4) by (simp add: mp_closedir_def s3_def s2_def s1_def Let_def)
  have v3: "vdirs s3 = (vdirs s)(p := None)" by (simp add: s3_def f2)
  show ?thesis
  proof (cases "0 \<le> dir_fd v")
    case False
    with eq i3 o3 v3 show ?thesis by simp
  next
    case True
    have "may_close held (dir_fd v) s3" using assms(5) True f2(4) by (simp add: may_close_def s3_def)
    from close_inv [OF assms(1) i3 this] obtain r s4 where c4: "mp_close env (dir_fd v) s3 = Some (r, s4)"
      "inv opened held s4" by (rule returnsE) simp
    have "dirs_ok s4" using close_pfs [OF c4(1)] by (intro dirs_ok_same [OF o3]) simp_all
    with True eq c4 v3 close_pfs [OF c4(1)] show ?thesis by simp
  qed
qed

end
