(* ===== verification/Dir_Props.thy ===== *)
theory Dir_Props
  imports Dir_Safe Vfs_Props Vpath_Lookup
begin

text \<open>
  What directory streams list and what the stat calls answer.
\<close>

subsection \<open>Safety\<close>


subsection \<open>Listings\<close>

definition virtual_dirent :: "'w vfs_env \<Rightarrow> nat \<Rightarrow> dirent" where
  "virtual_dirent env slot = Virtual_Entry (take 255 (last_component (mp_path_of (v_img env) slot)))
     (MP_VIRTUAL_INO_BASE + word_of_nat slot) (is_dir (entry_of env slot))"

fun read_entries :: "'w vfs_env \<Rightarrow> nat \<Rightarrow> dirp \<Rightarrow> nat \<Rightarrow> 'w pfs \<Rightarrow> (dirent option list \<times> 'w pfs) option" where
  "read_entries env fuel d 0 s = Some ([], s)"
| "read_entries env fuel d (Suc n) s = do {
     (e, s) \<leftarrow> mp_readdir env fuel d s;
     (es, s) \<leftarrow> read_entries env fuel d n s;
     Some (e # es, s) }"

lemma read_entries_virtual:
  "dirs_ok s \<Longrightarrow> vdirs s p = Some v \<Longrightarrow> next_child v + n \<le> children_count (entry_of env (dir_map v)) \<Longrightarrow>
   \<exists>s'. read_entries env fuel (Vdir p) n s
       = Some (map (\<lambda>i. Some (virtual_dirent env (mp_embed_child_at (v_img env) (dir_map v) i)))
                 [next_child v..<next_child v + n], s')
     \<and> vdirs s' p = Some (v\<lparr>next_child := next_child v + n\<rparr>) \<and> dirs_ok s' \<and> world s' = world s"
proof (induction n arbitrary: s v)
  case 0
  then show ?case by simp
next
  case (Suc n)
  let ?v = "v\<lparr>next_child := next_child v + 1\<rparr>"
  define s1 where "s1 = s\<lparr>vdirs := (vdirs s)(p \<mapsto> ?v)\<rparr>"
  have d: "insert p (dom (vdirs s)) = dom (vdirs s)" using Suc.prems(2) by auto
  have o: "dirs_ok s1" using Suc.prems(1) d by (auto simp: dirs_ok_def s1_def)
  have r: "mp_readdir env fuel (Vdir p) s
      = Some (Some (virtual_dirent env (mp_embed_child_at (v_img env) (dir_map v) (next_child v))), s1)"
    using vdirs_live(2) [OF Suc.prems(1,2)] Suc.prems(2,3)
    by (simp add: mp_readdir_def virtual_dirent_def Let_def s1_def)
  from Suc.IH [OF o, of ?v] Suc.prems(3) obtain s' where
    "read_entries env fuel (Vdir p) n s1
       = Some (map (\<lambda>i. Some (virtual_dirent env (mp_embed_child_at (v_img env) (dir_map v) i)))
                 [next_child v + 1..<next_child v + 1 + n], s')"
    "vdirs s' p = Some (v\<lparr>next_child := next_child v + 1 + n\<rparr>)" "dirs_ok s'" "world s' = world s1"
    by (auto simp: s1_def)
  with r show ?case by (simp add: upt_rec s1_def)
qed

text \<open>
  C7. Reading a directory of a built image lists, in the order of the child table, exactly the packed entries whose
  parent it is, by the last component of their path; after them come the entries of the real directory.
\<close>

theorem directory_listing:
  assumes "build_blob compress ws = Inr (nuitka_embed_map (v_img env), nuitka_embed_data (v_img env))"
    and "collect_entries ws = Inr es" and "\<forall>e \<in> set es. CHR 0x00 \<notin> set (vpath e)"
    and "d \<in> set es" and "etype d = 0" and "find_embedded_file (v_img env) (vpath d) = Some slot"
    and "dirs_ok s" and "vdirs s p = Some v" and "dir_map v = slot" and "next_child v = 0"
  shows "\<exists>slots s'. read_entries env fuel (Vdir p) (children_count (entry_of env slot)) s
        = Some (map (\<lambda>k. Some (virtual_dirent env k)) slots, s')
     \<and> distinct slots \<and> mp_path_of (v_img env) ` set slots = vpath ` {e \<in> set es. parent_vpath e = vpath d}
     \<and> mp_readdir env fuel (Vdir p) s'
         = (if real_dir v = 0 then Some (None, s') else read_real env slot fuel (real_dir v) s')"
proof -
  let ?n = "children_count (entry_of env slot)"
  from read_entries_virtual [OF assms(7,8), of ?n env fuel] assms(9,10) obtain s' where
    r: "read_entries env fuel (Vdir p) ?n s = Some (map (\<lambda>k. Some (virtual_dirent env k)) (dir_children (v_img env) slot), s')"
    and v: "vdirs s' p = Some (v\<lparr>next_child := ?n\<rparr>)" "dirs_ok s'"
    by (auto simp: dir_children_def comp_def)
  have "mp_readdir env fuel (Vdir p) s'
      = (if real_dir v = 0 then Some (None, s') else read_real env slot fuel (real_dir v) s')"
    using vdirs_live(2) [OF v(2,1)] v(1) assms(9) by (simp add: mp_readdir_def)
  with children_listed_core [OF assms(1-6)] r show ?thesis by blast
qed

text \<open>
  C25. Reading on in the real directory ends: if the system's \<^verbatim>\<open>readdir\<close> runs out of entries, that many steps of the
  loop are enough, and an entry it gives is never one the embedded directory has.
\<close>

theorem readdir_terminates:
  assumes "dirs_ok s" and "vdirs s p = Some v" and "children_count (entry_of env (dir_map v)) \<le> next_child v"
    and "\<And>w. rval (fst (v_sys env ''readdir'' [CInt (real_dir v)] w)) \<noteq> 0 \<Longrightarrow>
           left (snd (v_sys env ''readdir'' [CInt (real_dir v)] w)) < (left w :: nat)"
    and "left (world s) < fuel"
  shows "\<exists>r s'. mp_readdir env fuel (Vdir p) s = Some (r, s')
     \<and> (case r of None \<Rightarrow> True | Some (Real_Entry name) \<Rightarrow> \<not> mp_shadowed (v_img env) (dir_map v) name
          | Some (Virtual_Entry _ _ _) \<Rightarrow> False)"
proof -
  have "\<exists>r s'. read_real env (dir_map v) fuel (real_dir v) s = Some (r, s')
     \<and> (case r of None \<Rightarrow> True | Some (Real_Entry name) \<Rightarrow> \<not> mp_shadowed (v_img env) (dir_map v) name
          | Some (Virtual_Entry _ _ _) \<Rightarrow> False)" using assms(5)
  proof (induction fuel arbitrary: s)
    case (Suc fuel)
    obtain x bs s1 where c: "sys env ''readdir'' [CInt (real_dir v)] s = ((x, bs), s1)" by (metis prod.collapse)
    then have w: "x = rval (fst (v_sys env ''readdir'' [CInt (real_dir v)] (world s)))"
      "world s1 = snd (v_sys env ''readdir'' [CInt (real_dir v)] (world s))"
      by (auto simp: sys_def split: prod.splits)
    have "x \<noteq> 0 \<Longrightarrow> left (world s1) < fuel" using assms(4) [of "world s"] w Suc.prems by simp
    with c Suc.IH [of s1] show ?case by simp
  qed simp
  with vdirs_live(2) [OF assms(1,2)] assms(2,3) show ?thesis by (auto simp: mp_readdir_def)
qed

subsection \<open>Metadata\<close>

text \<open>
  C18. The stat calls agree and are right: for an embedded file, \<^verbatim>\<open>stat\<close> and \<^verbatim>\<open>lstat\<close> of its path and \<^verbatim>\<open>fstat\<close> of an
  fd opened on it give the same data, with the size of the content, and two entries never share an inode number.
\<close>

theorem stat_agrees:
  assumes "posix env opened" and "inv opened held s" and "find_virtual env path s = Some slot"
    and "is_file (entry_of env slot)" and "file_content (v_img env) slot = Some c"
    and "mp_open env path flags m s = Some (fd, s1)" and "0 \<le> fd"
  shows "\<exists>st. mp_stat env path s = Some ((0, Virtual_Stat st), s) \<and> mp_lstat env path s = Some ((0, Virtual_Stat st), s)
     \<and> mp_fstat env fd s1 = Some ((0, Virtual_Stat st), s1) \<and> wrap_fstat env fd s1 = Some ((0, Virtual_Stat st), s1)
     \<and> st_size st = int (length c)
     \<and> (\<forall>k < 2 ^ 64. slot < 2 ^ 64 \<longrightarrow> st_ino (mp_fill_stat env k) = st_ino st \<longrightarrow> k = slot)"
proof -
  have "mp_open_virtual_fd env slot flags s = Some (fd, s1)" using assms(3,6) by (simp add: mp_open_def)
  from open_virtual_fd_gives [OF assms(1,2) this assms(7)] obtain p e mem where
    v: "virtual_fd s1 fd = Some p" "heap s1 p = Some e"
    and e: "mp_efile_init_virtual (v_img env) False mem slot zero_efile = Inr e" by (metis fun_upd_same)
  from init_virtual_ok [OF e] have "efile_ok e" "emap_slot e = slot" by simp_all
  moreover have "mp_uncompressed_size (v_img env) slot = length c"
    using assms(5) by (auto simp: file_content_def mp_uncompressed_size_def split: if_splits zstd_size.splits option.splits)
  moreover have "k = slot" if "k < 2 ^ 64" "slot < 2 ^ 64" "(word_of_nat k :: u64) = word_of_nat slot" for k
  proof -
    have "take_bit 64 k = take_bit 64 slot"
      using arg_cong [OF that(3), of unat] by (simp only: unsigned_of_nat) simp
    with that(1,2) show ?thesis by (simp add: take_bit_eq_mod)
  qed
  ultimately show ?thesis
    using v assms(3)
    by (auto simp: mp_stat_def mp_lstat_def mp_fstat_def wrap_fstat_def mp_fill_stat_def Let_def efile_ok_def)
qed

end
