(* ===== verification/Dir_Demo.thy ===== *)
theory Dir_Demo
  imports Vfs_Demo Dir_Props
begin

text \<open>
  The properties of directory streams and metadata on the example image.
\<close>

subsection \<open>The directory opened\<close>

definition dir_start :: "int list pfs" where
  "dir_start = vfs.extend demo_start \<lparr> vdirs = Map.empty, dbrk = 1, open_vdirs = replicate REGISTRY_SLOTS 0 \<rparr>"

definition dir_state :: "int list pfs" where
  "dir_state = vfs.extend demo_start \<lparr> vdirs = [1 \<mapsto> \<lparr> dir_map = 0, next_child = 0, dir_fd = - 1, real_dir = 0 \<rparr>],
     dbrk = 2, open_vdirs = 1 # replicate (REGISTRY_SLOTS - 1) 0 \<rparr>"

lemma dir_start_ok: "inv set {} dir_start" "dirs_ok dir_start"
proof -
  show "inv set {} dir_start" by (rule empty_inv) (simp_all add: dir_start_def vfs.defs demo_start_def)
  have "slots_get (\<lambda>p. p) (\<lambda>p. Some ()) (replicate n 0) = Map.empty" for n :: nat
    by (simp add: fun_eq_iff slots_get_def find_slot_replicate)
  then show "dirs_ok dir_start"
    by (simp add: dirs_ok_def dir_start_def vfs.defs slots_ok_def one_per_key_def vdir_at_def)
qed

lemma dir_found: "find_virtual demo_env (Some ''lib'') s = Some 0"
proof -
  have "get_virtual_path example_xp (mp_get_absolute_path (Some ''/opt/app'') ''lib'' [] PATH_MAX) = ''~/lib''"
    "mp_exec_ok example_xp" by code_simp+
  with ex_find show ?thesis by (simp add: find_virtual_def mp_find_virtual_def)
qed

lemma dir_entry: "is_dir (emap_of example_image 0)" "children_count (emap_of example_image 0) = 1"
  by (simp_all add: ex_emap_of is_dir_def)

lemma dir_opened: "mp_opendir demo_env (Some ''lib'') dir_start = Some (Vdir 1, dir_state)"
  by (simp add: mp_opendir_def dir_found mp_vdir_open_def mp_vdir_open_real_def Let_def sysi_def sys_def
      demo_sys_def opens_fd_def dir_start_def dir_state_def vfs.defs demo_start_def dir_entry vdir_claim_def
      claim_replicate REGISTRY_SLOTS_def)

lemma dir_state_ok: "inv set {} dir_state" "dirs_ok dir_state"
  using opendir_ok [OF demo_posix dir_start_ok, of "Some ''lib''"] by (simp_all add: dir_opened)

lemma dir_state_vdir: "vdirs dir_state 1 = Some \<lparr> dir_map = 0, next_child = 0, dir_fd = - 1, real_dir = 0 \<rparr>"
  by (simp add: dir_state_def vfs.defs)

subsection \<open>The properties applied\<close>


theorem directory_listing_witness:
  "\<exists>k s'. read_entries demo_env 0 (Vdir 1) 1 dir_state = Some ([Some (virtual_dirent demo_env k)], s')
     \<and> mp_path_of example_image k = ''~/lib/a'' \<and> mp_readdir demo_env 0 (Vdir 1) s' = Some (None, s')"
proof -
  let ?es = "[ex_dir 0 0, ex_file 0 0]"
  have "{e \<in> set ?es. parent_vpath e = vpath (ex_dir 0 0)} = {ex_file 0 0}"
    by (auto simp: ex_defs)
  then have kids: "vpath ` {e \<in> set ?es. parent_vpath e = vpath (ex_dir 0 0)} = {''~/lib/a''}"
    by (simp add: ex_defs)
  have c: "children_count (entry_of demo_env 0) = 1" using dir_entry by simp
  have one: "length l = 1" if "read_entries demo_env 0 (Vdir 1) 1 dir_state = Some (l, s')" for l s'
    using that by (auto split: option.splits prod.splits simp: bind_eq_Some_conv)
  have "find_embedded_file example_image (vpath (ex_dir 0 0)) = Some 0" using ex_find by (simp add: ex_defs)
  moreover have "\<forall>e \<in> set ?es. CHR 0x00 \<notin> set (vpath e)" "etype (ex_dir 0 0) = 0" by (simp_all add: ex_defs)
  ultimately obtain slots s' where
    l: "read_entries demo_env 0 (Vdir 1) 1 dir_state = Some (map (\<lambda>k. Some (virtual_dirent demo_env k)) slots, s')"
    "mp_path_of example_image ` set slots = {''~/lib/a''}" "mp_readdir demo_env 0 (Vdir 1) s' = Some (None, s')"
    using directory_listing [where env = demo_env and compress = "\<lambda>c. c" and d = "ex_dir 0 0" and slot = 0 and fuel = 0,
        OF _ ex_entries _ _ _ _ dir_state_ok(2) dir_state_vdir]
      ex_built kids c by (auto simp del: read_entries.simps)
  from one [OF l(1)] obtain k where "slots = [k]" by (auto simp: length_Suc_conv)
  with l show ?thesis by auto
qed

definition real_env :: "int list vfs_env" where
  "real_env = demo_env\<lparr>v_sys := (\<lambda>name args w. case w of [] \<Rightarrow> (\<lparr> rval = 0, rerr = None, rout = [] \<rparr>, [])
     | c # w \<Rightarrow> (\<lparr> rval = 1, rerr = None, rout = [word_of_int c] \<rparr>, w))\<rparr>"

definition real_state :: "int list pfs" where
  "real_state = dir_state\<lparr>world := [97, 98],
     vdirs := [1 \<mapsto> \<lparr> dir_map = 0, next_child = 1, dir_fd = - 1, real_dir = 5 \<rparr>]\<rparr>"

theorem readdir_terminates_witness:
  "\<exists>r s'. mp_readdir real_env 3 (Vdir 1) real_state = Some (r, s') \<and> r \<noteq> Some (Real_Entry ''a'')"
proof -
  have ok: "dirs_ok real_state" 
  proof -
    have same: "dom (vdirs real_state) = dom (vdirs dir_state)" "open_vdirs real_state = open_vdirs dir_state"
      "dbrk real_state = dbrk dir_state" by (simp_all add: real_state_def dir_state_def vfs.defs)
    from dir_state_ok(2) show ?thesis unfolding dirs_ok_def same .
  qed
  have "mp_path_of example_image 0 = ''~/lib''"
    by (simp add: mp_path_of_def embed_ptrs_of_def ex_ptrs ex_emap_of ex_simple cstr_at_def example_map_def
        char_of_def bit_0)
  with ex_find have shadowed: "mp_shadowed example_image 0 ''a''" by (simp add: mp_shadowed_def PATH_MAX_def)
  let ?v = "\<lparr> dir_map = 0, next_child = 1, dir_fd = - 1, real_dir = 5 \<rparr>"
  have img: "v_img real_env = example_image" by (simp add: real_env_def)
  have "vdirs real_state 1 = Some ?v" "length (world real_state) < 3"
    "children_count (entry_of real_env (dir_map ?v)) \<le> next_child ?v"
    using dir_entry by (simp_all add: real_state_def img)
  moreover have "rval (fst (v_sys real_env ''readdir'' [CInt (real_dir ?v)] w)) \<noteq> 0 \<Longrightarrow>
      length (snd (v_sys real_env ''readdir'' [CInt (real_dir ?v)] w)) < length w" for w
    by (simp add: real_env_def split: list.splits)
  ultimately have "\<exists>r s'. mp_readdir real_env 3 (Vdir 1) real_state = Some (r, s')
     \<and> (case r of None \<Rightarrow> True | Some (Real_Entry name) \<Rightarrow> \<not> mp_shadowed example_image 0 name
          | Some (Virtual_Entry _ _ _) \<Rightarrow> False)"
    using readdir_terminates [OF ok, of 1 ?v real_env length 3] unfolding img vdir.select_convs by blast
  with shadowed show ?thesis by auto
qed

theorem stat_agrees_witness:
  "\<exists>st. mp_stat demo_env demo_path demo_start = Some ((0, Virtual_Stat st), demo_start) \<and> st_size st = 1
     \<and> mp_fstat demo_env 3 fd_state = Some ((0, Virtual_Stat st), fd_state)"
  using stat_agrees [OF demo_posix initial_inv [OF demo_initial] demo_found demo_file(1,3) demo_open] by auto

end
