(* ===== verification/Win_File.thy ===== *)
theory Win_File
  imports Vfs_Stdio "HOL-Library.Signed_Division"
begin

text \<open>
  The Win32 file calls (Embedded/mp_embed.c: the CRT stat functions, \<^verbatim>\<open>mp_GetFileAttributesA\<close> to
  \<^verbatim>\<open>mp_GetDiskFreeSpaceExW\<close>, \<^verbatim>\<open>mp_GetFileSizeEx\<close>, \<^verbatim>\<open>mp_ReadFile\<close> to \<^verbatim>\<open>mp_DuplicateHandle\<close>). HANDLEs are their
  numeric value. A virtual handle is a real handle of the executable, registered with an EFILE that holds
  metadata only until it is read. Failing Win32 calls leave their reason in the last error.
\<close>

subsection \<open>State\<close>

text \<open>
  A VMAPPING has its own copy of the content at address \<open>vm_base\<close>. The three tables map a HANDLE or a view
  to the object; both fields are 0 and \<open>None\<close> in a free slot.
\<close>

record vmapping =
  vm_data :: "u8 list"
  vm_base :: nat
  vm_views :: nat
  vm_closed :: bool

text \<open>A search: the entry, the pattern and the same search on disk with its next match, if any.\<close>

record vfind =
  find_dir :: nat
  find_child :: nat
  find_pattern :: wstr
  find_real :: nat
  find_ready :: bool
  find_next_name :: "u8 list"

record 'w wfs = "'w vfs" +
  last_error :: int
  mappings :: "nat \<Rightarrow> vmapping option"
  mapping2file :: "ptr_slot list"
  view2file :: "ptr_slot list"
  finds :: "nat \<Rightarrow> vfind option"
  findhandles :: "ptr_slot list"

definition wsys :: "'w vfs_env \<Rightarrow> string \<Rightarrow> carg list \<Rightarrow> 'w wfs \<Rightarrow> ret \<times> 'w wfs" where
  "wsys env name args s =
     (case v_sys env name args (world s) of (r, w) \<Rightarrow>
        ((rval r, rout r), s\<lparr>world := w, last_error := (case rerr r of None \<Rightarrow> last_error s | Some x \<Rightarrow> x)\<rparr>))"

definition wsysi :: "'w vfs_env \<Rightarrow> string \<Rightarrow> carg list \<Rightarrow> 'w wfs \<Rightarrow> int \<times> 'w wfs" where
  "wsysi env name args s = (case wsys env name args s of ((v, _), s) \<Rightarrow> (v, s))"

abbreviation (input) ERROR_INVALID_FUNCTION :: int where "ERROR_INVALID_FUNCTION \<equiv> 1"
abbreviation (input) ERROR_FILE_NOT_FOUND :: int where "ERROR_FILE_NOT_FOUND \<equiv> 2"
abbreviation (input) ERROR_TOO_MANY_OPEN_FILES :: int where "ERROR_TOO_MANY_OPEN_FILES \<equiv> 4"
abbreviation (input) ERROR_ACCESS_DENIED :: int where "ERROR_ACCESS_DENIED \<equiv> 5"
abbreviation (input) ERROR_INVALID_HANDLE :: int where "ERROR_INVALID_HANDLE \<equiv> 6"
abbreviation (input) ERROR_NOT_ENOUGH_MEMORY :: int where "ERROR_NOT_ENOUGH_MEMORY \<equiv> 8"
abbreviation (input) ERROR_INVALID_DATA :: int where "ERROR_INVALID_DATA \<equiv> 13"
abbreviation (input) ERROR_NO_MORE_FILES :: int where "ERROR_NO_MORE_FILES \<equiv> 18"
abbreviation (input) ERROR_HANDLE_EOF :: int where "ERROR_HANDLE_EOF \<equiv> 38"
abbreviation (input) ERROR_NOT_SUPPORTED :: int where "ERROR_NOT_SUPPORTED \<equiv> 50"
abbreviation (input) ERROR_INVALID_PARAMETER :: int where "ERROR_INVALID_PARAMETER \<equiv> 87"
abbreviation (input) ERROR_INSUFFICIENT_BUFFER :: int where "ERROR_INSUFFICIENT_BUFFER \<equiv> 122"
abbreviation (input) ERROR_NEGATIVE_SEEK :: int where "ERROR_NEGATIVE_SEEK \<equiv> 131"
abbreviation (input) ERROR_FILE_INVALID :: int where "ERROR_FILE_INVALID \<equiv> 1006"

definition wfail :: "int \<Rightarrow> 'a \<Rightarrow> 'w wfs \<Rightarrow> ('a \<times> 'w wfs) option" where
  "wfail x r s = Some (r, s\<lparr>last_error := x\<rparr>)"

subsection \<open>Times and attributes\<close>

text \<open>The 64-bit tick count; its halves are the fields of the struct.\<close>

definition mp_filetime :: "'w vfs_env \<Rightarrow> nat \<Rightarrow> u64" where
  "mp_filetime env slot = word_of_int (mp_mtime_ns (v_img env) slot sdiv 100) + 116444736000000000"

definition low_part :: "u64 \<Rightarrow> u32" where "low_part t = ucast t"
definition high_part :: "u64 \<Rightarrow> u32" where "high_part t = ucast (drop_bit 32 t)"

abbreviation (input) ATTR_READONLY :: u32 where "ATTR_READONLY \<equiv> 1"
abbreviation (input) ATTR_DIRECTORY :: u32 where "ATTR_DIRECTORY \<equiv> 0x10"

definition attributes_of :: "'w vfs_env \<Rightarrow> nat \<Rightarrow> u32" where
  "attributes_of env slot =
     (if is_dir (entry_of env slot) then ATTR_READONLY OR ATTR_DIRECTORY else ATTR_READONLY)"

text \<open>The four CRT stat structs differ in the widths of \<^verbatim>\<open>st_size\<close> and of the times.\<close>

datatype crt_stat = Stat32 | Stat64 | Stat32i64 | Stat64i32

fun size_width :: "crt_stat \<Rightarrow> nat" where
  "size_width Stat32 = 32" | "size_width Stat64 = 64" | "size_width Stat32i64 = 64" | "size_width Stat64i32 = 32"

fun time_width :: "crt_stat \<Rightarrow> nat" where
  "time_width Stat32 = 32" | "time_width Stat64 = 64" | "time_width Stat32i64 = 32" | "time_width Stat64i32 = 64"

fun crt_name :: "crt_stat \<Rightarrow> string" where
  "crt_name Stat32 = ''stat32''" | "crt_name Stat64 = ''stat64''"
| "crt_name Stat32i64 = ''stat32i64''" | "crt_name Stat64i32 = ''stat64i32''"

record crt_buf =
  cst_mode :: int
  cst_nlink :: int
  cst_size :: int
  cst_time :: int

definition MP_FILL_CRT_STAT :: "'w vfs_env \<Rightarrow> crt_stat \<Rightarrow> nat \<Rightarrow> crt_buf" where
  "MP_FILL_CRT_STAT env ty slot =
     \<lparr> cst_mode = 0x100 OR 0x40 OR (if is_dir (entry_of env slot) then 0x4000 else 0x8000),
       cst_nlink = 1,
       cst_size = signed_take_bit (size_width ty - 1) (int (mp_uncompressed_size (v_img env) slot)),
       cst_time = signed_take_bit (time_width ty - 1) (mp_mtime_ns (v_img env) slot sdiv 1000000000) \<rparr>"

type_synonym 'w crt_ret = "((int \<times> crt_buf option \<times> u8 list) \<times> 'w wfs) option"

definition sys_crt :: "'w vfs_env \<Rightarrow> string \<Rightarrow> carg list \<Rightarrow> 'w wfs \<Rightarrow> 'w crt_ret" where
  "sys_crt env name args s = (case sys env name args s of ((r, bs), s) \<Rightarrow> Some ((r, None, bs), s))"

definition mp_crt_stat :: "'w vfs_env \<Rightarrow> crt_stat \<Rightarrow> cptr \<Rightarrow> 'w wfs \<Rightarrow> 'w crt_ret" where
  "mp_crt_stat env ty path s =
     (case find_virtual env path s of
        None \<Rightarrow> sys_crt env (''_'' @ crt_name ty) [CStr path] s
      | Some slot \<Rightarrow> Some ((0, Some (MP_FILL_CRT_STAT env ty slot), []), s))"

definition mp_crt_wstat :: "'w vfs_env \<Rightarrow> crt_stat \<Rightarrow> wstr option \<Rightarrow> 'w wfs \<Rightarrow> 'w crt_ret" where
  "mp_crt_wstat env ty path s =
     (case find_virtual_wide env path s of
        None \<Rightarrow> sys_crt env (''_w'' @ crt_name ty) [CWstr path] s
      | Some slot \<Rightarrow> Some ((0, Some (MP_FILL_CRT_STAT env ty slot), []), s))"

definition mp_crt_fstat :: "'w vfs_env \<Rightarrow> crt_stat \<Rightarrow> int \<Rightarrow> 'w wfs \<Rightarrow> 'w crt_ret" where
  "mp_crt_fstat env ty fd s =
     (case virtual_fd s fd of
        None \<Rightarrow> sys_crt env (''_f'' @ crt_name ty) [CInt fd] s
      | Some p \<Rightarrow> do {
          e \<leftarrow> heap s p;
          Some ((0, Some (MP_FILL_CRT_STAT env ty (emap_slot e)), []), s) })"

text \<open>
  The narrow calls convert the path and go through the wide ones; when it cannot be converted the real
  narrow call decides.
\<close>

definition via_wide :: "'w vfs_env \<Rightarrow> string \<Rightarrow> (ret \<Rightarrow> 'r) \<Rightarrow> (wstr \<Rightarrow> 'w wfs \<Rightarrow> ('r \<times> 'w wfs) option)
    \<Rightarrow> cptr \<Rightarrow> carg list \<Rightarrow> 'w wfs \<Rightarrow> ('r \<times> 'w wfs) option" where
  "via_wide env name conv wide_call path args s =
     (case Option.bind path (from_acp (v_api env (world s))) of
        None \<Rightarrow> (case wsys env name (CStr path # args) s of (r, s) \<Rightarrow> Some (conv r, s))
      | Some wide_path \<Rightarrow> wide_call wide_path s)"

definition mp_GetFileAttributesW :: "'w vfs_env \<Rightarrow> wstr option \<Rightarrow> 'w wfs \<Rightarrow> (int \<times> 'w wfs) option" where
  "mp_GetFileAttributesW env path s =
     (case find_virtual_wide env path s of
        Some slot \<Rightarrow> Some (uint (attributes_of env slot), s)
      | None \<Rightarrow> Some (wsysi env ''GetFileAttributesW'' [CWstr path] s))"

definition mp_GetFileAttributesA :: "'w vfs_env \<Rightarrow> cptr \<Rightarrow> 'w wfs \<Rightarrow> (int \<times> 'w wfs) option" where
  "mp_GetFileAttributesA env path s =
     via_wide env ''GetFileAttributesA'' fst (\<lambda>p. mp_GetFileAttributesW env (Some p)) path [] s"

record file_data =
  fa_attributes :: u32
  fa_size_high :: u32
  fa_size_low :: u32
  fa_time :: u64

datatype file_buf = Virtual_Data file_data | Os_Data "u8 list" | No_Data

definition file_data_of :: "'w vfs_env \<Rightarrow> nat \<Rightarrow> nat \<Rightarrow> file_data" where
  "file_data_of env slot sz =
     \<lparr> fa_attributes = attributes_of env slot, fa_size_high = high_part (word_of_nat sz),
       fa_size_low = low_part (word_of_nat sz), fa_time = mp_filetime env slot \<rparr>"

text \<open>\<open>buf\<close> says whether the buffer is given; level 0 is \<^verbatim>\<open>GetFileExInfoStandard\<close>.\<close>

definition mp_GetFileAttributesExW :: "'w vfs_env \<Rightarrow> wstr option \<Rightarrow> int \<Rightarrow> bool \<Rightarrow> 'w wfs
    \<Rightarrow> ((int \<times> file_buf) \<times> 'w wfs) option" where
  "mp_GetFileAttributesExW env path level buf s =
     (case (if level \<noteq> 0 \<or> \<not> buf then None else find_virtual_wide env path s) of
        Some slot \<Rightarrow>
          Some ((1, Virtual_Data (file_data_of env slot (mp_uncompressed_size (v_img env) slot))), s)
      | None \<Rightarrow> (case wsys env ''GetFileAttributesExW'' [CWstr path, CInt level, CInt (of_bool_int buf)] s of
          ((r, bs), s) \<Rightarrow> Some ((r, Os_Data bs), s)))"

definition mp_GetFileAttributesExA :: "'w vfs_env \<Rightarrow> cptr \<Rightarrow> int \<Rightarrow> bool \<Rightarrow> 'w wfs
    \<Rightarrow> ((int \<times> file_buf) \<times> 'w wfs) option" where
  "mp_GetFileAttributesExA env path level buf s =
     via_wide env ''GetFileAttributesExA'' (\<lambda>(r, bs). (r, Os_Data bs))
       (\<lambda>p. mp_GetFileAttributesExW env (Some p) level buf) path [CInt level, CInt (of_bool_int buf)] s"

definition mp_DeleteFileW :: "'w vfs_env \<Rightarrow> wstr option \<Rightarrow> 'w wfs \<Rightarrow> (int \<times> 'w wfs) option" where
  "mp_DeleteFileW env path s =
     (case find_virtual_wide env path s of
        Some slot \<Rightarrow> wfail ERROR_ACCESS_DENIED 0 s
      | None \<Rightarrow> Some (wsysi env ''DeleteFileW'' [CWstr path] s))"

definition mp_DeleteFileA :: "'w vfs_env \<Rightarrow> cptr \<Rightarrow> 'w wfs \<Rightarrow> (int \<times> 'w wfs) option" where
  "mp_DeleteFileA env path s = via_wide env ''DeleteFileA'' fst (\<lambda>p. mp_DeleteFileW env (Some p)) path [] s"

definition mp_GetVolumePathNameW :: "'w vfs_env \<Rightarrow> wstr option \<Rightarrow> nat \<Rightarrow> 'w wfs \<Rightarrow> (ret \<times> 'w wfs) option" where
  "mp_GetVolumePathNameW env path cch s =
     (case find_virtual_wide env path s of
        Some slot \<Rightarrow> Some (wsys env ''GetVolumePathNameW'' [CWstr (Some (mp_executable_w (v_wxp env))), CInt (int cch)] s)
      | None \<Rightarrow> Some (wsys env ''GetVolumePathNameW'' [CWstr path, CInt (int cch)] s))"

definition mp_GetFullPathNameW :: "'w vfs_env \<Rightarrow> wstr option \<Rightarrow> nat \<Rightarrow> 'w wfs \<Rightarrow> (ret \<times> 'w wfs) option" where
  "mp_GetFullPathNameW env path n s = Some (wsys env ''GetFullPathNameW'' [CWstr path, CInt (int n)] s)"

definition mp_GetDiskFreeSpaceExW :: "'w vfs_env \<Rightarrow> wstr option \<Rightarrow> 'w wfs \<Rightarrow> (ret \<times> 'w wfs) option" where
  "mp_GetDiskFreeSpaceExW env path s =
     (case (if path = None then None else find_virtual_wide env path s) of
        Some slot \<Rightarrow> Some (wsys env ''GetDiskFreeSpaceExW''
          [CWstr (if is_dir (entry_of env slot) then Some (mp_execfolder_w (v_wxp env)) else path)] s)
      | None \<Rightarrow> Some (wsys env ''GetDiskFreeSpaceExW'' [CWstr path] s))"

subsection \<open>Handles\<close>

abbreviation virtual_handle :: "'w wfs \<Rightarrow> nat \<Rightarrow> nat option" where
  "virtual_handle s h \<equiv> mp_handle_lookup h (handles s)"

text \<open>The scan most handle calls make themselves, without the test for NULL.\<close>

abbreviation scanned_handle :: "'w wfs \<Rightarrow> nat \<Rightarrow> nat option" where
  "scanned_handle s h \<equiv> handle_scan h (handles s)"

definition harg :: "nat \<Rightarrow> carg" where "harg h = CInt (int h)"

definition GENERIC_WRITE :: int where "GENERIC_WRITE = 0x40000000"
definition FILE_WRITE_DATA :: int where "FILE_WRITE_DATA = 2"
definition FILE_APPEND_DATA :: int where "FILE_APPEND_DATA = 4"
definition FILE_FLAG_BACKUP_SEMANTICS :: int where "FILE_FLAG_BACKUP_SEMANTICS = 0x02000000"

abbreviation (input) CREATE_NEW :: int where "CREATE_NEW \<equiv> 1"
abbreviation (input) CREATE_ALWAYS :: int where "CREATE_ALWAYS \<equiv> 2"
abbreviation (input) OPEN_EXISTING :: int where "OPEN_EXISTING \<equiv> 3"
abbreviation (input) TRUNCATE_EXISTING :: int where "TRUNCATE_EXISTING \<equiv> 5"

text \<open>Opening gives a handle, INVALID_HANDLE_VALUE on failure.\<close>

definition mp_CreateFileW :: "'w vfs_env \<Rightarrow> wstr option \<Rightarrow> int \<Rightarrow> int \<Rightarrow> int \<Rightarrow> 'w wfs
    \<Rightarrow> (nat \<times> 'w wfs) option" where
  "mp_CreateFileW env path access disposition flags s =
     (case find_virtual_wide env path s of
        Some slot \<Rightarrow>
          if has_flag access (GENERIC_WRITE OR FILE_WRITE_DATA OR FILE_APPEND_DATA)
          then wfail ERROR_ACCESS_DENIED INVALID_HANDLE_VALUE s
          else if disposition \<in> {CREATE_NEW, CREATE_ALWAYS, TRUNCATE_EXISTING}
          then wfail ERROR_ACCESS_DENIED INVALID_HANDLE_VALUE s
          else if \<not> has_flag flags FILE_FLAG_BACKUP_SEMANTICS \<and> \<not> is_file (entry_of env slot)
          then wfail ERROR_ACCESS_DENIED INVALID_HANDLE_VALUE s
          else if \<not> v_mem env (world s) 0 then wfail ERROR_NOT_ENOUGH_MEMORY INVALID_HANDLE_VALUE s
          else let (e, s) = new_efile (mp_efile_init_metadata (v_img env) slot zero_efile) s;
                   (h, s) = wsysi env ''CreateFileW'' [CWstr (Some (mp_executable_w (v_wxp env))),
                              CInt 0x80000000, CInt OPEN_EXISTING, CInt 0x80] s;
                   h = to_handle h
               in if h = INVALID_HANDLE_VALUE then do {
                    s \<leftarrow> mp_efile_destroy (Some e) s; Some (INVALID_HANDLE_VALUE, s) }
                  else (case mp_handle_register h e (handles s) of
                    Some t \<Rightarrow> Some (h, s\<lparr>handles := t\<rparr>)
                  | None \<Rightarrow> do {
                      s \<leftarrow> mp_efile_destroy (Some e) s;
                      let (_, s) = wsysi env ''CloseHandle'' [harg h] s;
                      wfail ERROR_TOO_MANY_OPEN_FILES INVALID_HANDLE_VALUE s })
      | None \<Rightarrow> (case wsysi env ''CreateFileW'' [CWstr path, CInt access, CInt disposition, CInt flags] s of
          (h, s) \<Rightarrow> Some (to_handle h, s)))"

definition mp_CreateFileA :: "'w vfs_env \<Rightarrow> cptr \<Rightarrow> int \<Rightarrow> int \<Rightarrow> int \<Rightarrow> 'w wfs
    \<Rightarrow> (nat \<times> 'w wfs) option" where
  "mp_CreateFileA env path access disposition flags s =
     via_wide env ''CreateFileA'' (\<lambda>(h, _). to_handle h)
       (\<lambda>p. mp_CreateFileW env (Some p) access disposition flags) path
       [CInt access, CInt disposition, CInt flags] s"

text \<open>\<open>ext\<close> are the attributes, file flags and QoS flags of the extended parameters.\<close>

definition mp_CreateFile2 :: "'w vfs_env \<Rightarrow> wstr option \<Rightarrow> int \<Rightarrow> int \<Rightarrow> (int \<times> int \<times> int) option \<Rightarrow> 'w wfs
    \<Rightarrow> (nat \<times> 'w wfs) option" where
  "mp_CreateFile2 env path access disposition ext s =
     mp_CreateFileW env path access disposition
       (case ext of None \<Rightarrow> 0 | Some (attributes, flags, qos) \<Rightarrow> attributes OR flags OR qos) s"

definition mp_CloseHandle :: "'w vfs_env \<Rightarrow> nat \<Rightarrow> 'w wfs \<Rightarrow> (int \<times> 'w wfs) option" where
  "mp_CloseHandle env h s =
     (case find_slot (\<lambda>x. fst x = h) (mapping2file s) of
        Some (_, None) \<Rightarrow> wfail ERROR_INVALID_HANDLE 0 s
      | Some (_, Some m) \<Rightarrow> do {
          vm \<leftarrow> mappings s m;
          let s = s\<lparr>mapping2file := ptr_release h (mapping2file s)\<rparr>;
          Some (1, s\<lparr>mappings := (mappings s)(m := (if vm_views vm = 0 then None
                                                     else Some (vm\<lparr>vm_closed := True\<rparr>)))\<rparr>) }
      | None \<Rightarrow>
          (case mp_handle_unregister h (handles s) of (e, t) \<Rightarrow> do {
             s \<leftarrow> mp_efile_destroy e (s\<lparr>handles := t\<rparr>);
             Some (wsysi env ''CloseHandle'' [harg h] s) }))"

subsection \<open>Reading and positioning through a handle\<close>

text \<open>The EFILE with its content; \<open>None\<close> when it cannot be decompressed.\<close>

definition mp_efile_load :: "'w vfs_env \<Rightarrow> efile \<Rightarrow> 'w wfs \<Rightarrow> efile option \<times> 'w wfs" where
  "mp_efile_load env e s =
     (if owned_buf e \<noteq> None \<or> \<not> is_file (entry_of env (emap_slot e)) then (Some e, s)
      else case mp_efile_init_virtual (v_img env) True (v_mem env (world s) 0) (emap_slot e) zero_efile of
        Inl x \<Rightarrow> (None, s\<lparr>errno := x\<rparr>)
      | Inr loaded \<Rightarrow> (Some (e\<lparr>pos := pos loaded, eend := eend loaded, owned_buf := owned_buf loaded,
          crt_base := crt_base loaded, crt_ptr := crt_ptr loaded, crt_cnt := crt_cnt loaded\<rparr>), s))"

text \<open>
  The part of \<^verbatim>\<open>mp_ReadFile\<close> on a loaded file: \<open>at\<close> is the 64-bit offset an OVERLAPPED gives. A seek that
  fails leaves the position.
\<close>

definition read_handle :: "int option \<Rightarrow> nat \<Rightarrow> efile \<Rightarrow> u8 list \<times> efile" where
  "read_handle at want e =
     (let e = mp_sync_in e;
          e = (case at of None \<Rightarrow> e | Some off \<Rightarrow> snd (mp_virtual_seek True off SEEK_SET e));
          n = mp_avail e; n = (if n > want then want else n);
          bs = bytes_here n e; e = e\<lparr>pos := pos e + int n\<rparr>
      in (bs, mp_sync_out e))"

text \<open>
  The result: the BOOL, the count stored and the bytes. \<open>overlapped\<close> are the two halves of the offset and
  whether there is an event to set; the status it receives is the last component.
\<close>

definition mp_ReadFile :: "'w vfs_env \<Rightarrow> nat \<Rightarrow> nat \<Rightarrow> (u32 \<times> u32 \<times> bool) option \<Rightarrow> 'w wfs
    \<Rightarrow> ((int \<times> nat \<times> u8 list \<times> int option) \<times> 'w wfs) option" where
  "mp_ReadFile env h want overlapped s =
     (case virtual_handle s h of
        None \<Rightarrow> (case wsys env ''ReadFile'' [harg h, CInt (int want)] s of
          ((r, bs), s) \<Rightarrow> Some ((r, length bs, bs, None), s))
      | Some p \<Rightarrow> do {
          e \<leftarrow> heap s p;
          if \<not> is_file (entry_of env (emap_slot e)) then wfail ERROR_INVALID_FUNCTION (0, 0, [], None) s
          else (case mp_efile_load env e s of
            (None, s) \<Rightarrow> wfail ERROR_NOT_ENOUGH_MEMORY (0, 0, [], None) s
          | (Some e, s) \<Rightarrow>
            let at = map_option (\<lambda>(lo, hi, _). sint ((push_bit 32 (ucast hi) :: u64) OR ucast lo)) overlapped;
                (bs, e) = read_handle at want e;
                s = put_efile p e s
            in case overlapped of
                 None \<Rightarrow> Some ((1, length bs, bs, None), s)
               | Some (_, _, event) \<Rightarrow>
                   let eof = (bs = [] \<and> want \<noteq> 0);
                       status = (if eof then 0xC0000011 else 0);
                       s = (if event then snd (wsysi env ''SetEvent'' [] s) else s)
                   in if eof then wfail ERROR_HANDLE_EOF (0, length bs, bs, Some status) s
                      else Some ((1, length bs, bs, Some status), s)) })"

definition mp_handle_seek :: "'w vfs_env \<Rightarrow> nat \<Rightarrow> int \<Rightarrow> int \<Rightarrow> 'w wfs \<Rightarrow> (int \<times> 'w wfs) option" where
  "mp_handle_seek env p distance how s = do {
     e \<leftarrow> heap s p;
     if how > SEEK_END then wfail ERROR_INVALID_PARAMETER (- 1) s
     else (case mp_efile_load env e s of
       (None, s) \<Rightarrow> wfail ERROR_NOT_ENOUGH_MEMORY (- 1) s
     | (Some e, s) \<Rightarrow>
         (case mp_virtual_seek True distance how (mp_sync_in e) of
            (None, e) \<Rightarrow> wfail ERROR_NEGATIVE_SEEK (- 1) ((put_efile p e s)\<lparr>errno := EINVAL\<rparr>)
          | (Some t, e) \<Rightarrow> Some (t, put_efile p e s))) }"

text \<open>The distance a pair of LONGs stands for, and the two halves of a position.\<close>

definition join_longs :: "int \<Rightarrow> int option \<Rightarrow> int" where
  "join_longs lo hi = (case hi of None \<Rightarrow> lo
     | Some h \<Rightarrow> sint ((push_bit 32 (word_of_int (h mod 2 ^ 32)) :: u64) OR word_of_int (lo mod 2 ^ 32)))"

definition INVALID_SET_FILE_POINTER :: int where "INVALID_SET_FILE_POINTER = 0xFFFFFFFF"

definition mp_SetFilePointer :: "'w vfs_env \<Rightarrow> nat \<Rightarrow> int \<Rightarrow> int option \<Rightarrow> int \<Rightarrow> 'w wfs
    \<Rightarrow> ((int \<times> int option) \<times> 'w wfs) option" where
  "mp_SetFilePointer env h lo hi how s =
     (case virtual_handle s h of
        None \<Rightarrow> (case wsysi env ''SetFilePointer'' [harg h, CInt lo, CInt (case hi of None \<Rightarrow> 0 | Some x \<Rightarrow> x), CInt how] s of
          (r, s) \<Rightarrow> Some ((r, None), s))
      | Some p \<Rightarrow> do {
          (at, s) \<leftarrow> mp_handle_seek env p (join_longs lo hi) how s;
          if at < 0 then Some ((INVALID_SET_FILE_POINTER, None), s)
          else Some ((at mod 2 ^ 32,
                 if hi = None then None else Some (signed_take_bit 31 (at div 2 ^ 32))), s\<lparr>last_error := 0\<rparr>) })"

definition mp_SetFilePointerEx :: "'w vfs_env \<Rightarrow> nat \<Rightarrow> int \<Rightarrow> int \<Rightarrow> 'w wfs
    \<Rightarrow> ((int \<times> int option) \<times> 'w wfs) option" where
  "mp_SetFilePointerEx env h distance how s =
     (case virtual_handle s h of
        None \<Rightarrow> (case wsysi env ''SetFilePointerEx'' [harg h, CInt distance, CInt how] s of
          (r, s) \<Rightarrow> Some ((r, None), s))
      | Some p \<Rightarrow> do {
          (at, s) \<leftarrow> mp_handle_seek env p distance how s;
          Some (if at < 0 then (0, None) else (1, Some at), s) })"

definition mp_is_this_process :: "'w vfs_env \<Rightarrow> int \<Rightarrow> 'w wfs \<Rightarrow> bool \<times> 'w wfs" where
  "mp_is_this_process env process s =
     (let (current, s) = wsysi env ''GetCurrentProcess'' [] s in
      if process = current then (True, s)
      else let (pid, s) = wsysi env ''GetProcessId'' [CInt process] s;
               (self, s) = wsysi env ''GetCurrentProcessId'' [] s
           in (pid = self, s))"

definition DUPLICATE_CLOSE_SOURCE :: int where "DUPLICATE_CLOSE_SOURCE = 1"

text \<open>\<open>target\<close> says whether the new handle is wanted; it is stored by the call as 8 bytes.\<close>

definition mp_DuplicateHandle :: "'w vfs_env \<Rightarrow> int \<Rightarrow> nat \<Rightarrow> int \<Rightarrow> bool \<Rightarrow> int \<Rightarrow> 'w wfs
    \<Rightarrow> ((int \<times> nat) \<times> 'w wfs) option" where
  "mp_DuplicateHandle env src_process h dst_process target options s =
     (let dup = (\<lambda>s. case wsys env ''DuplicateHandle'' [CInt src_process, harg h, CInt dst_process,
            CInt (of_bool_int target), CInt options] s of ((r, bs), s) \<Rightarrow> ((r, le_val bs), s));
          e = virtual_handle s h;
          (ours, s) = (if e = None then (False, s) else mp_is_this_process env src_process s)
      in case e of
           None \<Rightarrow> Some (dup s)
         | Some p \<Rightarrow>
             if \<not> ours then Some (dup s)
             else do {
               src \<leftarrow> heap s p;
               let (here, s) = (if target then mp_is_this_process env dst_process s else (False, s));
               let (copy, s) = (if here then dup_efile env src s else (None, s));
               if here \<and> copy = None then wfail ERROR_NOT_ENOUGH_MEMORY (0, 0) s
               else do {
                 let (closed, s) = (if has_flag options DUPLICATE_CLOSE_SOURCE
                    then (case mp_handle_unregister h (handles s) of (c, t) \<Rightarrow> (c, s\<lparr>handles := t\<rparr>))
                    else (None, s));
                 let ((ok, new), s) = dup s;
                 s \<leftarrow> mp_efile_destroy closed s;
                 case copy of
                   None \<Rightarrow> Some ((ok, new), s)
                 | Some c \<Rightarrow>
                     if ok = 0 then do { s \<leftarrow> mp_efile_destroy copy s; Some ((ok, new), s) }
                     else case mp_handle_register new c (handles s) of
                       Some t \<Rightarrow> Some ((1, new), s\<lparr>handles := t\<rparr>)
                     | None \<Rightarrow> do {
                         let (_, s) = wsysi env ''CloseHandle'' [harg new] s;
                         s \<leftarrow> mp_efile_destroy copy s;
                         wfail ERROR_TOO_MANY_OPEN_FILES (0, new) s } } })"

end
