(* ===== verification/Win_View.thy ===== *)
theory Win_View
  imports Win_File Vfs_Dir
begin

text \<open>
  The Win32 calls that describe a handle, map files and search directories (Embedded/mp_embed.c:
  \<^verbatim>\<open>mp_GetFileInformationByHandle\<close> to \<^verbatim>\<open>mp_GetFinalPathNameByHandleW\<close>, \<^verbatim>\<open>mp_GetFileSizeEx\<close> to
  \<^verbatim>\<open>mp_UnmapViewOfFile\<close>, \<^verbatim>\<open>mp_FindFirstFileA\<close> to \<^verbatim>\<open>mp_FindClose\<close>).
\<close>

subsection \<open>What a handle is\<close>

record handle_info =
  hi_data :: file_data
  hi_links :: nat
  hi_index :: u64

datatype info_buf = Handle_Info handle_info | Basic_Info u32 u64 | Standard_Info nat nat nat bool
  | Os_Info "u8 list" | No_Info

type_synonym 'w info_ret = "((int \<times> info_buf) \<times> 'w wfs) option"

definition wsys_info :: "'w vfs_env \<Rightarrow> string \<Rightarrow> carg list \<Rightarrow> 'w wfs \<Rightarrow> 'w info_ret" where
  "wsys_info env name args s = (case wsys env name args s of ((r, bs), s) \<Rightarrow> Some ((r, Os_Info bs), s))"

definition mp_GetFileInformationByHandle :: "'w vfs_env \<Rightarrow> nat \<Rightarrow> bool \<Rightarrow> 'w wfs \<Rightarrow> 'w info_ret" where
  "mp_GetFileInformationByHandle env h buf s =
     (case scanned_handle s h of
        Some p \<Rightarrow> do {
          e \<leftarrow> heap s p;
          if \<not> buf then wfail ERROR_INVALID_PARAMETER (0, No_Info) s
          else Some ((1, Handle_Info \<lparr> hi_data = file_data_of env (emap_slot e) (esize e), hi_links = 1,
                 hi_index = word_of_nat (v_entries_addr env + EMAP_SIZE * emap_slot e) \<rparr>), s) }
      | None \<Rightarrow> wsys_info env ''GetFileInformationByHandle'' [harg h] s)"

abbreviation (input) FileBasicInfo :: int where "FileBasicInfo \<equiv> 0"
abbreviation (input) FileStandardInfo :: int where "FileStandardInfo \<equiv> 1"

definition SIZEOF_BASIC_INFO :: nat where "SIZEOF_BASIC_INFO = 40"
definition SIZEOF_STANDARD_INFO :: nat where "SIZEOF_STANDARD_INFO = 24"

definition mp_GetFileInformationByHandleEx :: "'w vfs_env \<Rightarrow> nat \<Rightarrow> int \<Rightarrow> bool \<Rightarrow> nat \<Rightarrow> 'w wfs \<Rightarrow> 'w info_ret" where
  "mp_GetFileInformationByHandleEx env h cls buf sz s =
     (case scanned_handle s h of
        Some p \<Rightarrow> do {
          e \<leftarrow> heap s p;
          if \<not> buf then wfail ERROR_INVALID_PARAMETER (0, No_Info) s
          else if cls = FileBasicInfo then
            (if sz < SIZEOF_BASIC_INFO then wfail ERROR_INSUFFICIENT_BUFFER (0, No_Info) s
             else Some ((1, Basic_Info (attributes_of env (emap_slot e)) (mp_filetime env (emap_slot e))), s))
          else if cls = FileStandardInfo then
            (if sz < SIZEOF_STANDARD_INFO then wfail ERROR_INSUFFICIENT_BUFFER (0, No_Info) s
             else Some ((1, Standard_Info (esize e) (esize e) 1 (is_dir (entry_of env (emap_slot e)))), s))
          else wfail ERROR_NOT_SUPPORTED (0, No_Info) s }
      | None \<Rightarrow> wsys_info env ''GetFileInformationByHandleEx'' [harg h, CInt cls, CInt (int sz)] s)"

abbreviation (input) FILE_TYPE_DISK :: int where "FILE_TYPE_DISK \<equiv> 1"

definition mp_GetFileType :: "'w vfs_env \<Rightarrow> nat \<Rightarrow> 'w wfs \<Rightarrow> (int \<times> 'w wfs) option" where
  "mp_GetFileType env h s =
     (if find_slot (\<lambda>x. fst x = h) (handles s) \<noteq> None then Some (FILE_TYPE_DISK, s)
      else Some (wsysi env ''GetFileType'' [harg h] s))"

text \<open>The path of an entry below the executable or on a drive, as a DOS path.\<close>

definition to_backslash :: "16 word \<Rightarrow> 16 word" where
  "to_backslash c = (if c = 0x2F then BSLASH_W else c)"

definition final_path :: "'w vfs_env \<Rightarrow> win_api \<Rightarrow> cstring \<Rightarrow> wstr option" where
  "final_path env api name =
     (let (prefix, rest) =
        (if take 1 name = ''~'' then
           let folder = (if mp_execfolder_alias_w (v_wxp env) \<noteq> [] then mp_execfolder_alias_w (v_wxp env)
                         else mp_execfolder_w (v_wxp env))
           in (if folder \<noteq> [] \<and> last folder = BSLASH_W then butlast folder else folder, drop 1 name)
         else if take 1 name = ''/'' \<and> 1 < length name
         then ([of_nat (of_char (name ! 1)), COLON_W], drop 2 name)
         else ([], name))
      in map_option (\<lambda>w. prefix @ map to_backslash w) (from_utf8 api rest (PATH_MAX - length prefix)))"

definition mp_GetFinalPathNameByHandleW :: "'w vfs_env \<Rightarrow> nat \<Rightarrow> nat \<Rightarrow> int \<Rightarrow> 'w wfs
    \<Rightarrow> ((int \<times> wstr option) \<times> 'w wfs) option" where
  "mp_GetFinalPathNameByHandleW env h cch flags s =
     (case scanned_handle s h of
        Some p \<Rightarrow> do {
          e \<leftarrow> heap s p;
          case final_path env (v_api env (world s)) (ename e) of
            None \<Rightarrow> wfail ERROR_INVALID_DATA (0, None) s
          | Some path \<Rightarrow>
              if cch < length path + 1 then Some ((int (length path) + 1, None), s)
              else Some ((int (length path), Some path), s) }
      | None \<Rightarrow> (case wsysi env ''GetFinalPathNameByHandleW'' [harg h, CInt (int cch), CInt flags] s of
          (r, s) \<Rightarrow> Some ((r, None), s)))"

definition mp_GetFileSizeEx :: "'w vfs_env \<Rightarrow> nat \<Rightarrow> bool \<Rightarrow> 'w wfs \<Rightarrow> ((int \<times> int option) \<times> 'w wfs) option" where
  "mp_GetFileSizeEx env h buf s =
     (case scanned_handle s h of
        Some p \<Rightarrow> do {
          e \<leftarrow> heap s p;
          if \<not> buf then wfail ERROR_INVALID_PARAMETER (0, None) s else Some ((1, Some (int (esize e))), s) }
      | None \<Rightarrow> (case wsys env ''GetFileSizeEx'' [harg h] s of ((r, bs), s) \<Rightarrow>
          Some ((r, Some (int (le_val bs))), s)))"

abbreviation (input) INVALID_FILE_SIZE :: u32 where "INVALID_FILE_SIZE \<equiv> 0xFFFFFFFF"

definition mp_GetFileSize :: "'w vfs_env \<Rightarrow> nat \<Rightarrow> bool \<Rightarrow> 'w wfs \<Rightarrow> ((int \<times> int option) \<times> 'w wfs) option" where
  "mp_GetFileSize env h high s =
     (case scanned_handle s h of
        Some p \<Rightarrow> do {
          e \<leftarrow> heap s p;
          let sz = (word_of_nat (esize e) :: u64);
          let s = (if low_part sz = INVALID_FILE_SIZE then s\<lparr>last_error := 0\<rparr> else s);
          Some ((uint (low_part sz), if high then Some (uint (high_part sz)) else None), s) }
      | None \<Rightarrow> (case wsys env ''GetFileSize'' [harg h, CInt (of_bool_int high)] s of ((r, bs), s) \<Rightarrow>
          Some ((r, if high then Some (int (le_val bs)) else None), s)))"

subsection \<open>Mappings and views\<close>

abbreviation (input) PAGE_READWRITE :: int where "PAGE_READWRITE \<equiv> 4"
abbreviation (input) PAGE_EXECUTE_READWRITE :: int where "PAGE_EXECUTE_READWRITE \<equiv> 0x40"
abbreviation (input) FILE_MAP_WRITE :: int where "FILE_MAP_WRITE \<equiv> 2"

text \<open>
  The VMAPPING and its data are two allocations from the same address counter; the data of \<open>n\<close> bytes
  takes \<open>n + 1\<close> addresses. The result is the mapping's handle, 0 on failure.
\<close>

definition new_mapping :: "u8 list \<Rightarrow> 'w wfs \<Rightarrow> nat \<times> 'w wfs" where
  "new_mapping data s =
     (brk s, s\<lparr>mappings := (mappings s)(brk s \<mapsto> \<lparr> vm_data = data, vm_base = brk s + 1, vm_views = 0,
        vm_closed = False \<rparr>), brk := brk s + length data + 2\<rparr>)"

definition mp_CreateFileMappingW :: "'w vfs_env \<Rightarrow> nat \<Rightarrow> int \<Rightarrow> nat \<Rightarrow> wstr option \<Rightarrow> 'w wfs
    \<Rightarrow> (nat \<times> 'w wfs) option" where
  "mp_CreateFileMappingW env h protect max_size name s =
     (case scanned_handle s h of
        Some p \<Rightarrow> do {
          e \<leftarrow> heap s p;
          if has_flag protect (PAGE_EXECUTE_READWRITE OR PAGE_READWRITE) then wfail ERROR_ACCESS_DENIED 0 s
          else if esize e = 0 then wfail ERROR_FILE_INVALID 0 s
          else if max_size > esize e then wfail ERROR_INVALID_PARAMETER 0 s
          else if \<not> v_mem env (world s) 0 then wfail ERROR_NOT_ENOUGH_MEMORY 0 s
          else case mp_decompress_entry (v_img env) (v_mem env (world s) 1) (emap_slot e) 0 of
            Inl x \<Rightarrow> wfail ERROR_NOT_ENOUGH_MEMORY 0 (s\<lparr>errno := x\<rparr>)
          | Inr (data, n) \<Rightarrow>
              (case new_mapping data s of (m, s) \<Rightarrow>
                 case ptr_claim m (mapping2file s) of
                   Some t \<Rightarrow> Some (m, s\<lparr>mapping2file := t\<rparr>)
                 | None \<Rightarrow> wfail ERROR_TOO_MANY_OPEN_FILES 0 (s\<lparr>mappings := (mappings s)(m := None)\<rparr>)) }
      | None \<Rightarrow> (case wsysi env ''CreateFileMappingW'' [harg h, CInt protect, CInt (int max_size), CWstr name] s of
          (r, s) \<Rightarrow> Some (to_handle r, s)))"

definition mp_CreateFileMappingA :: "'w vfs_env \<Rightarrow> nat \<Rightarrow> int \<Rightarrow> nat \<Rightarrow> cptr \<Rightarrow> 'w wfs
    \<Rightarrow> (nat \<times> 'w wfs) option" where
  "mp_CreateFileMappingA env h protect max_size name s =
     (case name of
        None \<Rightarrow> mp_CreateFileMappingW env h protect max_size None s
      | Some n \<Rightarrow>
          (case from_acp (v_api env (world s)) n of
             None \<Rightarrow> (case wsysi env ''CreateFileMappingA'' [harg h, CInt protect, CInt (int max_size), CStr name] s of
               (r, s) \<Rightarrow> Some (to_handle r, s))
           | Some wide_name \<Rightarrow>
               if \<not> v_mem env (world s) 2 then wfail ERROR_NOT_ENOUGH_MEMORY 0 s
               else mp_CreateFileMappingW env h protect max_size (Some wide_name) s))"

definition view_claim :: "nat \<Rightarrow> nat \<Rightarrow> ptr_slot list \<Rightarrow> ptr_slot list option" where
  "view_claim v m t = claim (\<lambda>x. fst x = 0) (v, Some m) t"

definition mp_MapViewOfFile :: "'w vfs_env \<Rightarrow> nat \<Rightarrow> int \<Rightarrow> nat \<Rightarrow> nat \<Rightarrow> 'w wfs \<Rightarrow> (nat \<times> 'w wfs) option" where
  "mp_MapViewOfFile env h access offset len s =
     (case ptr_scan h (mapping2file s) of
        Some m \<Rightarrow> do {
          vm \<leftarrow> mappings s m;
          if has_flag access FILE_MAP_WRITE then wfail ERROR_ACCESS_DENIED 0 s
          else if offset \<ge> length (vm_data vm) then wfail ERROR_INVALID_PARAMETER 0 s
          else let view = vm_base vm + offset in
          case view_claim view m (view2file s) of
            Some t \<Rightarrow> Some (view, s\<lparr>view2file := t,
               mappings := (mappings s)(m \<mapsto> vm\<lparr>vm_views := vm_views vm + 1\<rparr>)\<rparr>)
          | None \<Rightarrow> wfail ERROR_TOO_MANY_OPEN_FILES 0 s }
      | None \<Rightarrow> (case wsysi env ''MapViewOfFile'' [harg h, CInt access, CInt (int offset), CInt (int len)] s of
          (r, s) \<Rightarrow> Some (to_handle r, s)))"

text \<open>The first slot with the address; a NULL mapping in it would be dereferenced.\<close>

definition mp_UnmapViewOfFile :: "'w vfs_env \<Rightarrow> nat \<Rightarrow> 'w wfs \<Rightarrow> (int \<times> 'w wfs) option" where
  "mp_UnmapViewOfFile env view s =
     (case find_slot (\<lambda>x. fst x = view) (view2file s) of
        Some (_, m) \<Rightarrow> do {
          m \<leftarrow> m;
          vm \<leftarrow> mappings s m;
          let s = s\<lparr>view2file := ptr_release view (view2file s)\<rparr>;
          let vm = vm\<lparr>vm_views := vm_views vm - 1\<rparr>;
          Some (1, s\<lparr>mappings := (mappings s)(m := (if vm_views vm = 0 \<and> vm_closed vm then None else Some vm))\<rparr>) }
      | None \<Rightarrow> Some (wsysi env ''UnmapViewOfFile'' [harg view] s))"

text \<open>The bytes a program sees at an address of a view: those of the mapping's data that are left.\<close>

definition view_bytes :: "nat \<Rightarrow> 'w wfs \<Rightarrow> u8 list option" where
  "view_bytes view s = do {
     m \<leftarrow> ptr_scan view (view2file s);
     vm \<leftarrow> mappings s m;
     Some (drop (view - vm_base vm) (vm_data vm)) }"

subsection \<open>Searching\<close>

text \<open>
  Of the data of a real match only the name is looked at: the bytes a real search stores stand for it, in
  little-endian units. The rest of a real match is passed through.
\<close>

fun wide_of_bytes :: "u8 list \<Rightarrow> wstr" where
  "wide_of_bytes (lo # hi # bs) = (ucast lo OR push_bit 8 (ucast hi)) # wide_of_bytes bs"
| "wide_of_bytes _ = []"

datatype find_data = Found wstr file_data | Real_Found wstr

definition MAX_PATH :: nat where "MAX_PATH = 260"

definition mp_entry_name_w :: "'w vfs_env \<Rightarrow> win_api \<Rightarrow> nat \<Rightarrow> nat \<Rightarrow> wstr" where
  "mp_entry_name_w env api slot cch =
     (case from_utf8 api (last_component (mp_path_of (v_img env) slot)) cch of None \<Rightarrow> [] | Some w \<Rightarrow> w)"

definition populate_find_data :: "'w vfs_env \<Rightarrow> win_api \<Rightarrow> nat \<Rightarrow> find_data" where
  "populate_find_data env api slot =
     Found (mp_entry_name_w env api slot MAX_PATH) (file_data_of env slot (mp_uncompressed_size (v_img env) slot))"

text \<open>The first child from \<open>i\<close> on whose name matches, with the index to go on from.\<close>

function next_match :: "'w vfs_env \<Rightarrow> win_api \<Rightarrow> wstr \<Rightarrow> nat \<Rightarrow> nat \<Rightarrow> nat option \<times> nat" where
  "next_match env api pattern dir i =
     (if i \<ge> children_count (entry_of env dir) then (None, i)
      else let child = mp_embed_child_at (v_img env) dir i
           in if match_spec api (mp_entry_name_w env api child MAX_PATH) pattern then (Some child, i + 1)
              else next_match env api pattern dir (i + 1))"
  by pat_completeness auto
termination
  by (relation "measure (\<lambda>(env, api, pattern, dir, i). children_count (entry_of env dir) - i)") auto

declare next_match.simps [simp del]

text \<open>\<open>fuel\<close> bounds the real matches passed over; \<open>None\<close> when it is used up.\<close>

fun next_real :: "'w vfs_env \<Rightarrow> nat \<Rightarrow> vfind \<Rightarrow> 'w wfs \<Rightarrow> ((find_data option \<times> vfind) \<times> 'w wfs) option" where
  "next_real env 0 data s = None"
| "next_real env (Suc fuel) data s =
     (if \<not> find_ready data then Some ((None, data), s)
      else let found = wide_of_bytes (find_next_name data);
               ((r, bs), s) = wsys env ''FindNextFileW'' [harg (find_real data)] s;
               data = data\<lparr>find_ready := (r \<noteq> 0), find_next_name := (if r \<noteq> 0 then bs else find_next_name data)\<rparr>
           in case to_utf8 (v_api env (world s)) found (MAX_PATH * 4) of
                None \<Rightarrow> Some ((Some (Real_Found found), data), s)
              | Some name \<Rightarrow>
                  if \<not> mp_shadowed (v_img env) (find_dir data) name then Some ((Some (Real_Found found), data), s)
                  else next_real env fuel data s)"

definition mp_find_next :: "'w vfs_env \<Rightarrow> nat \<Rightarrow> vfind \<Rightarrow> 'w wfs
    \<Rightarrow> ((find_data option \<times> vfind) \<times> 'w wfs) option" where
  "mp_find_next env fuel data s =
     (let api = v_api env (world s) in
      case next_match env api (find_pattern data) (find_dir data) (find_child data) of
        (Some child, i) \<Rightarrow> Some ((Some (populate_find_data env api child), data\<lparr>find_child := i\<rparr>), s)
      | (None, i) \<Rightarrow> next_real env fuel (data\<lparr>find_child := i\<rparr>) s)"

definition mp_find_free :: "'w vfs_env \<Rightarrow> vfind \<Rightarrow> 'w wfs \<Rightarrow> 'w wfs" where
  "mp_find_free env data s =
     (if find_real data \<noteq> INVALID_HANDLE_VALUE then snd (wsysi env ''FindClose'' [harg (find_real data)] s) else s)"

definition real_find_first :: "'w vfs_env \<Rightarrow> wstr option \<Rightarrow> 'w wfs
    \<Rightarrow> ((nat \<times> find_data option) \<times> 'w wfs) option" where
  "real_find_first env path s =
     (case wsys env ''FindFirstFileW'' [CWstr path] s of ((r, bs), s) \<Rightarrow>
        Some ((to_handle r, if to_handle r = INVALID_HANDLE_VALUE then None
                            else Some (Real_Found (wide_of_bytes bs))), s))"

definition mp_FindFirstFileW :: "'w vfs_env \<Rightarrow> nat \<Rightarrow> wstr option \<Rightarrow> 'w wfs
    \<Rightarrow> ((nat \<times> find_data option) \<times> 'w wfs) option" where
  "mp_FindFirstFileW env fuel path s =
     (let api = v_api env (world s) in
      case path of
        None \<Rightarrow> real_find_first env path s
      | Some p \<Rightarrow>
          if length p \<ge> PATH_MAX then real_find_first env path s
          else let dir = (case remove_spec api p of None \<Rightarrow> p | Some d \<Rightarrow> d);
                   dir = (if dir = [] then [0x2E] else dir)
               in case find_virtual_wide env (Some dir) s of
                    None \<Rightarrow> real_find_first env path s
                  | Some slot \<Rightarrow>
                      if \<not> is_dir (entry_of env slot) then real_find_first env path s
                      else if \<not> v_mem env (world s) 0
                      then wfail ERROR_NOT_ENOUGH_MEMORY (INVALID_HANDLE_VALUE, None) s
                      else let ((r, bs), s) = wsys env ''FindFirstFileW'' [CWstr path] s;
                               data = \<lparr> find_dir = slot, find_child = 0,
                                 find_pattern = take (MAX_PATH - 1) (file_name_part api p),
                                 find_real = to_handle r, find_ready = (to_handle r \<noteq> INVALID_HANDLE_VALUE),
                                 find_next_name = bs \<rparr>
                           in do {
                             ((first, data), s) \<leftarrow> mp_find_next env fuel data s;
                             case first of
                               None \<Rightarrow> wfail ERROR_FILE_NOT_FOUND (INVALID_HANDLE_VALUE, None) (mp_find_free env data s)
                             | Some f \<Rightarrow>
                                 let h = brk s; s = s\<lparr>brk := h + 1\<rparr> in
                                 (case ptr_claim h (findhandles s) of
                                    Some t \<Rightarrow> Some ((h, Some f), s\<lparr>findhandles := t, finds := (finds s)(h \<mapsto> data)\<rparr>)
                                  | None \<Rightarrow> wfail ERROR_TOO_MANY_OPEN_FILES (INVALID_HANDLE_VALUE, None)
                                              (mp_find_free env data s)) })"

definition mp_FindNextFileW :: "'w vfs_env \<Rightarrow> nat \<Rightarrow> nat \<Rightarrow> 'w wfs
    \<Rightarrow> ((int \<times> find_data option) \<times> 'w wfs) option" where
  "mp_FindNextFileW env fuel h s =
     (case ptr_scan h (findhandles s) of
        None \<Rightarrow> (case wsys env ''FindNextFileW'' [harg h] s of ((r, bs), s) \<Rightarrow>
          Some ((r, if r = 0 then None else Some (Real_Found (wide_of_bytes bs))), s))
      | Some q \<Rightarrow> do {
          data \<leftarrow> finds s q;
          ((found, data), s) \<leftarrow> mp_find_next env fuel data s;
          let s = s\<lparr>finds := (finds s)(q \<mapsto> data)\<rparr>;
          if found = None then wfail ERROR_NO_MORE_FILES (0, None) s else Some ((1, found), s) })"

text \<open>A free slot matches NULL, and its data is NULL too.\<close>

definition mp_FindClose :: "'w vfs_env \<Rightarrow> nat \<Rightarrow> 'w wfs \<Rightarrow> (int \<times> 'w wfs) option" where
  "mp_FindClose env h s =
     (case find_slot (\<lambda>x. fst x = h) (findhandles s) of
        Some (_, q) \<Rightarrow> do {
          q \<leftarrow> q;
          data \<leftarrow> finds s q;
          let s = s\<lparr>findhandles := ptr_release h (findhandles s)\<rparr>;
          let s = mp_find_free env data s;
          Some (1, s\<lparr>finds := (finds s)(q := None)\<rparr>) }
      | None \<Rightarrow> Some (wsysi env ''FindClose'' [harg h] s))"

text \<open>The narrow calls convert the name found; a name that cannot be converted leaves its buffer as it is.\<close>

datatype find_data_a = Found_A cptr file_data | Real_Found_A cptr

fun ConvertFindDataWtoA :: "win_api \<Rightarrow> find_data \<Rightarrow> find_data_a" where
  "ConvertFindDataWtoA api (Found name d) = Found_A (to_acp api name MAX_PATH) d"
| "ConvertFindDataWtoA api (Real_Found name) = Real_Found_A (to_acp api name MAX_PATH)"

definition mp_FindFirstFileA :: "'w vfs_env \<Rightarrow> nat \<Rightarrow> cptr \<Rightarrow> 'w wfs
    \<Rightarrow> ((nat \<times> find_data_a option) \<times> 'w wfs) option" where
  "mp_FindFirstFileA env fuel path s =
     (case Option.bind path (from_acp (v_api env (world s))) of
        None \<Rightarrow> (case wsys env ''FindFirstFileA'' [CStr path] s of ((r, bs), s) \<Rightarrow>
          Some ((to_handle r, Some (Real_Found_A (Some (name_of_bytes bs)))), s))
      | Some wide_path \<Rightarrow> do {
          ((h, found), s) \<leftarrow> mp_FindFirstFileW env fuel (Some wide_path) s;
          Some ((h, if h = INVALID_HANDLE_VALUE then None
                    else map_option (ConvertFindDataWtoA (v_api env (world s))) found), s) })"

definition mp_FindNextFileA :: "'w vfs_env \<Rightarrow> nat \<Rightarrow> nat \<Rightarrow> 'w wfs
    \<Rightarrow> ((int \<times> find_data_a option) \<times> 'w wfs) option" where
  "mp_FindNextFileA env fuel h s =
     (case ptr_scan h (findhandles s) of
        None \<Rightarrow> (case wsys env ''FindNextFileA'' [harg h] s of ((r, bs), s) \<Rightarrow>
          Some ((r, Some (Real_Found_A (Some (name_of_bytes bs)))), s))
      | Some q \<Rightarrow> do {
          ((r, found), s) \<leftarrow> mp_FindNextFileW env fuel h s;
          Some ((r, if r = 0 then None else map_option (ConvertFindDataWtoA (v_api env (world s))) found), s) })"

end
