(* ===== verification/Win_Props.thy ===== *)
theory Win_Props
  imports Win_View Vfile_Props
begin

text \<open>
  What the Win32 calls do with an embedded file: refused writes, and a virtual handle as an abstract
  file with a content and a position.
\<close>

subsection \<open>Refused writes\<close>


subsection \<open>A handle as a file with a position\<close>

text \<open>The content is in the buffer, the next byte to read is the one at offset \<open>k\<close>.\<close>

definition loaded :: "u8 list \<Rightarrow> nat \<Rightarrow> efile \<Rightarrow> bool" where
  "loaded c k e \<longleftrightarrow> handle_type e = EHANDLE_VIRTUAL \<and> owned_buf e = Some (0 # c) \<and> esize e = length c
     \<and> eend e = 1 + int (length c) \<and> crt_ptr e = 1 + int k \<and> unget_saved e = 0"

definition metadata_only :: "u8 list \<Rightarrow> efile \<Rightarrow> bool" where
  "metadata_only c e \<longleftrightarrow> handle_type e = EHANDLE_VIRTUAL \<and> owned_buf e = None \<and> esize e = length c \<and> unget_saved e = 0"

text \<open>The EFILE of a handle stands for the file \<open>slot\<close> with content \<open>c\<close>, read up to \<open>k\<close>.\<close>

definition stands_for :: "'w vfs_env \<Rightarrow> nat \<Rightarrow> u8 list \<Rightarrow> nat \<Rightarrow> efile \<Rightarrow> bool" where
  "stands_for env slot c k e \<longleftrightarrow> emap_slot e = slot \<and> is_file (entry_of env slot)
     \<and> file_content (v_img env) slot = Some c \<and> (loaded c k e \<or> k = 0 \<and> metadata_only c e)"

lemma init_win:
  assumes "is_file (emap_of img slot)" "file_content img slot = Some c"
  shows "mp_efile_init_virtual img True True slot e = Inr (e\<lparr>handle_type := EHANDLE_VIRTUAL,
     ename := mp_path_of img slot, pos := 1, eend := 1 + int (length c), esize := length c, err := 0,
     fptr := None, emap_slot := slot, owned_buf := Some (0 # c), crt_base := 1, crt_ptr := 1,
     crt_cnt := sint (word_of_nat (length c) :: 32 word), unget_saved := 0\<rparr>)"
  using assms decompress_entry_content [of img True slot 1]
  by (simp add: mp_efile_init_virtual_def)

lemma load_stands:
  assumes "stands_for env slot c k e" "v_mem env (world s) 0"
  obtains e' where "mp_efile_load env e s = (Some e', s)" "loaded c k e'" "emap_slot e' = slot"
proof (cases "loaded c k e")
  case True
  with assms that [of e] show thesis by (simp add: mp_efile_load_def loaded_def stands_for_def)
next
  case False
  with assms(1) have m: "metadata_only c e" "k = 0" "emap_slot e = slot" "is_file (entry_of env slot)"
    "file_content (v_img env) slot = Some c" by (simp_all add: stands_for_def)
  let ?e = "e\<lparr>pos := 1, eend := 1 + int (length c), owned_buf := Some (0 # c), crt_base := 1, crt_ptr := 1,
    crt_cnt := sint (word_of_nat (length c) :: 32 word)\<rparr>"
  have "mp_efile_load env e s = (Some ?e, s)"
    using m assms(2) init_win [OF m(4,5), of zero_efile] by (simp add: metadata_only_def mp_efile_load_def)
  with that [of ?e] m(1-3) show thesis by (simp add: metadata_only_def loaded_def)
qed

lemma read_loaded:
  assumes "loaded c k e"
  shows "fst (read_handle None n e) = take n (drop k c)"
    and "loaded c (k + length (take n (drop k c))) (snd (read_handle None n e))"
    and "emap_slot (snd (read_handle None n e)) = emap_slot e"
proof -
  have "mp_avail (mp_sync_in e) = length (drop k c)"
    using assms by (auto simp: loaded_def mp_sync_in_def mp_avail_def)
  then show "fst (read_handle None n e) = take n (drop k c)"
    and "loaded c (k + length (take n (drop k c))) (snd (read_handle None n e))"
    and "emap_slot (snd (read_handle None n e)) = emap_slot e"
    using assms
    by (auto simp: loaded_def read_handle_def mp_sync_in_def mp_sync_out_def bytes_here_def Let_def nat_add_distrib min_def)
qed

text \<open>Where a move goes, on a file of \<open>len\<close> bytes read up to \<open>k\<close>.\<close>

definition move_target :: "nat \<Rightarrow> nat \<Rightarrow> int \<Rightarrow> int \<Rightarrow> int option" where
  "move_target len k d how =
     (let t = (if how = SEEK_SET then d else if how = SEEK_CUR then wrap64 (int k + d) else wrap64 (int len + d))
      in if how \<notin> {SEEK_SET, SEEK_CUR, SEEK_END} \<or> t < 0 then None else Some t)"

lemma seek_loaded:
  fixes d how :: int
  assumes "loaded c k e"
  defines "r \<equiv> mp_virtual_seek True d how (mp_sync_in e)"
  shows "fst r = move_target (length c) k d how" "emap_slot (snd r) = emap_slot e"
    "loaded c (case move_target (length c) k d how of None \<Rightarrow> k | Some t \<Rightarrow> nat t) (snd r)" "mp_sync_in (snd r) = snd r"
proof -
  have e: "pos (mp_sync_in e) = 1 + int k" "eend (mp_sync_in e) = 1 + int (length c)"
    "esize (mp_sync_in e) = length c" "mp_unget_restore (mp_sync_in e) = mp_sync_in e"
    using assms(1) by (simp_all add: loaded_def mp_sync_in_def mp_unget_restore_def)
  have "r = (case move_target (length c) k d how of None \<Rightarrow> (None, mp_sync_in e)
      | Some t \<Rightarrow> (Some t, mp_sync_out ((mp_sync_in e)\<lparr>pos := 1 + t\<rparr>)))"
    unfolding r_def mp_virtual_seek_def move_target_def e Let_def by simp
  moreover have "loaded c k (mp_sync_in e)" "emap_slot (mp_sync_in e) = emap_slot e"
    using assms(1) by (simp_all add: loaded_def mp_sync_in_def)
  moreover have sync: "mp_sync_in (mp_sync_in e) = mp_sync_in e"
    "mp_sync_in (mp_sync_out ((mp_sync_in e)\<lparr>pos := x\<rparr>)) = mp_sync_out ((mp_sync_in e)\<lparr>pos := x\<rparr>)" for x
    by (simp_all add: mp_sync_in_def mp_sync_out_def)
  moreover have "0 \<le> t" if "move_target (length c) k d how = Some t" for t
    using that by (auto simp: move_target_def Let_def split: if_splits)
  moreover have "loaded c (nat t) (mp_sync_out ((mp_sync_in e)\<lparr>pos := 1 + t\<rparr>))"
    "emap_slot (mp_sync_out ((mp_sync_in e)\<lparr>pos := 1 + t\<rparr>)) = emap_slot e" if "0 \<le> t" for t
    using that assms(1) by (simp_all add: loaded_def mp_sync_in_def mp_sync_out_def)
  ultimately show "fst r = move_target (length c) k d how" "emap_slot (snd r) = emap_slot e"
    "loaded c (case move_target (length c) k d how of None \<Rightarrow> k | Some t \<Rightarrow> nat t) (snd r)" "mp_sync_in (snd r) = snd r"
    using sync by (simp_all split: option.split)
qed

text \<open>
  What a program does with a handle: read from where it is, read at an OVERLAPPED offset given in two halves, and
  move; and what it learns.
\<close>

datatype handle_op = Read_file nat | Read_at u32 u32 nat | Set_pointer int int
datatype handle_answer = Bytes "u8 list" | End_of_file | Moved int | Refused

fun do_handle :: "'w vfs_env \<Rightarrow> nat \<Rightarrow> handle_op \<Rightarrow> 'w wfs \<Rightarrow> (handle_answer \<times> 'w wfs) option" where
  "do_handle env h (Read_file n) s = map_option (\<lambda>((ok, _, bs, _), s). (if ok = 0 then End_of_file else Bytes bs, s))
     (mp_ReadFile env h n None s)"
| "do_handle env h (Read_at lo hi n) s = map_option (\<lambda>((ok, _, bs, _), s). (if ok = 0 then End_of_file else Bytes bs, s))
     (mp_ReadFile env h n (Some (lo, hi, False)) s)"
| "do_handle env h (Set_pointer d how) s = map_option (\<lambda>((ok, at), s). (case at of None \<Rightarrow> Refused | Some t \<Rightarrow> Moved t, s))
     (mp_SetFilePointerEx env h d how s)"

fun do_handles :: "'w vfs_env \<Rightarrow> nat \<Rightarrow> handle_op list \<Rightarrow> 'w wfs \<Rightarrow> (handle_answer list \<times> 'w wfs) option" where
  "do_handles env h [] s = Some ([], s)"
| "do_handles env h (x # xs) s = do {
     (a, s) \<leftarrow> do_handle env h x s;
     (as, s) \<leftarrow> do_handles env h xs s;
     Some (a # as, s) }"

text \<open>
  The specification: a file is its content and a position. An OVERLAPPED offset past the signed range is
  refused by the seek, and the read then goes on from where the handle was.
\<close>

definition overlapped_at :: "u32 \<Rightarrow> u32 \<Rightarrow> int" where
  "overlapped_at lo hi = sint ((push_bit 32 (ucast hi) :: u64) OR ucast lo)"

fun spec_handle :: "u8 list \<Rightarrow> handle_op \<Rightarrow> nat \<Rightarrow> handle_answer \<times> nat" where
  "spec_handle c (Read_file n) k = (let bs = take n (drop k c) in (Bytes bs, k + length bs))"
| "spec_handle c (Read_at lo hi n) k =
     (let k = (if overlapped_at lo hi < 0 then k else nat (overlapped_at lo hi)); bs = take n (drop k c)
      in (if bs = [] \<and> n \<noteq> 0 then End_of_file else Bytes bs, k + length bs))"
| "spec_handle c (Set_pointer d how) k =
     (case move_target (length c) k d how of None \<Rightarrow> (Refused, k) | Some t \<Rightarrow> (Moved t, nat t))"

fun spec_handles :: "u8 list \<Rightarrow> handle_op list \<Rightarrow> nat \<Rightarrow> handle_answer list" where
  "spec_handles c [] k = []"
| "spec_handles c (x # xs) k = (case spec_handle c x k of (a, k) \<Rightarrow> a # spec_handles c xs k)"

lemma handle_refines:
  assumes "stands_for env slot c k e" "virtual_handle s h = Some p" "heap s p = Some e" "v_mem env (world s) 0"
  obtains e' s' where "do_handle env h x s = Some (fst (spec_handle c x k), s')"
    "stands_for env slot c (snd (spec_handle c x k)) e'" "heap s' p = Some e'" "handles s' = handles s" "world s' = world s"
proof -
  from load_stands [OF assms(1,4)] obtain e1 where l: "mp_efile_load env e s = (Some e1, s)" "loaded c k e1"
    "emap_slot e1 = slot" .
  have f: "emap_slot e = slot" "is_file (entry_of env slot)" "file_content (v_img env) slot = Some c"
    using assms(1) by (simp_all add: stands_for_def)
  show thesis
  proof (cases x)
    case (Read_file n)
    let ?e = "snd (read_handle None n e1)"
    have "stands_for env slot c (k + length (take n (drop k c))) ?e"
      using read_loaded [OF l(2), of n] l(3) f by (simp add: stands_for_def)
    moreover have "do_handle env h x s = Some (Bytes (take n (drop k c)), put_efile p ?e s)"
      using read_loaded(1) [OF l(2), of n] l f assms(2,3) Read_file by (simp add: mp_ReadFile_def case_prod_beta)
    ultimately show thesis using that [of "put_efile p ?e s" ?e] Read_file by (simp add: put_efile_def Let_def)
  next
    case (Read_at lo hi n)
    let ?off = "overlapped_at lo hi"
    let ?e1 = "snd (mp_virtual_seek True ?off SEEK_SET (mp_sync_in e1))"
    let ?k = "if ?off < 0 then k else nat ?off"
    have "move_target (length c) k ?off SEEK_SET = (if ?off < 0 then None else Some ?off)" by (simp add: move_target_def)
    with seek_loaded [OF l(2), of ?off SEEK_SET] l(3) have l1: "loaded c ?k ?e1" "emap_slot ?e1 = slot"
      "mp_sync_in ?e1 = ?e1" by (simp_all split: if_splits)
    obtain bs e2 where rd: "read_handle (Some ?off) n e1 = (bs, e2)" by fastforce
    moreover have "read_handle (Some ?off) n e1 = read_handle None n ?e1" using l1(3) by (simp add: read_handle_def)
    ultimately have bs: "bs = take n (drop ?k c)" and st: "stands_for env slot c (?k + length bs) e2"
      using read_loaded [OF l1(1), of n] l1(2) f by (simp_all add: stands_for_def)
    obtain s' where "do_handle env h x s = Some (if bs = [] \<and> n \<noteq> 0 then End_of_file else Bytes bs, s')"
        "heap s' p = Some e2" "handles s' = handles s" "world s' = world s"
      using rd l f assms(2,3) Read_at that
      by (cases "bs = [] \<and> n \<noteq> 0") (simp_all add: mp_ReadFile_def overlapped_at_def wfail_def put_efile_def Let_def)
    then show thesis using that [of s' e2] st Read_at unfolding bs by (simp add: Let_def)
  next
    case (Set_pointer d how)
    let ?r = "mp_virtual_seek True d how (mp_sync_in e1)"
    note sk = seek_loaded [OF l(2), of d how]
    have neg: "move_target (length c) k d how = None" if "how > SEEK_END" using that by (simp add: move_target_def)
    have nonneg: "0 \<le> t" if "move_target (length c) k d how = Some t" for t
      using that by (auto simp: move_target_def Let_def split: if_splits)
    show thesis
    proof (cases "how > SEEK_END")
      case True
      with that [of "s\<lparr>last_error := ERROR_INVALID_PARAMETER\<rparr>" e] neg assms Set_pointer show thesis
        by (simp add: mp_SetFilePointerEx_def mp_handle_seek_def wfail_def)
    next
      case False
      have st: "stands_for env slot c (case move_target (length c) k d how of None \<Rightarrow> k | Some t \<Rightarrow> nat t) (snd ?r)"
        using sk(2,3) l(3) f by (simp add: stands_for_def)
      show thesis
      proof (cases "move_target (length c) k d how")
        case None
        with sk(1) obtain e2 where r: "?r = (None, e2)" by (cases ?r) simp
        with st None that [of "(put_efile p e2 s)\<lparr>errno := EINVAL, last_error := ERROR_NEGATIVE_SEEK\<rparr>" e2] False l f assms(2,3) Set_pointer
        show thesis by (simp add: mp_SetFilePointerEx_def mp_handle_seek_def wfail_def put_efile_def)
      next
        case (Some t)
        with sk(1) obtain e2 where r: "?r = (Some t, e2)" by (cases ?r) simp
        with st Some nonneg [OF Some] that [of "put_efile p e2 s" e2] False l f assms(2,3) Set_pointer
        show thesis by (simp add: mp_SetFilePointerEx_def mp_handle_seek_def put_efile_def)
      qed
    qed
  qed
qed

lemma handles_refine:
  assumes "stands_for env slot c k e" "virtual_handle s h = Some p" "heap s p = Some e" "v_mem env (world s) 0"
  shows "\<exists>s'. do_handles env h xs s = Some (spec_handles c xs k, s')"
  using assms
proof (induction xs arbitrary: k e s)
  case (Cons x xs)
  from handle_refines [OF Cons.prems, of x] obtain e' s1 where
    "do_handle env h x s = Some (fst (spec_handle c x k), s1)" "stands_for env slot c (snd (spec_handle c x k)) e'"
    "heap s1 p = Some e'" "handles s1 = handles s" "world s1 = world s" .
  with Cons.IH [of "snd (spec_handle c x k)" e' s1] Cons.prems(2,4) show ?case
    by (auto simp: case_prod_beta)
qed simp

lemma wsysi_same: "wsysi env name args s = (v, s') \<Longrightarrow> heap s' = heap s \<and> handles s' = handles s \<and> brk s' = brk s"
  by (auto simp: wsysi_def wsys_def split: prod.splits)

lemma create_file_gives:
  assumes "find_virtual_wide env path s = Some slot"
    and "mp_CreateFileW env path access disposition flags s = Some (h, s1)" "h \<noteq> INVALID_HANDLE_VALUE"
  shows "mp_handle_register h (brk s) (handles s) = Some (handles s1)"
    and "heap s1 = (heap s)(brk s \<mapsto> mp_efile_init_metadata (v_img env) slot zero_efile)"
proof -
  let ?m = "mp_efile_init_metadata (v_img env) slot zero_efile"
  let ?s0 = "s\<lparr>heap := (heap s)(brk s \<mapsto> ?m), brk := brk s + 1\<rparr>"
  obtain v s2 where c: "wsysi env ''CreateFileW'' [CWstr (Some (mp_executable_w (v_wxp env))), CInt 0x80000000,
      CInt OPEN_EXISTING, CInt 0x80] ?s0 = (v, s2)" by fastforce
  have e: "heap s2 = heap ?s0" "handles s2 = handles s" using wsysi_same [OF c] by simp_all
  have to: "to_handle v = h \<and> (case mp_handle_register h (brk s) (handles s2) of None \<Rightarrow> False
      | Some t \<Rightarrow> s1 = s2\<lparr>handles := t\<rparr>)"
  proof (cases "to_handle v = INVALID_HANDLE_VALUE")
    case True
    with assms c e show ?thesis
      by (auto simp: mp_CreateFileW_def new_efile_def wfail_def mp_efile_destroy_def free_efile_def split: if_splits)
  next
    case False
    then show ?thesis
    proof (cases "mp_handle_register (to_handle v) (brk s) (handles s2)")
      case None
      with False assms c e show ?thesis
        by (auto simp: mp_CreateFileW_def new_efile_def wfail_def mp_efile_destroy_def free_efile_def
            split: if_splits prod.splits)
    next
      case (Some t)
      with False assms c e show ?thesis
        by (auto simp: mp_CreateFileW_def new_efile_def wfail_def split: if_splits)
    qed
  qed
  show "mp_handle_register h (brk s) (handles s) = Some (handles s1)" "heap s1 = (heap s)(brk s \<mapsto> ?m)"
    using to e by (auto split: option.splits)
qed

lemma size_content:
  assumes "file_content img slot = Some c"
  shows "mp_uncompressed_size img slot = length c"
  using assms by (auto simp: file_content_def mp_uncompressed_size_def split: if_splits zstd_size.splits option.splits)

text \<open>
  C36. A handle of an embedded file is a file with a content and a position: whatever is read from it, at its position
  or at OVERLAPPED offsets, and wherever it is moved to, the calls answer what the specification says, although the
  content is decompressed on first use only.
\<close>

theorem win_handle_refines:
  assumes "find_virtual_wide env path s = Some slot" and "is_file (entry_of env slot)"
    and "file_content (v_img env) slot = Some c"
    and "handles_ok (handles s)" and "virtual_handle s h = None" and "h \<noteq> 0"
    and "mp_CreateFileW env path access disposition flags s = Some (h, s1)" and "h \<noteq> INVALID_HANDLE_VALUE"
    and "v_mem env (world s1) 0"
  shows "\<exists>s2. do_handles env h ops s1 = Some (spec_handles c ops 0, s2)"
proof -
  let ?m = "mp_efile_init_metadata (v_img env) slot zero_efile"
  note g = create_file_gives [OF assms(1,7,8)]
  have v: "virtual_handle s1 h = Some (brk s)"
    using handle_register_get(2) [OF assms(4,6,8,5) g(1)] by simp
  have st: "stands_for env slot c 0 ?m"
    using assms(2,3) size_content [OF assms(3)] by (simp add: stands_for_def metadata_only_def mp_efile_init_metadata_def zero_efile_def)
  have "heap s1 (brk s) = Some ?m" using g(2) by simp
  from handles_refine [OF st v this assms(9)] show ?thesis .
qed

end
