(* ===== verification/Win_Maps.thy ===== *)
theory Win_Maps
  imports Win_View Vfile_Spec
begin

text \<open>
  File mappings and their views (Embedded/mp_embed.c: \<^verbatim>\<open>mp_CreateFileMappingW\<close> to \<^verbatim>\<open>mp_UnmapViewOfFile\<close>): a
  mapping lives exactly as long as its handle or a view of it.
\<close>

subsection \<open>The table of views\<close>

text \<open>Two views of one mapping may have the same address, so a slot is not found by its key alone.\<close>

lemma first_slot_split:
  "first_slot P t = Some i \<Longrightarrow> t = take i t @ t ! i # drop (Suc i) t \<and> P (t ! i) \<and> (\<forall>x \<in> set (take i t). \<not> P x)"
proof -
  assume a: "first_slot P t = Some i"
  note lt = first_slot_lt [OF a]
  have "\<not> P x" if x: "x \<in> set (take i t)" for x
  proof -
    from x obtain j where "j < i" "x = t ! j" by (auto simp: in_set_conv_nth)
    with first_slot_SomeD [OF a] show ?thesis by blast
  qed
  with first_slot_prop [OF a] id_take_nth_drop [OF lt] show ?thesis by blast
qed

lemma claim_split:
  assumes "claim P y t = Some t'"
  obtains xs x zs where "t = xs @ x # zs" "P x" "\<forall>z \<in> set xs. \<not> P z" "t' = xs @ y # zs"
proof -
  from assms obtain i where i: "first_slot P t = Some i" "t' = t[i := y]" by (auto simp: claim_def)
  with that [of "take i t" "t ! i" "drop (Suc i) t"] first_slot_split [OF i(1)] first_slot_lt [OF i(1)]
  show thesis by (metis upd_conv_take_nth_drop)
qed

lemma release_split:
  assumes "find_slot P t = Some x"
  obtains xs zs where "t = xs @ x # zs" "P x" "\<forall>z \<in> set xs. \<not> P z" "release P s0 t = xs @ s0 # zs"
proof -
  from assms obtain i where i: "first_slot P t = Some i" "x = t ! i" by (auto simp: find_slot_def)
  with that [of "take i t" "drop (Suc i) t"] first_slot_split [OF i(1)] first_slot_lt [OF i(1)]
  show thesis by (metis option.simps(5) release_def upd_conv_take_nth_drop)
qed

definition views_of :: "nat \<Rightarrow> ptr_slot list \<Rightarrow> nat" where
  "views_of q t = length (filter (\<lambda>x. snd x = Some q) t)"

subsection \<open>The invariant\<close>

definition in_data :: "nat \<Rightarrow> vmapping \<Rightarrow> bool" where
  "in_data v vm \<longleftrightarrow> vm_base vm \<le> v \<and> v < vm_base vm + length (vm_data vm)"

abbreviation handle_of_mapping :: "'w wfs \<Rightarrow> nat \<Rightarrow> nat option" where
  "handle_of_mapping s \<equiv> slots_get fst snd (mapping2file s)"

text \<open>What an allocated VMAPPING at address \<open>q\<close> promises.\<close>

definition mapping_ok :: "'w wfs \<Rightarrow> nat \<Rightarrow> vmapping \<Rightarrow> bool" where
  "mapping_ok s q vm \<longleftrightarrow> 0 < q \<and> q < vm_base vm \<and> vm_base vm + length (vm_data vm) < brk s
     \<and> vm_views vm = views_of q (view2file s)
     \<and> (vm_closed vm \<longleftrightarrow> handle_of_mapping s q = None) \<and> (vm_closed vm \<longrightarrow> 0 < vm_views vm)"

definition maps_ok :: "'w wfs \<Rightarrow> bool" where
  "maps_ok s \<longleftrightarrow> slots_ok fst snd (mapping2file s) \<and> 0 < brk s
     \<and> (\<forall>m. (0, m) \<in> set (mapping2file s) \<longrightarrow> m = None)
     \<and> (\<forall>m q. handle_of_mapping s m = Some q \<longrightarrow> q = m \<and> mappings s m \<noteq> None)
     \<and> (\<forall>v m. (v, m) \<in> set (view2file s) \<longrightarrow>
          (if v = 0 then m = None else \<exists>q vm. m = Some q \<and> mappings s q = Some vm \<and> in_data v vm))
     \<and> (\<forall>q vm. mappings s q = Some vm \<longrightarrow> mapping_ok s q vm)
     \<and> (\<forall>q q' vm vm'. mappings s q = Some vm \<longrightarrow> mappings s q' = Some vm' \<longrightarrow> q < q' \<longrightarrow>
          vm_base vm + length (vm_data vm) < q')"

lemma maps_ok_same:
  assumes "maps_ok s" "mappings s' = mappings s" "mapping2file s' = mapping2file s" "view2file s' = view2file s"
    and "brk s \<le> brk s'"
  shows "maps_ok s'"
proof -
  have "mapping_ok s' q vm" if "mapping_ok s q vm" for q vm
    using that assms(2-5) by (auto simp: mapping_ok_def)
  moreover have "0 < brk s'" using assms by (simp add: maps_ok_def)
  ultimately show ?thesis using assms(1) unfolding maps_ok_def assms(2-4) by blast
qed

lemma maps_ok_error [simp]: "maps_ok (s\<lparr>last_error := x\<rparr>) = maps_ok s" "maps_ok (s\<lparr>errno := x\<rparr>) = maps_ok s"
  "maps_ok (s\<lparr>world := w\<rparr>) = maps_ok s"
  by (simp_all add: maps_ok_def mapping_ok_def)

lemma wsysi_maps: "wsysi env name args s = (v, s') \<Longrightarrow> maps_ok s \<Longrightarrow> maps_ok s'"
  by (auto simp: wsysi_def wsys_def split: prod.splits)

text \<open>An address belongs to one mapping only.\<close>

lemma one_mapping:
  assumes "maps_ok s" "mappings s q = Some vm" "mappings s q' = Some vm'" "in_data v vm" "in_data v vm'"
  shows "q = q'"
proof -
  have sep: "vm_base vm + length (vm_data vm) < q' \<or> vm_base vm' + length (vm_data vm') < q" if "q \<noteq> q'"
    using assms(1-3) that unfolding maps_ok_def by (metis nat_neq_iff)
  have "q < vm_base vm" "q' < vm_base vm'" using assms(1-3) by (auto simp: maps_ok_def mapping_ok_def)
  with sep assms(4,5) show ?thesis unfolding in_data_def by linarith
qed

lemma scan_get: "m \<noteq> 0 \<Longrightarrow> ptr_scan m t = slots_get fst snd t m"
  by (simp add: ptr_scan_def slots_get_def)

lemma scan_zero:
  assumes "maps_ok s"
  shows "ptr_scan 0 (view2file s) = None"
proof (cases "find_slot (\<lambda>x. fst x = 0) (view2file s)")
  case (Some x)
  with find_slot_SomeD [OF Some] assms show ?thesis by (cases x) (auto simp: ptr_scan_def maps_ok_def split: if_splits)
qed (simp add: ptr_scan_def)

lemma maps_okD:
  assumes "maps_ok s"
  shows "slots_ok fst snd (mapping2file s)" "0 < brk s"
    and "handle_of_mapping s m = Some q \<Longrightarrow> q = m \<and> (\<exists>vm. mappings s m = Some vm)"
    and "mappings s q = Some vm \<Longrightarrow> mapping_ok s q vm"
    and "(v, om) \<in> set (view2file s) \<Longrightarrow> v \<noteq> 0 \<Longrightarrow> \<exists>q vm. om = Some q \<and> mappings s q = Some vm \<and> in_data v vm"
    and "(0, om) \<in> set (view2file s) \<Longrightarrow> om = None"
    and "mappings s q = Some vm \<Longrightarrow> mappings s q' = Some vm' \<Longrightarrow> q < q' \<Longrightarrow> vm_base vm + length (vm_data vm) < q'"
    and "(0, om) \<in> set (mapping2file s) \<Longrightarrow> om = None"
  using assms unfolding maps_ok_def by (blast, blast, blast, blast, metis, metis, blast, blast)

lemma fresh_mapping:
  assumes "maps_ok s"
  shows "mappings s (brk s) = None" "handle_of_mapping s (brk s) = None" "views_of (brk s) (view2file s) = 0"
proof -
  show none: "mappings s (brk s) = None"
  proof (rule ccontr)
    assume "mappings s (brk s) \<noteq> None"
    then obtain vm where "mappings s (brk s) = Some vm" by blast
    from maps_okD(4) [OF assms this] show False by (auto simp: mapping_ok_def)
  qed
  show "handle_of_mapping s (brk s) = None"
    using maps_okD(3) [OF assms, of "brk s"] none by (cases "handle_of_mapping s (brk s)") auto
  have "snd x \<noteq> Some (brk s)" if "x \<in> set (view2file s)" for x
    using maps_okD(5,6) [OF assms] that none by (cases x) (metis option.distinct(1) option.inject snd_conv)
  then show "views_of (brk s) (view2file s) = 0" by (simp add: views_of_def filter_empty_conv)
qed

subsection \<open>The operations\<close>

lemma new_mapping_ok:
  assumes "maps_ok s" "new_mapping data s = (m, s1)" "ptr_claim m (mapping2file s1) = Some t"
  shows "maps_ok (s1\<lparr>mapping2file := t\<rparr>)" "m = brk s" "slots_get fst snd t = (handle_of_mapping s)(m \<mapsto> m)"
proof -
  let ?vm = "\<lparr> vm_data = data, vm_base = brk s + 1, vm_views = 0, vm_closed = False \<rparr>"
  from assms(2) have s1: "m = brk s" "s1 = s\<lparr>mappings := (mappings s)(brk s \<mapsto> ?vm), brk := brk s + length data + 2\<rparr>"
    by (auto simp: new_mapping_def)
  note fresh = fresh_mapping [OF assms(1)]
  have c: "claim (\<lambda>x. fst x = 0) (m, Some m) (mapping2file s) = Some t"
    using assms(3) s1 by (simp add: ptr_claim_def)
  have m: "m \<noteq> 0" "handle_of_mapping s m = None" using maps_okD(2) [OF assms(1)] s1 fresh by simp_all
  note ok = maps_okD(1) [OF assms(1)]
  show g: "slots_get fst snd t = (handle_of_mapping s)(m \<mapsto> m)" by (rule ptrreg.put_get [OF ok m c])
  have t: "slots_ok fst snd t" by (rule ptrreg.put_ok [OF ok m c])
  have free: "om = None" if "(0, om) \<in> set t" for om
    using that set_claim [OF c] m(1) maps_okD(8) [OF assms(1)] by auto
  show "m = brk s" by (rule s1(1))
  show "maps_ok (s1\<lparr>mapping2file := t\<rparr>)"
    unfolding maps_ok_def
  proof (intro conjI allI impI)
    fix q vm assume a: "mappings (s1\<lparr>mapping2file := t\<rparr>) q = Some vm"
    show "mapping_ok (s1\<lparr>mapping2file := t\<rparr>) q vm"
    proof (cases "q = brk s")
      case True
      with a s1 g maps_okD(2) [OF assms(1)] fresh(3) show ?thesis by (auto simp: mapping_ok_def)
    next
      case False
      with a s1 g maps_okD(4) [OF assms(1), of q vm] show ?thesis by (auto simp: mapping_ok_def)
    qed
  next
    fix q q' vm vm'
    assume a: "mappings (s1\<lparr>mapping2file := t\<rparr>) q = Some vm" "mappings (s1\<lparr>mapping2file := t\<rparr>) q' = Some vm'" "q < q'"
    have "vm_base x + length (vm_data x) < brk s" "k < brk s" if "mappings s k = Some x" for k x
      using maps_okD(4) [OF assms(1) that] by (simp_all add: mapping_ok_def)
    with a s1 maps_okD(7) [OF assms(1)] show "vm_base vm + length (vm_data vm) < q'"
      by (auto split: if_splits dest: less_asym)
  next
    fix v om
    assume "(v, om) \<in> set (view2file (s1\<lparr>mapping2file := t\<rparr>))"
    then have v: "(v, om) \<in> set (view2file s)" using s1 by simp
    show "if v = 0 then om = None
        else \<exists>q vm. om = Some q \<and> mappings (s1\<lparr>mapping2file := t\<rparr>) q = Some vm \<and> in_data v vm"
    proof (cases "v = 0")
      case True
      with maps_okD(6) [OF assms(1)] v show ?thesis by simp
    next
      case False
      from maps_okD(5) [OF assms(1) v False] obtain q vm where
        q: "om = Some q" "mappings s q = Some vm" "in_data v vm" by blast
      then have "q \<noteq> brk s" using fresh(1) by auto
      with q False s1 show ?thesis by simp
    qed
  qed (use t g s1 free maps_okD(2,3) [OF assms(1)] in \<open>auto split: if_splits\<close>)
qed

lemma create_mapping_ok:
  assumes "maps_ok s" "mp_CreateFileMappingW env h protect max_size name s = Some (m, s')"
  shows "maps_ok s'"
proof (cases "scanned_handle s h")
  case None
  with assms show ?thesis
    by (auto simp: mp_CreateFileMappingW_def split: prod.splits dest: wsysi_maps)
next
  case (Some p)
  with assms(2) obtain e where e: "heap s p = Some e" by (auto simp: mp_CreateFileMappingW_def bind_eq_Some_conv)
  define m1 where "m1 data = fst (new_mapping data s)" for data
  define s1 where "s1 data = snd (new_mapping data s)" for data
  have n: "new_mapping data s = (m1 data, s1 data)" for data by (simp add: m1_def s1_def)
  have drop: "maps_ok ((s1 data)\<lparr>mappings := (mappings (s1 data))(m1 data := None)\<rparr>)" for data
    by (rule maps_ok_same [OF assms(1)])
      (use fresh_mapping(1) [OF assms(1)] in \<open>simp_all add: m1_def s1_def new_mapping_def fun_upd_idem\<close>)
  with Some e assms new_mapping_ok(1) [OF assms(1) n] show ?thesis
    by (auto simp: mp_CreateFileMappingW_def wfail_def n split: if_splits sum.splits option.splits)
qed

text \<open>Changing or freeing one mapping, with the slots that refer to it.\<close>

lemma maps_ok_change:
  assumes "maps_ok s" "mappings s q = Some vm" "brk s' = brk s" "mappings s' = (mappings s)(q := new)"
    and new: "\<And>vm'. new = Some vm' \<Longrightarrow> vm_base vm' = vm_base vm \<and> vm_data vm' = vm_data vm \<and> mapping_ok s' q vm'"
    and handles: "slots_ok fst snd (mapping2file s')" "\<And>om. (0, om) \<in> set (mapping2file s') \<Longrightarrow> om = None" "\<And>m. m \<noteq> q \<Longrightarrow> handle_of_mapping s' m = handle_of_mapping s m"
      "handle_of_mapping s' q = None \<or> new \<noteq> None \<and> handle_of_mapping s' q = Some q"
    and views: "\<And>k. k \<noteq> q \<Longrightarrow> views_of k (view2file s') = views_of k (view2file s)"
      "\<And>v om. (v, om) \<in> set (view2file s') \<Longrightarrow> (v, om) = (0, None) \<or> v \<noteq> 0 \<and> om = Some q \<and> in_data v vm \<and> new \<noteq> None
         \<or> (v, om) \<in> set (view2file s) \<and> (new = None \<longrightarrow> om \<noteq> Some q)"
  shows "maps_ok s'"
  unfolding maps_ok_def
proof (intro conjI allI impI)
  fix k vm' assume a: "mappings s' k = Some vm'"
  show "mapping_ok s' k vm'"
  proof (cases "k = q")
    case True
    with a new assms(4) show ?thesis by simp
  next
    case False
    with a assms(4) maps_okD(4) [OF assms(1), of k vm'] handles(3) views(1) show ?thesis
      by (auto simp: mapping_ok_def assms(3))
  qed
next
  fix k k' vm1 vm2
  assume a: "mappings s' k = Some vm1" "mappings s' k' = Some vm2" "k < k'"
  have same: "\<exists>x. mappings s j = Some x \<and> vm_base x = vm_base y \<and> vm_data x = vm_data y"
    if "mappings s' j = Some y" for j y using that assms(2,4) new by (auto split: if_splits)
  from same [OF a(1)] same [OF a(2)] maps_okD(7) [OF assms(1) _ _ a(3)]
  show "vm_base vm1 + length (vm_data vm1) < k'" by metis
next
  fix v om
  assume "(v, om) \<in> set (view2file s')"
  from views(2) [OF this] consider "v = 0" "om = None" | "v \<noteq> 0" "om = Some q" "in_data v vm" "new \<noteq> None"
    | "(v, om) \<in> set (view2file s)" "new = None \<Longrightarrow> om \<noteq> Some q" by blast
  then show "if v = 0 then om = None else \<exists>q vm. om = Some q \<and> mappings s' q = Some vm \<and> in_data v vm"
  proof cases
    case 2
    with new assms(4) show ?thesis by (auto simp: in_data_def)
  next
    case 3
    show ?thesis
    proof (cases "v = 0")
      case False
      from maps_okD(5) [OF assms(1) 3(1) False] obtain k vm' where
        k: "om = Some k" "mappings s k = Some vm'" "in_data v vm'" by blast
      show ?thesis
      proof (cases "k = q")
        case True
        with 3(2) k(1) obtain vm1 where n: "new = Some vm1" by auto
        from k(2) True assms(2) have "vm' = vm" by simp
        with k(3) new [OF n] have "in_data v vm1" by (simp add: in_data_def)
        with False k(1) True n assms(4) show ?thesis by simp
      next
        case other: False
        with False k assms(4) show ?thesis by simp
      qed
    qed (use maps_okD(6) [OF assms(1)] 3(1) in simp)
  qed simp
next
  fix m q'
  assume h: "handle_of_mapping s' m = Some q'"
  have "q' = m \<and> mappings s' m \<noteq> None"
  proof (cases "m = q")
    case True
    with h handles(4) have "q' = q" "new \<noteq> None" by simp_all
    with True assms(4) show ?thesis by simp
  next
    case False
    with h handles(3) maps_okD(3) [OF assms(1), of m q'] assms(4) show ?thesis by auto
  qed
  then show "q' = m" "mappings s' m \<noteq> None" by simp_all
qed (use handles(1,2) maps_okD(2) [OF assms(1)] assms(3) in simp_all)

lemma map_view_ok:
  assumes "maps_ok s" "mp_MapViewOfFile env h access offset len s = Some (v, s')"
  shows "maps_ok s' \<and> (\<forall>m. ptr_scan h (mapping2file s) = Some m \<longrightarrow> v \<noteq> 0 \<longrightarrow> (\<exists>vm. mappings s m = Some vm
       \<and> v = vm_base vm + offset \<and> in_data v vm \<and> mapping2file s' = mapping2file s
       \<and> mappings s' = (mappings s)(m \<mapsto> vm\<lparr>vm_views := vm_views vm + 1\<rparr>)
       \<and> view_claim v m (view2file s) = Some (view2file s')))"
proof (cases "ptr_scan h (mapping2file s)")
  case None
  with assms show ?thesis by (auto simp: mp_MapViewOfFile_def split: prod.splits dest: wsysi_maps)
next
  case (Some m)
  with assms(2) obtain vm where vm: "mappings s m = Some vm" by (auto simp: mp_MapViewOfFile_def bind_eq_Some_conv)
  let ?v = "vm_base vm + offset"
  show ?thesis
  proof (cases "has_flag access FILE_MAP_WRITE \<or> offset \<ge> length (vm_data vm)
      \<or> view_claim ?v m (view2file s) = None")
    case True
    with assms Some vm show ?thesis by (auto simp: mp_MapViewOfFile_def wfail_def split: if_splits)
  next
    case False
    then obtain t where t: "view_claim ?v m (view2file s) = Some t" by auto
    from False t assms(2) Some vm have s': "v = ?v"
      "s' = s\<lparr>view2file := t, mappings := (mappings s)(m \<mapsto> vm\<lparr>vm_views := vm_views vm + 1\<rparr>)\<rparr>"
      by (auto simp: mp_MapViewOfFile_def wfail_def)
    from t obtain xs x zs where sp: "view2file s = xs @ x # zs" "fst x = 0" "t = xs @ (?v, Some m) # zs"
      unfolding view_claim_def by (rule claim_split) blast
    have x: "snd x = None" using maps_okD(6) [OF assms(1), of "snd x"] sp(1,2) by (cases x) simp
    have cnt: "views_of q t = views_of q (view2file s) + (if q = m then 1 else 0)" for q
      using x by (simp add: views_of_def sp)
    note mok = maps_okD(4) [OF assms(1) vm]
    have new: "?v \<noteq> 0" "in_data ?v vm" using mok False by (auto simp: mapping_ok_def in_data_def)
    have "maps_ok s'"
    proof (rule maps_ok_change [OF assms(1) vm])
      show "handle_of_mapping s' m = None \<or> Some (vm\<lparr>vm_views := vm_views vm + 1\<rparr>) \<noteq> None \<and> handle_of_mapping s' m = Some m"
        using maps_okD(3) [OF assms(1), of m] s' by (cases "handle_of_mapping s m") auto
    qed (use s' sp cnt mok new maps_okD(1,8) [OF assms(1)] in \<open>auto simp: mapping_ok_def\<close>)
    with Some vm new s' t show ?thesis by auto
  qed
qed

text \<open>The view found at an address, and what unmapping it does.\<close>

lemma unmap_view_ok:
  assumes "maps_ok s" "v \<noteq> 0"
  shows "\<exists>r s'. mp_UnmapViewOfFile env v s = Some (r, s') \<and> maps_ok s' \<and> mapping2file s' = mapping2file s
     \<and> (\<forall>q vm. ptr_scan v (view2file s) = Some q \<longrightarrow> mappings s q = Some vm \<longrightarrow> r = 1
          \<and> mappings s' = (mappings s)(q := (if vm_views vm = 1 \<and> vm_closed vm then None else Some (vm\<lparr>vm_views := vm_views vm - 1\<rparr>)))
          \<and> view2file s' = ptr_release v (view2file s))"
proof (cases "find_slot (\<lambda>x. fst x = v) (view2file s)")
  case None
  obtain r s' where c: "wsysi env ''UnmapViewOfFile'' [harg v] s = (r, s')" by fastforce
  moreover from c have "mapping2file s' = mapping2file s" by (auto simp: wsysi_def wsys_def split: prod.splits)
  ultimately show ?thesis
    using None wsysi_maps [OF c assms(1)] by (simp add: mp_UnmapViewOfFile_def ptr_scan_def)
next
  case (Some x)
  then have "x \<in> set (view2file s)" "fst x = v" using find_slot_SomeD by fast+
  with maps_okD(5) [OF assms(1), of v "snd x"] assms(2) obtain q vm where
    x: "x = (v, Some q)" and vm: "mappings s q = Some vm" and d: "in_data v vm" by (cases x) auto
  from Some obtain xs zs where sp: "view2file s = xs @ x # zs" "ptr_release v (view2file s) = xs @ (0, None) # zs"
    unfolding ptr_release_def by (rule release_split) blast
  note mok = maps_okD(4) [OF assms(1) vm]
  have cnt: "views_of k (view2file s) = views_of k (ptr_release v (view2file s)) + (if k = q then 1 else 0)" for k
    unfolding sp(2) unfolding sp(1) by (simp add: views_of_def x)
  let ?new = "if vm_views vm = 1 \<and> vm_closed vm then None else Some (vm\<lparr>vm_views := vm_views vm - 1\<rparr>)"
  define s' where "s' = s\<lparr>view2file := ptr_release v (view2file s), mappings := (mappings s)(q := ?new)\<rparr>"
  have pos: "0 < vm_views vm" using mok cnt [of q] by (auto simp: mapping_ok_def)
  have none: "om \<noteq> Some q" if "?new = None" "(v1, om) \<in> set (ptr_release v (view2file s))" for v1 om
  proof -
    from that(1) mok cnt [of q] have "views_of q (ptr_release v (view2file s)) = 0"
      by (auto simp: mapping_ok_def split: if_splits)
    with that(2) show ?thesis by (auto simp: views_of_def filter_empty_conv)
  qed
  have "maps_ok s'"
  proof (rule maps_ok_change [OF assms(1) vm])
    show "handle_of_mapping s' q = None \<or> ?new \<noteq> None \<and> handle_of_mapping s' q = Some q"
      using maps_okD(3) [OF assms(1), of q] mok by (cases "handle_of_mapping s q") (auto simp: s'_def mapping_ok_def)
    show "vm_base vm' = vm_base vm \<and> vm_data vm' = vm_data vm \<and> mapping_ok s' q vm'" if "?new = Some vm'" for vm'
      using that mok cnt [of q] pos by (auto simp: mapping_ok_def s'_def split: if_splits)
    fix v1 om
    assume a: "(v1, om) \<in> set (view2file s')"
    then have "(v1, om) \<in> set (ptr_release v (view2file s))" by (simp add: s'_def)
    with none [OF _ this] show "(v1, om) = (0, None) \<or> v1 \<noteq> 0 \<and> om = Some q \<and> in_data v1 vm \<and> ?new \<noteq> None
         \<or> (v1, om) \<in> set (view2file s) \<and> (?new = None \<longrightarrow> om \<noteq> Some q)"
      using sp by auto
  qed (use cnt maps_okD(1,8) [OF assms(1)] in \<open>auto simp: s'_def\<close>)
  moreover have "mp_UnmapViewOfFile env v s = Some (1, s')"
    using Some x vm pos by (auto simp: mp_UnmapViewOfFile_def s'_def Let_def)
  moreover have "ptr_scan v (view2file s) = Some q" using Some x by (simp add: ptr_scan_def)
  ultimately show ?thesis using vm by (simp add: s'_def)
qed

lemma close_mapping_ok:
  assumes "maps_ok s" "handle_of_mapping s h = Some m"
  shows "\<exists>vm s'. mappings s h = Some vm \<and> mp_CloseHandle env h s = Some (1, s') \<and> maps_ok s'
     \<and> s' = s\<lparr>mapping2file := ptr_release h (mapping2file s),
          mappings := (mappings s)(h := (if vm_views vm = 0 then None else Some (vm\<lparr>vm_closed := True\<rparr>)))\<rparr>
     \<and> handle_of_mapping s' = (handle_of_mapping s)(h := None)"
proof -
  from maps_okD(3) [OF assms] obtain vm where vm: "m = h" "mappings s h = Some vm" by blast
  have h: "h \<noteq> 0" using assms(2) by (cases "h = 0") (simp_all add: slots_get_def)
  note mok = maps_okD(4) [OF assms(1) vm(2)]
  note del = ptrreg.del_ok [OF maps_okD(1) [OF assms(1)] h, folded ptr_release_def]
    ptrreg.del_get [OF maps_okD(1) [OF assms(1)] h, folded ptr_release_def]
  let ?new = "if vm_views vm = 0 then None else Some (vm\<lparr>vm_closed := True\<rparr>)"
  define s' where "s' = s\<lparr>mapping2file := ptr_release h (mapping2file s), mappings := (mappings s)(h := ?new)\<rparr>"
  from assms(2) h obtain x where x: "find_slot (\<lambda>x. fst x = h) (mapping2file s) = Some x" "snd x = Some m"
    by (auto simp: slots_get_def bind_eq_Some_conv)
  then have "mp_CloseHandle env h s = Some (1, s')"
    using vm by (cases x) (auto simp: mp_CloseHandle_def s'_def)
  moreover have "maps_ok s'"
  proof (rule maps_ok_change [OF assms(1) vm(2)])
    show "om = None" if "(0, om) \<in> set (mapping2file s')" for om
      using that set_release [of "\<lambda>x. fst x = h" "(0, None)" "mapping2file s"] maps_okD(8) [OF assms(1)]
      by (auto simp: ptr_release_def s'_def)
    show "vm_base vm' = vm_base vm \<and> vm_data vm' = vm_data vm \<and> mapping_ok s' h vm'" if "?new = Some vm'" for vm'
      using that mok del by (auto simp: mapping_ok_def s'_def split: if_splits)
    fix v om
    assume a: "(v, om) \<in> set (view2file s')"
    have "om \<noteq> Some h" if "vm_views vm = 0"
    proof -
      have "views_of h (view2file s) = 0" using mok that by (simp add: mapping_ok_def)
      with a show ?thesis by (auto simp: views_of_def filter_empty_conv s'_def)
    qed
    with a show "(v, om) = (0, None) \<or> v \<noteq> 0 \<and> om = Some h \<and> in_data v vm \<and> ?new \<noteq> None
       \<or> (v, om) \<in> set (view2file s) \<and> (?new = None \<longrightarrow> om \<noteq> Some h)" by (auto simp: s'_def)
  qed (use del in \<open>simp_all add: s'_def\<close>)
  moreover have "handle_of_mapping s' = (handle_of_mapping s)(h := None)" using del by (simp add: s'_def)
  ultimately show ?thesis using vm(2) by (simp add: s'_def)
qed

lemma close_handle_ok:
  assumes "maps_ok s" "mp_CloseHandle env h s = Some (r, s')"
  shows "maps_ok s'"
proof (cases "find_slot (\<lambda>x. fst x = h) (mapping2file s)")
  case None
  obtain e t where u: "mp_handle_unregister h (handles s) = (e, t)" by fastforce
  with None assms(2) obtain s1 where s1: "mp_efile_destroy e (s\<lparr>handles := t\<rparr>) = Some s1"
    "wsysi env ''CloseHandle'' [harg h] s1 = (r, s')" by (auto simp: mp_CloseHandle_def bind_eq_Some_conv)
  from s1(1) have "maps_ok s1"
    by (intro maps_ok_same [OF assms(1)]) (auto simp: mp_efile_destroy_def free_efile_def split: option.splits)
  with wsysi_maps [OF s1(2)] show ?thesis by simp
next
  case (Some x)
  then have x: "x \<in> set (mapping2file s)" "fst x = h" using find_slot_SomeD by fast+
  show ?thesis
  proof (cases "snd x")
    case None
    with Some x assms show ?thesis by (cases x) (auto simp: mp_CloseHandle_def wfail_def)
  next
    case m: (Some m)
    with x have "(h, Some m) \<in> set (mapping2file s)" by (metis prod.collapse)
    with maps_okD(8) [OF assms(1), of "Some m"] have "h \<noteq> 0" by (cases "h = 0") auto
    with Some m have "handle_of_mapping s h = Some m" by (simp add: slots_get_def)
    from close_mapping_ok [OF assms(1) this, of env] assms(2) show ?thesis by auto
  qed
qed

subsection \<open>The properties\<close>

lemma no_maps:
  assumes "mapping2file s = replicate REGISTRY_SLOTS (0, None)" "view2file s = replicate REGISTRY_SLOTS (0, None)"
    and "mappings s = Map.empty" "0 < brk s"
  shows "maps_ok s"
proof -
  have "slots_get fst snd (replicate n (0, None)) = (Map.empty :: nat \<Rightarrow> nat option)" for n
    by (simp add: fun_eq_iff slots_get_def find_slot_def)
  with assms show ?thesis by (auto simp: maps_ok_def slots_ok_def one_per_key_def)
qed

text \<open>
  C37. A mapping is allocated exactly as long as its handle is open or it has a view. Creating a mapping, mapping
  and unmapping a view and closing a handle keep the tables in this agreement, and mapping and unmapping never touch a
  freed mapping.
\<close>

theorem mappings_consistent:
  assumes "maps_ok s"
  shows "(mappings s q \<noteq> None \<longleftrightarrow> handle_of_mapping s q \<noteq> None \<or> Some q \<in> snd ` set (view2file s))
     \<and> (\<forall>h protect max_size name m s'. mp_CreateFileMappingW env h protect max_size name s = Some (m, s') \<longrightarrow> maps_ok s')
     \<and> (\<forall>m access offset len. \<exists>v s'. mp_MapViewOfFile env m access offset len s = Some (v, s') \<and> maps_ok s')
     \<and> (\<forall>v. v \<noteq> 0 \<longrightarrow> (\<exists>r s'. mp_UnmapViewOfFile env v s = Some (r, s') \<and> maps_ok s'))
     \<and> (\<forall>h r s'. mp_CloseHandle env h s = Some (r, s') \<longrightarrow> maps_ok s')"
proof (intro conjI allI impI)
  show "mappings s q \<noteq> None \<longleftrightarrow> handle_of_mapping s q \<noteq> None \<or> Some q \<in> snd ` set (view2file s)"
  proof
    assume "mappings s q \<noteq> None"
    then obtain vm where "mappings s q = Some vm" by blast
    from maps_okD(4) [OF assms this] have "handle_of_mapping s q \<noteq> None \<or> 0 < views_of q (view2file s)"
      unfolding mapping_ok_def by metis
    moreover have "Some q \<in> snd ` set (view2file s)" if "0 < views_of q (view2file s)"
    proof -
      from that have "filter (\<lambda>x. snd x = Some q) (view2file s) \<noteq> []" by (simp add: views_of_def)
      then obtain x where "x \<in> set (view2file s)" "snd x = Some q" unfolding filter_empty_conv by blast
      then show ?thesis by (metis image_eqI)
    qed
    ultimately show "handle_of_mapping s q \<noteq> None \<or> Some q \<in> snd ` set (view2file s)" by blast
  next
    assume "handle_of_mapping s q \<noteq> None \<or> Some q \<in> snd ` set (view2file s)"
    then show "mappings s q \<noteq> None"
    proof
      assume "handle_of_mapping s q \<noteq> None"
      with maps_okD(3) [OF assms] show ?thesis by blast
    next
      assume "Some q \<in> snd ` set (view2file s)"
      then obtain v where "(v, Some q) \<in> set (view2file s)" by auto
      with maps_okD(5,6) [OF assms] show ?thesis by (cases "v = 0") fastforce+
    qed
  qed
  show "maps_ok s'" if "mp_CreateFileMappingW env h protect max_size name s = Some (m, s')" for h protect max_size name m s'
    by (rule create_mapping_ok [OF assms that])
  show "maps_ok s'" if "mp_CloseHandle env h s = Some (r, s')" for h r s'
    by (rule close_handle_ok [OF assms that])
  show "\<exists>r s'. mp_UnmapViewOfFile env v s = Some (r, s') \<and> maps_ok s'" if "v \<noteq> 0" for v
    using unmap_view_ok [OF assms that, of env] by blast
  show "\<exists>v s'. mp_MapViewOfFile env m access offset len s = Some (v, s') \<and> maps_ok s'" for m access offset len
  proof -
    have "mp_MapViewOfFile env m access offset len s \<noteq> None"
    proof (cases "ptr_scan m (mapping2file s)")
      case (Some q)
      then obtain x where "(m, Some q) \<in> set (mapping2file s)"
        by (auto simp: ptr_scan_def bind_eq_Some_conv dest: find_slot_SomeD)
      with maps_okD(8) [OF assms, of "Some q"] have "m \<noteq> 0" by (cases "m = 0") auto
      with Some have "handle_of_mapping s m = Some q" by (simp add: scan_get)
      from maps_okD(3) [OF assms this] obtain vm where "mappings s q = Some vm" by blast
      with Some show ?thesis by (simp add: mp_MapViewOfFile_def wfail_def Let_def split: option.splits)
    qed (simp add: mp_MapViewOfFile_def split: prod.splits)
    then obtain v s' where "mp_MapViewOfFile env m access offset len s = Some (v, s')" by auto
    with map_view_ok [OF assms this] show ?thesis by blast
  qed
qed

text \<open>The address of a view leads to its mapping, also when another view has the same address.\<close>

lemma view_scan:
  assumes "maps_ok s" "(v, Some m) \<in> set (view2file s)" "mappings s m = Some vm" "in_data v vm"
  shows "ptr_scan v (view2file s) = Some m"
proof -
  have v: "v \<noteq> 0" using maps_okD(6) [OF assms(1), of "Some m"] assms(2) by (cases "v = 0") auto
  obtain x where x: "find_slot (\<lambda>x. fst x = v) (view2file s) = Some x"
    using assms(2) find_slot_None [of "\<lambda>x. fst x = v" "view2file s"] by fastforce
  then have "(v, snd x) \<in> set (view2file s)" using find_slot_SomeD [OF x] by (cases x) auto
  from maps_okD(5) [OF assms(1) this v] obtain q vm' where q: "snd x = Some q" "mappings s q = Some vm'" "in_data v vm'"
    by blast
  with one_mapping [OF assms(1,3) q(2) assms(4) q(3)] x show ?thesis by (simp add: ptr_scan_def)
qed

lemma create_mapping_gives:
  assumes "scanned_handle s h = Some p" "heap s p = Some e" "file_content (v_img env) (emap_slot e) = Some c"
    and "mp_CreateFileMappingW env h protect max_size name s = Some (m, s1)" "m \<noteq> 0"
  shows "m = brk s" "ptr_claim m (mapping2file s) = Some (mapping2file s1)" "view2file s1 = view2file s"
    "mappings s1 = (mappings s)(m \<mapsto> \<lparr> vm_data = c, vm_base = m + 1, vm_views = 0, vm_closed = False \<rparr>)"
  using assms decompress_entry_content [of "v_img env" "v_mem env (world s) 1" "emap_slot e" 0]
  by (auto simp: mp_CreateFileMappingW_def new_mapping_def wfail_def split: if_splits option.splits)

text \<open>
  C38. A view of an embedded file shows the file's bytes from the offset asked for, it still does when the handle of
  the mapping is closed, and unmapping it then frees the mapping.
\<close>

theorem view_outlives_handle:
  assumes "maps_ok s" and "scanned_handle s h = Some p" and "heap s p = Some e"
    and "file_content (v_img env) (emap_slot e) = Some c"
    and "mp_CreateFileMappingW env h protect max_size name s = Some (m, s1)" and "m \<noteq> 0"
    and "mp_MapViewOfFile env m access offset len s1 = Some (v, s2)" and "v \<noteq> 0"
  shows "view_bytes v s2 = Some (drop offset c)
     \<and> (\<exists>s3 s4. mp_CloseHandle env m s2 = Some (1, s3) \<and> view_bytes v s3 = Some (drop offset c)
          \<and> mp_UnmapViewOfFile env v s3 = Some (1, s4) \<and> view_bytes v s4 = None
          \<and> mappings s4 = mappings s \<and> handle_of_mapping s4 = handle_of_mapping s)"
proof -
  note g = create_mapping_gives [OF assms(2-6)]
  note fresh = fresh_mapping [OF assms(1), folded g(1)]
  note ok1 = create_mapping_ok [OF assms(1,5)]
  have h1: "handle_of_mapping s1 = (handle_of_mapping s)(m \<mapsto> m)"
    using ptrreg.put_get [OF maps_okD(1) [OF assms(1)] assms(6) fresh(2)] g(2) by (simp add: ptr_claim_def)
  then have "ptr_scan m (mapping2file s1) = Some m" using assms(6) by (simp add: scan_get)
  with map_view_ok [OF ok1 assms(7)] assms(8) g(4) obtain vm where
    vm: "vm = \<lparr> vm_data = c, vm_base = m + 1, vm_views = 0, vm_closed = False \<rparr>"
    and v: "v = m + 1 + offset" "in_data v vm" "mapping2file s2 = mapping2file s1"
      "mappings s2 = (mappings s1)(m \<mapsto> vm\<lparr>vm_views := 1\<rparr>)" "view_claim v m (view2file s1) = Some (view2file s2)"
    and ok2: "maps_ok s2" by auto
  have in2: "(v, Some m) \<in> set (view2file s2)"
    using v(5) unfolding view_claim_def by (rule claim_split) simp
  have m2: "mappings s2 m = Some (vm\<lparr>vm_views := 1\<rparr>)" using v(4) by simp
  have "ptr_scan v (view2file s2) = Some m"
    by (rule view_scan [OF ok2 in2 m2]) (use v(2) in \<open>simp add: in_data_def\<close>)
  then have b2: "view_bytes v s2 = Some (drop offset c)" using m2 v(1) vm by (simp add: view_bytes_def)
  have h2: "handle_of_mapping s2 m = Some m" using h1 v(3) by simp
  from close_mapping_ok [OF ok2 h2, of env] m2 obtain s3 where
    s3: "mp_CloseHandle env m s2 = Some (1, s3)" "maps_ok s3" "view2file s3 = view2file s2"
      "mappings s3 = (mappings s2)(m \<mapsto> vm\<lparr>vm_views := 1, vm_closed := True\<rparr>)"
      "handle_of_mapping s3 = (handle_of_mapping s2)(m := None)" by auto
  have p3: "ptr_scan v (view2file s3) = Some m" using \<open>ptr_scan v (view2file s2) = Some m\<close> s3(3) by simp
  then have b3: "view_bytes v s3 = Some (drop offset c)" using s3(4) v(1) vm by (simp add: view_bytes_def)
  from unmap_view_ok [OF s3(2) assms(8), of env] p3 s3(4) obtain s4 where
    s4: "mp_UnmapViewOfFile env v s3 = Some (1, s4)" "maps_ok s4" "mappings s4 = (mappings s3)(m := None)"
      "mapping2file s4 = mapping2file s3" by auto
  have maps: "mappings s4 = mappings s" using s4(3) s3(4) v(4) g(4) fresh(1) by (simp add: fun_upd_idem)
  have "handle_of_mapping s4 = handle_of_mapping s"
    using s4(4) s3(5) v(3) h1 fresh(2) by (simp add: fun_upd_idem)
  moreover have "view_bytes v s4 = None"
  proof (cases "ptr_scan v (view2file s4)")
    case (Some q)
    then have "(v, Some q) \<in> set (view2file s4)"
      by (auto simp: ptr_scan_def bind_eq_Some_conv dest: find_slot_SomeD)
    with maps_okD(5) [OF s4(2) _ assms(8)] obtain vm' where q: "mappings s4 q = Some vm'" "in_data v vm'" by blast
    then have "q \<noteq> m" "mappings s3 q = Some vm'" using s4(3) by (auto split: if_splits)
    with one_mapping [OF s3(2), of q vm' m "vm\<lparr>vm_views := 1, vm_closed := True\<rparr>" v] q(2) s3(4) v(2)
    show ?thesis by (simp add: in_data_def)
  qed (simp add: view_bytes_def)
  ultimately show ?thesis using b2 b3 s3(1) s4(1) maps by blast
qed

end
