(* ===== verification/Win_Search.thy ===== *)
theory Win_Search
  imports Win_View Blob_Correct
begin

text \<open>
  Searching an embedded directory (Embedded/mp_embed.c: \<^verbatim>\<open>mp_FindFirstFileW\<close> and \<^verbatim>\<open>mp_FindNextFileW\<close>): the
  matches come in the order of the child table, then those on disk.
\<close>

subsection \<open>The matching children\<close>

definition matches :: "'w vfs_env \<Rightarrow> win_api \<Rightarrow> wstr \<Rightarrow> nat \<Rightarrow> bool" where
  "matches env api pattern child \<longleftrightarrow> match_spec api (mp_entry_name_w env api child MAX_PATH) pattern"

text \<open>The matching children from the \<open>i\<close>-th on.\<close>

definition matches_from :: "'w vfs_env \<Rightarrow> win_api \<Rightarrow> wstr \<Rightarrow> nat \<Rightarrow> nat \<Rightarrow> nat list" where
  "matches_from env api pattern dir i = filter (matches env api pattern)
     (map (mp_embed_child_at (v_img env) dir) [i..<children_count (entry_of env dir)])"

lemma next_match_from:
  "case matches_from env api pattern dir i of
     [] \<Rightarrow> fst (next_match env api pattern dir i) = None
   | k # ks \<Rightarrow> fst (next_match env api pattern dir i) = Some k
        \<and> matches_from env api pattern dir (snd (next_match env api pattern dir i)) = ks"
proof (induction env api pattern dir i rule: next_match.induct)
  case (1 env api pattern dir i)
  show ?case
  proof (cases "i \<ge> children_count (entry_of env dir)")
    case True
    then show ?thesis by (simp add: next_match.simps [of env api pattern dir i] matches_from_def)
  next
    case False
    let ?k = "mp_embed_child_at (v_img env) dir i"
    have f: "matches_from env api pattern dir i =
        (if matches env api pattern ?k then [?k] else []) @ matches_from env api pattern dir (i + 1)"
      using False by (simp add: matches_from_def upt_conv_Cons)
    show ?thesis
    proof (cases "matches env api pattern ?k")
      case True
      with False f show ?thesis by (simp add: next_match.simps [of env api pattern dir i] matches_def Let_def)
    next
      case no: False
      have "next_match env api pattern dir i = next_match env api pattern dir (i + 1)"
        using no False by (subst next_match.simps) (simp add: matches_def Let_def)
      moreover have "matches_from env api pattern dir i = matches_from env api pattern dir (i + 1)" using f no by simp
      ultimately show ?thesis using 1 [OF False refl] no by (simp only: matches_def) simp
    qed
  qed
qed

fun find_all :: "'w vfs_env \<Rightarrow> nat \<Rightarrow> nat \<Rightarrow> nat \<Rightarrow> 'w wfs \<Rightarrow> (find_data option list \<times> 'w wfs) option" where
  "find_all env fuel h 0 s = Some ([], s)"
| "find_all env fuel h (Suc n) s = do {
     ((_, f), s) \<leftarrow> mp_FindNextFileW env fuel h s;
     (fs, s) \<leftarrow> find_all env fuel h n s;
     Some (f # fs, s) }"

lemma find_all_matches:
  assumes "\<And>w. v_api env w = api"
  shows "ptr_scan h (findhandles s) = Some h \<Longrightarrow> finds s h = Some data
    \<Longrightarrow> matches_from env api (find_pattern data) (find_dir data) (find_child data) = ks @ ks'
    \<Longrightarrow> \<exists>s' i. find_all env fuel h (length ks) s = Some (map (\<lambda>k. Some (populate_find_data env api k)) ks, s')
       \<and> ptr_scan h (findhandles s') = Some h \<and> finds s' h = Some (data\<lparr>find_child := i\<rparr>)
       \<and> matches_from env api (find_pattern data) (find_dir data) i = ks'"
proof (induction ks arbitrary: s data)
  case Nil
  then show ?case by (intro exI [of _ s] exI [of _ "find_child data"]) simp
next
  case (Cons k ks)
  from next_match_from [of env api "find_pattern data" "find_dir data" "find_child data"] Cons.prems(3) obtain i0 where
    n: "next_match env api (find_pattern data) (find_dir data) (find_child data) = (Some k, i0)"
    "matches_from env api (find_pattern data) (find_dir data) i0 = ks @ ks'"
    by (cases "next_match env api (find_pattern data) (find_dir data) (find_child data)") simp
  let ?s = "s\<lparr>finds := (finds s)(h \<mapsto> data\<lparr>find_child := i0\<rparr>)\<rparr>"
  have step: "mp_FindNextFileW env fuel h s = Some ((1, Some (populate_find_data env api k)), ?s)"
    using Cons.prems(1,2) n(1) by (simp add: mp_FindNextFileW_def mp_find_next_def assms)
  from Cons.IH [of ?s "data\<lparr>find_child := i0\<rparr>"] Cons.prems(1) n(2) obtain s' i where
    "find_all env fuel h (length ks) ?s = Some (map (\<lambda>k. Some (populate_find_data env api k)) ks, s')"
    "ptr_scan h (findhandles s') = Some h" "finds s' h = Some (data\<lparr>find_child := i\<rparr>)"
    "matches_from env api (find_pattern data) (find_dir data) i = ks'" by auto
  with step show ?case by auto
qed

text \<open>What a search on disk adds is never an entry of the embedded directory.\<close>

lemma next_real_not_shadowed:
  "next_real env fuel data s = Some ((Some f, data'), s') \<Longrightarrow>
   \<exists>found w. f = Real_Found found \<and> (\<forall>name. to_utf8 (v_api env w) found (MAX_PATH * 4) = Some name
     \<longrightarrow> \<not> mp_shadowed (v_img env) (find_dir data) name)"
proof (induction fuel arbitrary: data s)
  case (Suc fuel)
  show ?case
  proof (cases "find_ready data")
    case False
    with Suc.prems show ?thesis by simp
  next
    case True
    obtain r bs s1 where c: "wsys env ''FindNextFileW'' [harg (find_real data)] s = ((r, bs), s1)" by (metis prod.collapse)
    let ?found = "wide_of_bytes (find_next_name data)"
    let ?data = "data\<lparr>find_ready := (r \<noteq> 0), find_next_name := (if r \<noteq> 0 then bs else find_next_name data)\<rparr>"
    show ?thesis
    proof (cases "to_utf8 (v_api env (world s1)) ?found (MAX_PATH * 4)")
      case None
      with True c Suc.prems have "f = Real_Found ?found" by (simp add: Let_def)
      with None show ?thesis by (intro exI [of _ ?found] exI [of _ "world s1"]) simp
    next
      case (Some name)
      show ?thesis
      proof (cases "mp_shadowed (v_img env) (find_dir data) name")
        case False
        with Some True c Suc.prems have "f = Real_Found ?found" by (simp add: Let_def)
        with Some False show ?thesis by (intro exI [of _ ?found] exI [of _ "world s1"]) simp
      next
        case shadowed: True
        with Some True c Suc.prems have "next_real env fuel ?data s1 = Some ((Some f, data'), s')" by (simp add: Let_def)
        from Suc.IH [OF this] show ?thesis by simp
      qed
    qed
  qed
qed simp

lemma find_first_gives:
  assumes "mp_FindFirstFileW env fuel (Some p) s = Some ((h, Some f), s1)" "h \<noteq> INVALID_HANDLE_VALUE"
    and "length p < PATH_MAX" and "\<And>w. v_api env w = api"
    and "dir = (case remove_spec api p of None \<Rightarrow> p | Some d \<Rightarrow> d)"
    and "find_virtual_wide env (Some (if dir = [] then [0x2E] else dir)) s = Some slot" "is_dir (entry_of env slot)"
    and "matches_from env api (take (MAX_PATH - 1) (file_name_part api p)) slot 0 = k # ks"
  shows "h = brk s \<and> f = populate_find_data env api k \<and> ptr_claim h (findhandles s) = Some (findhandles s1)
     \<and> (\<exists>data. finds s1 h = Some data \<and> find_dir data = slot \<and> find_pattern data = take (MAX_PATH - 1) (file_name_part api p)
          \<and> matches_from env api (find_pattern data) slot (find_child data) = ks)"
proof -
  let ?pat = "take (MAX_PATH - 1) (file_name_part api p)"
  obtain r bs s2 where c: "wsys env ''FindFirstFileW'' [CWstr (Some p)] s = ((r, bs), s2)" by (metis prod.collapse)
  have same: "brk s2 = brk s" "findhandles s2 = findhandles s" "finds s2 = finds s"
    using c by (auto simp: wsys_def split: prod.splits)
  from next_match_from [of env api ?pat slot 0] assms(8) obtain i where
    n: "next_match env api ?pat slot 0 = (Some k, i)" "matches_from env api ?pat slot i = ks"
    by (cases "next_match env api ?pat slot 0") simp
  define data where "data = \<lparr> find_dir = slot, find_child = i, find_pattern = ?pat, find_real = to_handle r,
    find_ready = (to_handle r \<noteq> INVALID_HANDLE_VALUE), find_next_name = bs \<rparr>"
  define dir1 where "dir1 = (if dir = [] then [0x2E :: 16 word] else dir)"
  note v = assms(6) [folded dir1_def]
  have first: "mp_FindFirstFileW env fuel (Some p) s =
      (if \<not> v_mem env (world s) 0 then wfail ERROR_NOT_ENOUGH_MEMORY (INVALID_HANDLE_VALUE, None) s
       else do {
         ((f, data), s) \<leftarrow> mp_find_next env fuel (data\<lparr>find_child := 0\<rparr>) s2;
         case f of
           None \<Rightarrow> wfail ERROR_FILE_NOT_FOUND (INVALID_HANDLE_VALUE, None) (mp_find_free env data s)
         | Some f \<Rightarrow>
             let h = brk s; s = s\<lparr>brk := h + 1\<rparr> in
             (case ptr_claim h (findhandles s) of
                Some t \<Rightarrow> Some ((h, Some f), s\<lparr>findhandles := t, finds := (finds s)(h \<mapsto> data)\<rparr>)
              | None \<Rightarrow> wfail ERROR_TOO_MANY_OPEN_FILES (INVALID_HANDLE_VALUE, None) (mp_find_free env data s)) })"
    unfolding mp_FindFirstFileW_def Let_def option.case assms(4) assms(5) [symmetric] dir1_def [symmetric] v
    using assms(3,7) c by (simp add: data_def)
  have mem: "v_mem env (world s) 0"
  proof (rule ccontr)
    assume "\<not> v_mem env (world s) 0"
    with assms(1) first show False by (simp add: wfail_def)
  qed
  have eq: "mp_FindFirstFileW env fuel (Some p) s = (case ptr_claim (brk s) (findhandles s) of
       Some t \<Rightarrow> Some ((brk s, Some (populate_find_data env api k)),
         s2\<lparr>brk := brk s + 1, findhandles := t, finds := (finds s)(brk s \<mapsto> data)\<rparr>)
     | None \<Rightarrow> wfail ERROR_TOO_MANY_OPEN_FILES (INVALID_HANDLE_VALUE, None) (mp_find_free env data (s2\<lparr>brk := brk s + 1\<rparr>)))"
    unfolding first using mem n(1) same
    by (simp add: mp_find_next_def assms(4) data_def Let_def cong: option.case_cong)
  show ?thesis
  proof (cases "ptr_claim (brk s) (findhandles s)")
    case None
    with eq assms(1,2) show ?thesis by (simp add: wfail_def)
  next
    case (Some t)
    with eq assms(1) have "h = brk s" "f = populate_find_data env api k"
      "s1 = s2\<lparr>brk := brk s + 1, findhandles := t, finds := (finds s)(brk s \<mapsto> data)\<rparr>" by simp_all
    with Some n(2) show ?thesis by (simp add: data_def)
  qed
qed


end
