(* ===== verification/Win_Demo.thy ===== *)
theory Win_Demo
  imports Win_Props Win_Maps Win_Search
begin

text \<open>
  The properties of the Win32 calls on the example image, the example API of the path theory and a system on which
  everything succeeds but searches on disk.
\<close>

subsection \<open>A handle opened\<close>

text \<open>The example API with paths of two components below the drive split before the last.\<close>

definition search_api :: win_api where
  "search_api = example_api\<lparr>remove_spec := (\<lambda>p. Some (take 10 p)), file_name_part := drop 11\<rparr>"

definition win_env :: "unit vfs_env" where
  "win_env = \<lparr> v_img = example_image, v_win = True, v_xp = example_xp, v_wxp = example_win_xp,
     v_cwd = \<lambda>w. None, v_api = \<lambda>w. search_api, v_mem = \<lambda>w k. True, v_entries_addr = 0,
     v_sys = \<lambda>name args w. (\<lparr> rval = (if name = ''CreateFileW'' then 100 else if name = ''FindFirstFileW'' then - 1 else 1),
       rerr = None, rout = [] \<rparr>, w) \<rparr>"

definition win_start :: "unit wfs" where
  "win_start = vfs.extend \<lparr> world = (), errno = 0, heap = Map.empty, brk = 1, fds = fd2file_initial,
       handles = replicate REGISTRY_SLOTS (0, None, False) \<rparr>
     \<lparr> last_error = 0, mappings = Map.empty, mapping2file = replicate REGISTRY_SLOTS (0, None),
       view2file = replicate REGISTRY_SLOTS (0, None), finds = Map.empty,
       findhandles = replicate REGISTRY_SLOTS (0, None) \<rparr>"

definition win_path :: wstr where
  "win_path = wide (''C:'' @ [BSLASH] @ ''App'' @ [BSLASH] @ ''lib'' @ [BSLASH] @ ''a'')"

lemma win_simps [simp]: "v_img win_env = example_image" "v_win win_env" "v_mem win_env w k"
  "v_api win_env w = search_api" "v_wxp win_env = example_win_xp"
  "v_sys win_env name args w = (\<lparr> rval = (if name = ''CreateFileW'' then 100 else if name = ''FindFirstFileW'' then - 1 else 1),
     rerr = None, rout = [] \<rparr>, w)"
  by (simp_all add: win_env_def)

lemma win_start_simps [simp]: "heap win_start = Map.empty" "brk win_start = 1" "world win_start = ()"
  "handles win_start = replicate REGISTRY_SLOTS (0, None, False)" "mappings win_start = Map.empty"
  "mapping2file win_start = replicate REGISTRY_SLOTS (0, None)" "view2file win_start = replicate REGISTRY_SLOTS (0, None)"
  "findhandles win_start = replicate REGISTRY_SLOTS (0, None)" "finds win_start = Map.empty"
  by (simp_all add: win_start_def vfs.defs)

lemma win_file: "is_file (entry_of win_env 1)" "file_content (v_img win_env) 1 = Some [7]"
  by (simp_all add: ex_emap_of is_file_def ex_content)

lemma win_found: "find_virtual_wide win_env (Some win_path) s = Some 1"
proof -
  have "mp_win_virtual_path search_api example_win_xp (Some win_path) = Some ''~/lib/a''" by code_simp
  with ex_find show ?thesis by (simp add: find_virtual_wide_def mp_find_virtual_w_def)
qed

lemma win_tables: "handles_ok (handles win_start)" "virtual_handle win_start 100 = None" "maps_ok win_start"
proof -
  show "handles_ok (handles win_start)" by (simp add: slots_ok_def one_per_key_def)
  show "virtual_handle win_start 100 = None" by (simp add: mp_handle_lookup_def handle_scan_def find_slot_replicate)
  show "maps_ok win_start" by (rule no_maps) simp_all
qed

text \<open>The state with the file open as handle 100.\<close>

definition open_state :: "unit wfs" where
  "open_state = win_start\<lparr>heap := [1 \<mapsto> mp_efile_init_metadata example_image 1 zero_efile], brk := 2,
     handles := (100, Some 1, False) # replicate (REGISTRY_SLOTS - 1) (0, None, False)\<rparr>"

lemma win_opened: "mp_CreateFileW win_env (Some win_path) 0x80000000 OPEN_EXISTING 0 win_start = Some (100, open_state)"
proof -
  have "\<not> has_flag 0x80000000 (GENERIC_WRITE OR FILE_WRITE_DATA OR FILE_APPEND_DATA)"
    by (simp add: has_flag_def GENERIC_WRITE_def FILE_WRITE_DATA_def FILE_APPEND_DATA_def)
  moreover have "to_handle 100 = 100" "(100 :: nat) \<noteq> INVALID_HANDLE_VALUE"
    by (simp_all add: to_handle_def INVALID_HANDLE_VALUE_def)
  ultimately show ?thesis
    using win_file
    by (simp add: mp_CreateFileW_def win_found new_efile_def wsysi_def wsys_def mp_handle_register_def
        claim_replicate REGISTRY_SLOTS_def open_state_def)
qed

lemma open_facts: "scanned_handle open_state 100 = Some 1" "maps_ok open_state"
  "heap open_state 1 = Some (mp_efile_init_metadata example_image 1 zero_efile)"
proof -
  show "scanned_handle open_state 100 = Some 1" by (simp add: open_state_def handle_scan_def find_slot_def)
  show "maps_ok open_state" by (rule no_maps) (simp_all add: open_state_def)
  show "heap open_state 1 = Some (mp_efile_init_metadata example_image 1 zero_efile)" by (simp add: open_state_def)
qed

subsection \<open>The properties applied\<close>

text \<open>The file is read from the end of the position, moved, and read at an offset past its end.\<close>

theorem win_handle_refines_witness:
  "\<exists>s2. do_handles win_env 100 [Read_file 5, Read_file 5, Set_pointer 0 0, Read_at 1 0 4, Set_pointer (- 1) 2, Read_file 2]
       open_state = Some ([Bytes [7], Bytes [], Moved 0, End_of_file, Moved 0, Bytes [7]], s2)"
proof -
  have w: "wrap64 0 = 0" "overlapped_at 1 0 = 1" by (simp_all add: wrap64_def overlapped_at_def)
  show ?thesis
    using win_handle_refines [OF win_found win_file win_tables(1,2) _ win_opened,
        of "[Read_file 5, Read_file 5, Set_pointer 0 0, Read_at 1 0 4, Set_pointer (- 1) 2, Read_file 2]"]
    by (simp add: INVALID_HANDLE_VALUE_def move_target_def w)
qed

text \<open>The state with a mapping of it, and with a view.\<close>

definition map_state :: "unit wfs" where
  "map_state = open_state\<lparr>mappings := [2 \<mapsto> \<lparr> vm_data = [7], vm_base = 3, vm_views = 0, vm_closed = False \<rparr>], brk := 5,
     mapping2file := (2, Some 2) # replicate (REGISTRY_SLOTS - 1) (0, None)\<rparr>"

definition view_state :: "unit wfs" where
  "view_state = map_state\<lparr>view2file := (3, Some 2) # replicate (REGISTRY_SLOTS - 1) (0, None),
     mappings := [2 \<mapsto> \<lparr> vm_data = [7], vm_base = 3, vm_views = 1, vm_closed = False \<rparr>]\<rparr>"

lemma win_mapped: "mp_CreateFileMappingW win_env 100 2 0 None open_state = Some (2, map_state)"
proof -
  have d: "mp_decompress_entry example_image True (Suc 0) 0 = Inr ([7], 1)"
    using decompress_entry_content [of example_image True "Suc 0" 0] by (simp add: ex_content)
  have "mp_uncompressed_size example_image (Suc 0) = 1" using size_content [OF ex_content] by simp
  with d open_facts(1,3) show ?thesis
    by (simp add: mp_CreateFileMappingW_def has_flag_def mp_efile_init_metadata_def zero_efile_def new_mapping_def
        ptr_claim_def open_state_def claim_replicate REGISTRY_SLOTS_def map_state_def)
qed

lemma map_facts: "maps_ok map_state" "ptr_scan 2 (mapping2file map_state) = Some 2" "mappings map_state 2 \<noteq> None"
  "scanned_handle map_state 100 = Some 1" "heap map_state 1 \<noteq> None"
  using create_mapping_ok [OF open_facts(2) win_mapped] open_facts
  by (simp_all add: map_state_def ptr_scan_def find_slot_def)

lemma win_viewed: "mp_MapViewOfFile win_env 2 4 0 1 map_state = Some (3, view_state)"
proof -
  have "view_claim 3 2 (view2file map_state) = Some ((3, Some 2) # replicate (REGISTRY_SLOTS - 1) (0, None))"
    by (simp add: view_claim_def map_state_def open_state_def claim_replicate REGISTRY_SLOTS_def)
  moreover have "mappings map_state = [2 \<mapsto> \<lparr> vm_data = [7], vm_base = 3, vm_views = 0, vm_closed = False \<rparr>]"
    by (simp add: map_state_def)
  ultimately show ?thesis using map_facts(2) by (simp add: mp_MapViewOfFile_def has_flag_def view_state_def)
qed

theorem view_outlives_handle_witness:
  "view_bytes 3 view_state = Some [7]
     \<and> (\<exists>s3 s4. mp_CloseHandle win_env 2 view_state = Some (1, s3) \<and> view_bytes 3 s3 = Some [7]
          \<and> mp_UnmapViewOfFile win_env 3 s3 = Some (1, s4) \<and> mappings s4 = Map.empty)"
proof -
  have "file_content (v_img win_env) (emap_slot (mp_efile_init_metadata example_image 1 zero_efile)) = Some [7]"
    "mappings open_state = Map.empty"
    using ex_content by (simp_all add: mp_efile_init_metadata_def open_state_def)
  with view_outlives_handle [OF open_facts(2,1,3) _ win_mapped _ win_viewed] show ?thesis by auto
qed

theorem mappings_consistent_witness:
  "maps_ok map_state \<and> mappings map_state 2 \<noteq> None
     \<and> (\<exists>r s'. mp_UnmapViewOfFile win_env 3 map_state = Some (r, s') \<and> maps_ok s')"
  using mappings_consistent [OF map_facts(1), of 2 win_env] map_facts(1,3) by simp


text \<open>The pattern \<^verbatim>\<open>C:\App\lib\*\<close> lists the file.\<close>

definition win_pattern :: wstr where
  "win_pattern = wide (''C:'' @ [BSLASH] @ ''App'' @ [BSLASH] @ ''lib'' @ [BSLASH] @ ''*'')"

lemma win_dir_found: "find_virtual_wide win_env (Some (take 10 win_pattern)) s = Some 0"
proof -
  have "mp_win_virtual_path search_api example_win_xp (Some (take 10 win_pattern)) = Some ''~/lib''" by code_simp
  with ex_find show ?thesis by (simp add: find_virtual_wide_def mp_find_virtual_w_def)
qed

lemma win_children: "dir_children example_image 0 = [1]"
  by (simp add: dir_children_def mp_embed_child_at_def embed_ptrs_of_def ex_ptrs ex_emap_of ex_simple ex_map_reads)

lemma win_pattern_parts: "take 10 win_pattern \<noteq> []" "length win_pattern < PATH_MAX"
  "take (MAX_PATH - 1) (file_name_part search_api win_pattern) = wide ''*''" "remove_spec search_api win_pattern = Some (take 10 win_pattern)"
  by code_simp+

lemma win_matches: "filter (matches win_env search_api (wide ''*'')) (dir_children example_image 0) = [1]"
  by (simp add: win_children matches_def search_api_def example_api_def)

lemma win_searched: "\<exists>s1. mp_FindFirstFileW win_env 0 (Some win_pattern) win_start
    = Some ((1, Some (populate_find_data win_env search_api 1)), s1)"
proof -
  from win_matches have m: "matches_from win_env search_api (wide ''*'') 0 0 = [1]"
    by (simp add: matches_from_def dir_children_def)
  from next_match_from [of win_env search_api "wide ''*''" 0 0] m obtain i where
    n: "next_match win_env search_api (wide ''*'') 0 0 = (Some 1, i)"
    by (cases "next_match win_env search_api (wide ''*'') 0 0") simp
  have d: "is_dir (entry_of win_env 0)" by (simp add: ex_emap_of is_dir_def)
  show ?thesis
    unfolding mp_FindFirstFileW_def Let_def option.case win_simps win_pattern_parts(3,4)
    using win_pattern_parts(1,2) d n
    by (simp add: win_dir_found wsys_def mp_find_next_def ptr_claim_def claim_replicate REGISTRY_SLOTS_def
        cong: option.case_cong)
qed


text \<open>
  NULL is a HANDLE a program may hold after a failed call. The scans match it with a free slot: closing a search or
  unmapping a view dereferences the slot's NULL object, and the type of NULL is a disk file.
\<close>

lemma null_handle:
  "mp_FindClose win_env 0 win_start = None" "mp_UnmapViewOfFile win_env 0 win_start = None"
  "mp_GetFileType win_env 0 win_start = Some (FILE_TYPE_DISK, win_start)"
  by (simp_all add: mp_FindClose_def mp_UnmapViewOfFile_def mp_GetFileType_def find_slot_replicate REGISTRY_SLOTS_def)

end
