(* ===== verification/Hamt.thy ===== *)
theory Hamt
  imports Mp_Prelude "HOL-Library.Monad_Syntax"
begin

text \<open>
  The immutable mapping behind context variables: the Hash Array Mapped Trie of src/Python/hamt.c
  (\<^verbatim>\<open>hamt_hash\<close> to \<^verbatim>\<open>_PyHamt_Eq\<close>, the iterator, and the methods of the type). Nodes are values, as the code never
  changes a node once it is returned. Keys and values are object references; what Python code answers for a key
  (\<^verbatim>\<open>__hash__\<close>, \<^verbatim>\<open>__eq__\<close>) is a parameter. Running out of memory and reference counts are left out.

  The outer option is \<open>None\<close> where the C code has no defined behaviour: a shift by the width of the
  type or more, an array read or written out of bounds, \<^verbatim>\<open>Py_UNREACHABLE\<close>.
\<close>

subsection \<open>Keys, hashes and positions\<close>

text \<open>
  \<open>py_hash\<close> is \<^verbatim>\<open>PyObject_Hash\<close>, with -1 for an exception; \<open>py_eq\<close> is \<^verbatim>\<open>PyObject_RichCompareBool\<close> with
  \<^verbatim>\<open>Py_EQ\<close>, with None for an exception. \<open>stray\<close> is the bit that \<open>hamt_bitpos\<close> computes for a shift that C does
  not define; one call of the code is made with such a shift.
\<close>

record 'k keyops =
  py_hash :: "'k \<Rightarrow> u64"
  py_eq :: "'k \<Rightarrow> 'k \<Rightarrow> bool option"
  stray :: "u32 \<Rightarrow> nat \<Rightarrow> u32"

definition hamt_hash :: "'k keyops \<Rightarrow> 'k \<Rightarrow> u32" where
  "hamt_hash K key =
     (let hash = py_hash K key
      in if hash = - 1 then - 1
         else let xored = ucast (hash AND 0xffffffff) XOR ucast (signed_drop_bit 32 hash)
              in if xored = - 1 then - 2 else xored)"

definition hamt_mask :: "u32 \<Rightarrow> nat \<Rightarrow> nat option" where
  "hamt_mask hash shift = (if shift < 32 then Some (unat (drop_bit shift hash AND 0x1f)) else None)"

definition hamt_bitpos :: "u32 \<Rightarrow> nat \<Rightarrow> u32 option" where
  "hamt_bitpos hash shift = map_option (\<lambda>i. push_bit i 1) (hamt_mask hash shift)"

definition popcount32 :: "u32 \<Rightarrow> nat" where
  "popcount32 x = length (filter (bit x) [0..<32])"

definition hamt_bitindex :: "u32 \<Rightarrow> u32 \<Rightarrow> nat" where
  "hamt_bitindex bitmap b = popcount32 (bitmap AND (b - 1))"

subsection \<open>Nodes and results\<close>

text \<open>
  A bitmap node stores two pointers per entry: a key and its value, or NULL and a child node. A collision
  node stores a key and its value per entry.
\<close>

datatype ('k, 'v) node =
    Bitmap_Node (b_bitmap: u32) (b_array: "('k, 'v) slot list")
  | Array_Node (a_array: "('k, 'v) node option list") (a_count: int)
  | Collision_Node (c_hash: u32) (c_array: "('k \<times> 'v) list")
and ('k, 'v) slot = Item 'k 'v | Sub "('k, 'v) node"

definition HAMT_ARRAY_NODE_SIZE :: nat where
  "HAMT_ARRAY_NODE_SIZE = 32"

definition HAMT_MAX_TREE_DEPTH :: nat where
  "HAMT_MAX_TREE_DEPTH = 8"

abbreviation empty_node :: "('k, 'v) node" where
  "empty_node \<equiv> Bitmap_Node 0 []"

datatype 'v hamt_find_t = F_ERROR | F_NOT_FOUND | F_FOUND 'v

datatype 'n hamt_without_t = W_ERROR | W_NOT_FOUND | W_EMPTY | W_NEWNODE 'n

text \<open>
  What an assoc function returns: NULL, the node it was called on, or a new node. The flag is \<^verbatim>\<open>*added_leaf\<close>; it is
  never set when the node itself is returned.
\<close>

datatype 'n assoc = A_ERROR | A_SELF | A_NEW bool 'n

text \<open>The pointer returned, given the node called on: None is NULL.\<close>

fun returned :: "'n \<Rightarrow> 'n assoc \<Rightarrow> (bool \<times> 'n) option" where
  "returned self A_ERROR = None"
| "returned self A_SELF = Some (False, self)"
| "returned self (A_NEW added n) = Some (added, n)"

definition item_at :: "'a list \<Rightarrow> nat \<Rightarrow> 'a option" where
  "item_at xs i = (if i < length xs then Some (xs ! i) else None)"

text \<open>A bitmap node with one entry that is a key and its value is merged into its parent.\<close>

fun merged :: "('k, 'v) node \<Rightarrow> ('k, 'v) slot" where
  "merged (Bitmap_Node bm [Item k v]) = Item k v"
| "merged n = Sub n"

subsection \<open>Collision nodes\<close>

fun collision_find_from :: "'k keyops \<Rightarrow> 'k \<Rightarrow> nat \<Rightarrow> ('k \<times> 'v) list \<Rightarrow> nat hamt_find_t" where
  "collision_find_from K key i [] = F_NOT_FOUND"
| "collision_find_from K key i ((el, v) # xs) =
     (case py_eq K key el of
        None \<Rightarrow> F_ERROR
      | Some True \<Rightarrow> F_FOUND i
      | Some False \<Rightarrow> collision_find_from K key (Suc i) xs)"

definition hamt_node_collision_find_index :: "'k keyops \<Rightarrow> ('k \<times> 'v) list \<Rightarrow> 'k \<Rightarrow> nat hamt_find_t" where
  "hamt_node_collision_find_index K xs key = collision_find_from K key 0 xs"

definition hamt_node_collision_find :: "'k keyops \<Rightarrow> ('k \<times> 'v) list \<Rightarrow> 'k \<Rightarrow> 'v hamt_find_t" where
  "hamt_node_collision_find K xs key =
     (case hamt_node_collision_find_index K xs key of
        F_ERROR \<Rightarrow> F_ERROR
      | F_NOT_FOUND \<Rightarrow> F_NOT_FOUND
      | F_FOUND idx \<Rightarrow> F_FOUND (snd (xs ! idx)))"

definition hamt_node_collision_without ::
    "'k keyops \<Rightarrow> u32 \<Rightarrow> ('k \<times> 'v) list \<Rightarrow> nat \<Rightarrow> u32 \<Rightarrow> 'k \<Rightarrow> ('k, 'v) node hamt_without_t" where
  "hamt_node_collision_without K self_hash xs shift hash key =
     (if hash \<noteq> self_hash then W_NOT_FOUND
      else case hamt_node_collision_find_index K xs key of
        F_ERROR \<Rightarrow> W_ERROR
      | F_NOT_FOUND \<Rightarrow> W_NOT_FOUND
      | F_FOUND idx \<Rightarrow>
          if length xs = 1 then W_EMPTY
          else if length xs = 2 then
            let (k, v) = (if idx = 0 then xs ! 1 else xs ! 0);
                b = (case hamt_bitpos hash shift of Some b \<Rightarrow> b | None \<Rightarrow> stray K hash shift)
            in W_NEWNODE (Bitmap_Node b [Item k v])
          else W_NEWNODE (Collision_Node self_hash (take idx xs @ drop (idx + 1) xs)))"

subsection \<open>Lookup\<close>

lemma bind_option_cong [fundef_cong]:
  "x = y \<Longrightarrow> (\<And>a. y = Some a \<Longrightarrow> f a = g a) \<Longrightarrow> Option.bind x f = Option.bind y g"
  by (cases y) auto

lemma hamt_mask_lt: "hamt_mask hash shift = Some i \<Longrightarrow> shift < 32"
  by (simp add: hamt_mask_def split: if_splits)

lemma hamt_bitpos_lt: "hamt_bitpos hash shift = Some b \<Longrightarrow> shift < 32"
  by (auto simp: hamt_bitpos_def dest: hamt_mask_lt)

function hamt_node_find :: "'k keyops \<Rightarrow> ('k, 'v) node \<Rightarrow> nat \<Rightarrow> u32 \<Rightarrow> 'k \<Rightarrow> 'v hamt_find_t option"
  and hamt_node_bitmap_find ::
    "'k keyops \<Rightarrow> u32 \<Rightarrow> ('k, 'v) slot list \<Rightarrow> nat \<Rightarrow> u32 \<Rightarrow> 'k \<Rightarrow> 'v hamt_find_t option"
  and hamt_node_array_find ::
    "'k keyops \<Rightarrow> ('k, 'v) node option list \<Rightarrow> nat \<Rightarrow> u32 \<Rightarrow> 'k \<Rightarrow> 'v hamt_find_t option"
where
  "hamt_node_find K node shift hash key =
     (case node of
        Bitmap_Node bm sl \<Rightarrow> hamt_node_bitmap_find K bm sl shift hash key
      | Array_Node arr _ \<Rightarrow> hamt_node_array_find K arr shift hash key
      | Collision_Node _ xs \<Rightarrow> Some (hamt_node_collision_find K xs key))"
| "hamt_node_bitmap_find K bm sl shift hash key = do {
     b \<leftarrow> hamt_bitpos hash shift;
     if bm AND b = 0 then Some F_NOT_FOUND
     else do {
       slot \<leftarrow> item_at sl (hamt_bitindex bm b);
       case slot of
         Sub child \<Rightarrow> hamt_node_find K child (shift + 5) hash key
       | Item k v \<Rightarrow> Some (case py_eq K key k of
           None \<Rightarrow> F_ERROR | Some True \<Rightarrow> F_FOUND v | Some False \<Rightarrow> F_NOT_FOUND)
     }
   }"
| "hamt_node_array_find K arr shift hash key = do {
     idx \<leftarrow> hamt_mask hash shift;
     node \<leftarrow> item_at arr idx;
     case node of
       None \<Rightarrow> Some F_NOT_FOUND
     | Some child \<Rightarrow> hamt_node_find K child (shift + 5) hash key
   }"
  by pat_completeness auto
termination
  by (relation "measure (\<lambda>x. case x of Inl (_, _, s, _) \<Rightarrow> 2 * (40 - s) + 1
        | Inr (Inl (_, _, _, s, _)) \<Rightarrow> 2 * (40 - s) | Inr (Inr (_, _, s, _)) \<Rightarrow> 2 * (40 - s))")
    (auto dest: hamt_bitpos_lt hamt_mask_lt)

subsection \<open>Setting a key\<close>

text \<open>
  The loop that moves the entries of a full bitmap node into the children of an array node. \<open>add\<close> sets a key in the
  empty node one level down.
\<close>

fun fill_array ::
    "'k keyops \<Rightarrow> (u32 \<Rightarrow> 'k \<Rightarrow> 'v \<Rightarrow> ('k, 'v) node assoc option) \<Rightarrow> u32 \<Rightarrow> nat list \<Rightarrow> ('k, 'v) slot list \<Rightarrow> bool
      \<Rightarrow> ('k, 'v) node option list \<Rightarrow> ('k, 'v) node option list assoc option" where
  "fill_array K add bm [] sl added arr = Some (A_NEW added arr)"
| "fill_array K add bm (i # is) sl added arr =
     (if drop_bit i bm AND 1 = 0 then fill_array K add bm is sl added arr
      else case sl of
        [] \<Rightarrow> None
      | Sub n # sl' \<Rightarrow> fill_array K add bm is sl' added (arr[i := Some n])
      | Item k v # sl' \<Rightarrow>
          (let rehash = hamt_hash K k
           in if rehash = - 1 then Some A_ERROR
              else do {
                r \<leftarrow> add rehash k v;
                case returned empty_node r of
                  None \<Rightarrow> Some A_ERROR
                | Some (leaf, n) \<Rightarrow> fill_array K add bm is sl' (added \<or> leaf) (arr[i := Some n])
              }))"

text \<open>
  \<open>hamt_node_new_bitmap_or_collision\<close> returns a node or NULL. In an array node, the C code compares the child it
  gets back with the array node itself, which it never is: it copies the array node even when the child is unchanged.
\<close>

function hamt_node_assoc ::
    "'k keyops \<Rightarrow> ('k, 'v) node \<Rightarrow> nat \<Rightarrow> u32 \<Rightarrow> 'k \<Rightarrow> 'v \<Rightarrow> ('k, 'v) node assoc option"
  and hamt_node_bitmap_assoc ::
    "'k keyops \<Rightarrow> u32 \<Rightarrow> ('k, 'v) slot list \<Rightarrow> nat \<Rightarrow> u32 \<Rightarrow> 'k \<Rightarrow> 'v \<Rightarrow> ('k, 'v) node assoc option"
  and hamt_node_array_assoc ::
    "'k keyops \<Rightarrow> ('k, 'v) node option list \<Rightarrow> int \<Rightarrow> nat \<Rightarrow> u32 \<Rightarrow> 'k \<Rightarrow> 'v \<Rightarrow> ('k, 'v) node assoc option"
  and hamt_node_collision_assoc ::
    "'k keyops \<Rightarrow> u32 \<Rightarrow> ('k \<times> 'v) list \<Rightarrow> nat \<Rightarrow> u32 \<Rightarrow> 'k \<Rightarrow> 'v \<Rightarrow> ('k, 'v) node assoc option"
  and hamt_node_new_bitmap_or_collision ::
    "'k keyops \<Rightarrow> nat \<Rightarrow> 'k \<Rightarrow> 'v \<Rightarrow> u32 \<Rightarrow> 'k \<Rightarrow> 'v \<Rightarrow> ('k, 'v) node option option"
where
  "hamt_node_assoc K node shift hash key val =
     (case node of
        Bitmap_Node bm sl \<Rightarrow> hamt_node_bitmap_assoc K bm sl shift hash key val
      | Array_Node arr count \<Rightarrow> hamt_node_array_assoc K arr count shift hash key val
      | Collision_Node h xs \<Rightarrow> hamt_node_collision_assoc K h xs shift hash key val)"
| "hamt_node_bitmap_assoc K bm sl shift hash key val = do {
     b \<leftarrow> hamt_bitpos hash shift;
     let idx = hamt_bitindex bm b;
     if bm AND b \<noteq> 0 then do {
       slot \<leftarrow> item_at sl idx;
       case slot of
         Sub child \<Rightarrow> do {
           r \<leftarrow> hamt_node_assoc K child (shift + 5) hash key val;
           Some (case r of
               A_ERROR \<Rightarrow> A_ERROR
             | A_SELF \<Rightarrow> A_SELF
             | A_NEW leaf n \<Rightarrow> A_NEW leaf (Bitmap_Node bm (sl[idx := Sub n])))
         }
       | Item k v \<Rightarrow>
           (case py_eq K key k of
              None \<Rightarrow> Some A_ERROR
            | Some True \<Rightarrow>
                if val = v then Some A_SELF else Some (A_NEW False (Bitmap_Node bm (sl[idx := Item k val])))
            | Some False \<Rightarrow> do {
                r \<leftarrow> hamt_node_new_bitmap_or_collision K (shift + 5) k v hash key val;
                Some (case r of
                    None \<Rightarrow> A_ERROR
                  | Some n \<Rightarrow> A_NEW True (Bitmap_Node bm (sl[idx := Sub n])))
              })
     }
     else if 16 \<le> popcount32 bm then do {
       jdx \<leftarrow> hamt_mask hash shift;
       r \<leftarrow> hamt_node_assoc K empty_node (shift + 5) hash key val;
       case returned empty_node r of
         None \<Rightarrow> Some A_ERROR
       | Some (leaf, n) \<Rightarrow> do {
           r \<leftarrow> fill_array K (\<lambda>h k v. hamt_node_assoc K empty_node (shift + 5) h k v) bm [0..<HAMT_ARRAY_NODE_SIZE] sl
             leaf ((replicate HAMT_ARRAY_NODE_SIZE None)[jdx := Some n]);
           Some (case r of
               A_NEW leaf arr \<Rightarrow> A_NEW leaf (Array_Node arr (int (popcount32 bm) + 1))
             | _ \<Rightarrow> A_ERROR)
         }
     }
     else if length sl = popcount32 bm then
       Some (A_NEW True (Bitmap_Node (bm OR b) (take idx sl @ Item key val # drop idx sl)))
     else None
   }"
| "hamt_node_array_assoc K arr count shift hash key val = do {
     idx \<leftarrow> hamt_mask hash shift;
     node \<leftarrow> item_at arr idx;
     case node of
       None \<Rightarrow> do {
         r \<leftarrow> hamt_node_bitmap_assoc K 0 [] (shift + 5) hash key val;
         Some (case returned empty_node r of
             None \<Rightarrow> A_ERROR
           | Some (leaf, n) \<Rightarrow> A_NEW leaf (Array_Node (arr[idx := Some n]) (count + 1)))
       }
     | Some child \<Rightarrow> do {
         r \<leftarrow> hamt_node_assoc K child (shift + 5) hash key val;
         Some (case returned child r of
             None \<Rightarrow> A_ERROR
           | Some (leaf, n) \<Rightarrow> A_NEW leaf (Array_Node (arr[idx := Some n]) count))
       }
   }"
| "hamt_node_collision_assoc K self_hash xs shift hash key val =
     (if hash = self_hash then
        Some (case hamt_node_collision_find_index K xs key of
            F_ERROR \<Rightarrow> A_ERROR
          | F_NOT_FOUND \<Rightarrow> A_NEW True (Collision_Node self_hash (xs @ [(key, val)]))
          | F_FOUND idx \<Rightarrow>
              if snd (xs ! idx) = val then A_SELF
              else A_NEW False (Collision_Node self_hash (xs[idx := (fst (xs ! idx), val)])))
      else do {
        b \<leftarrow> hamt_bitpos self_hash shift;
        let sl = [Sub (Collision_Node self_hash xs)];
        r \<leftarrow> hamt_node_bitmap_assoc K b sl shift hash key val;
        Some (case returned (Bitmap_Node b sl) r of None \<Rightarrow> A_ERROR | Some (leaf, n) \<Rightarrow> A_NEW leaf n)
      })"
| "hamt_node_new_bitmap_or_collision K shift key1 val1 key2_hash key2 val2 =
     (let key1_hash = hamt_hash K key1
      in if key1_hash = - 1 then Some None
         else if key1_hash = key2_hash then Some (Some (Collision_Node key1_hash [(key1, val1), (key2, val2)]))
         else do {
           r \<leftarrow> hamt_node_assoc K empty_node shift key1_hash key1 val1;
           case returned empty_node r of
             None \<Rightarrow> Some None
           | Some (leaf, n2) \<Rightarrow> do {
               r \<leftarrow> hamt_node_assoc K n2 shift key2_hash key2 val2;
               Some (map_option snd (returned n2 r))
             }
         })"
  by pat_completeness auto
termination
  by (relation "measure (\<lambda>x. case x of
        Inl (Inl (_, _, s, _)) \<Rightarrow> 4 * (40 - s) + 2
      | Inl (Inr (_, _, _, s, _)) \<Rightarrow> 4 * (40 - s)
      | Inr (Inl (_, _, _, s, _)) \<Rightarrow> 4 * (40 - s) + 1
      | Inr (Inr (Inl (_, _, _, s, _))) \<Rightarrow> 4 * (40 - s) + 1
      | Inr (Inr (Inr (_, s, _))) \<Rightarrow> 4 * (40 - s) + 3)")
    (auto dest!: hamt_bitpos_lt hamt_mask_lt)

subsection \<open>Deleting a key\<close>

definition hamt_node_bitmap_clone_without :: "u32 \<Rightarrow> ('k, 'v) slot list \<Rightarrow> u32 \<Rightarrow> ('k, 'v) node" where
  "hamt_node_bitmap_clone_without bm sl b =
     (let idx = hamt_bitindex bm b in Bitmap_Node (bm AND NOT b) (take idx sl @ drop (idx + 1) sl))"

text \<open>The loop that moves the children of an array node but the one at \<open>idx\<close> into the entries of a bitmap node.\<close>

fun collect_children ::
    "nat \<Rightarrow> nat \<Rightarrow> ('k, 'v) node option list \<Rightarrow> u32 \<Rightarrow> ('k, 'v) slot list \<Rightarrow> u32 \<times> ('k, 'v) slot list" where
  "collect_children idx i [] bitmap out = (bitmap, out)"
| "collect_children idx i (None # arr) bitmap out = collect_children idx (Suc i) arr bitmap out"
| "collect_children idx i (Some node # arr) bitmap out =
     (if i = idx then collect_children idx (Suc i) arr bitmap out
      else collect_children idx (Suc i) arr (bitmap OR push_bit i 1) (out @ [merged node]))"

function hamt_node_without ::
    "'k keyops \<Rightarrow> ('k, 'v) node \<Rightarrow> nat \<Rightarrow> u32 \<Rightarrow> 'k \<Rightarrow> ('k, 'v) node hamt_without_t option"
  and hamt_node_bitmap_without ::
    "'k keyops \<Rightarrow> u32 \<Rightarrow> ('k, 'v) slot list \<Rightarrow> nat \<Rightarrow> u32 \<Rightarrow> 'k \<Rightarrow> ('k, 'v) node hamt_without_t option"
  and hamt_node_array_without ::
    "'k keyops \<Rightarrow> ('k, 'v) node option list \<Rightarrow> int \<Rightarrow> nat \<Rightarrow> u32 \<Rightarrow> 'k \<Rightarrow> ('k, 'v) node hamt_without_t option"
where
  "hamt_node_without K node shift hash key =
     (case node of
        Bitmap_Node bm sl \<Rightarrow> hamt_node_bitmap_without K bm sl shift hash key
      | Array_Node arr count \<Rightarrow> hamt_node_array_without K arr count shift hash key
      | Collision_Node h xs \<Rightarrow> Some (hamt_node_collision_without K h xs shift hash key))"
| "hamt_node_bitmap_without K bm sl shift hash key = do {
     b \<leftarrow> hamt_bitpos hash shift;
     if bm AND b = 0 then Some W_NOT_FOUND
     else do {
       let idx = hamt_bitindex bm b;
       slot \<leftarrow> item_at sl idx;
       case slot of
         Sub child \<Rightarrow> do {
           r \<leftarrow> hamt_node_without K child (shift + 5) hash key;
           case r of
             W_EMPTY \<Rightarrow> None
           | W_NEWNODE n \<Rightarrow> Some (W_NEWNODE (Bitmap_Node bm (sl[idx := merged n])))
           | W_ERROR \<Rightarrow> Some W_ERROR
           | W_NOT_FOUND \<Rightarrow> Some W_NOT_FOUND
         }
       | Item k v \<Rightarrow>
           Some (case py_eq K k key of
               None \<Rightarrow> W_ERROR
             | Some False \<Rightarrow> W_NOT_FOUND
             | Some True \<Rightarrow>
                 if length sl = 1 then W_EMPTY else W_NEWNODE (hamt_node_bitmap_clone_without bm sl b))
     }
   }"
| "hamt_node_array_without K arr count shift hash key = do {
     idx \<leftarrow> hamt_mask hash shift;
     node \<leftarrow> item_at arr idx;
     case node of
       None \<Rightarrow> Some W_NOT_FOUND
     | Some child \<Rightarrow> do {
         r \<leftarrow> hamt_node_without K child (shift + 5) hash key;
         case r of
           W_NOT_FOUND \<Rightarrow> Some W_NOT_FOUND
         | W_ERROR \<Rightarrow> Some W_ERROR
         | W_NEWNODE n \<Rightarrow> Some (W_NEWNODE (Array_Node (arr[idx := Some n]) count))
         | W_EMPTY \<Rightarrow>
             (let new_count = count - 1
              in if new_count = 0 then Some W_EMPTY
                 else if 16 \<le> new_count then Some (W_NEWNODE (Array_Node (arr[idx := None]) new_count))
                 else let (bitmap, out) = collect_children idx 0 arr 0 []
                      in if int (length out) = new_count then Some (W_NEWNODE (Bitmap_Node bitmap out)) else None)
       }
   }"
  by pat_completeness auto
termination
  by (relation "measure (\<lambda>x. case x of Inl (_, _, s, _) \<Rightarrow> 2 * (40 - s) + 1
        | Inr (Inl (_, _, _, s, _)) \<Rightarrow> 2 * (40 - s) | Inr (Inr (_, _, _, s, _)) \<Rightarrow> 2 * (40 - s))")
    (auto dest: hamt_bitpos_lt hamt_mask_lt)

declare hamt_node_find.simps [simp del] hamt_node_bitmap_find.simps [simp del] hamt_node_array_find.simps [simp del]
  hamt_node_assoc.simps [simp del] hamt_node_bitmap_assoc.simps [simp del] hamt_node_array_assoc.simps [simp del]
  hamt_node_collision_assoc.simps [simp del] hamt_node_new_bitmap_or_collision.simps [simp del]
  hamt_node_without.simps [simp del] hamt_node_bitmap_without.simps [simp del] hamt_node_array_without.simps [simp del]

subsection \<open>The mapping object\<close>

record ('k, 'v) hamt =
  h_root :: "('k, 'v) node"
  h_count :: int

definition PyHamt_New :: "('k, 'v) hamt" where
  "PyHamt_New = \<lparr> h_root = empty_node, h_count = 0 \<rparr>"

text \<open>The inner option is \<open>None\<close> for NULL, an exception.\<close>

definition PyHamt_Assoc :: "'k keyops \<Rightarrow> ('k, 'v) hamt \<Rightarrow> 'k \<Rightarrow> 'v \<Rightarrow> ('k, 'v) hamt option option" where
  "PyHamt_Assoc K h key val =
     (let key_hash = hamt_hash K key
      in if key_hash = - 1 then Some None
         else do {
           r \<leftarrow> hamt_node_assoc K (h_root h) 0 key_hash key val;
           Some (case r of
               A_ERROR \<Rightarrow> None
             | A_SELF \<Rightarrow> Some h
             | A_NEW added_leaf n \<Rightarrow>
                 Some \<lparr> h_root = n, h_count = (if added_leaf then h_count h + 1 else h_count h) \<rparr>)
         })"

definition PyHamt_Without :: "'k keyops \<Rightarrow> ('k, 'v) hamt \<Rightarrow> 'k \<Rightarrow> ('k, 'v) hamt option option" where
  "PyHamt_Without K h key =
     (let key_hash = hamt_hash K key
      in if key_hash = - 1 then Some None
         else do {
           r \<leftarrow> hamt_node_without K (h_root h) 0 key_hash key;
           Some (case r of
               W_ERROR \<Rightarrow> None
             | W_EMPTY \<Rightarrow> Some PyHamt_New
             | W_NOT_FOUND \<Rightarrow> Some h
             | W_NEWNODE n \<Rightarrow> Some \<lparr> h_root = n, h_count = h_count h - 1 \<rparr>)
         })"

definition hamt_find :: "'k keyops \<Rightarrow> ('k, 'v) hamt \<Rightarrow> 'k \<Rightarrow> 'v hamt_find_t option" where
  "hamt_find K h key =
     (if h_count h = 0 then Some F_NOT_FOUND
      else let key_hash = hamt_hash K key
           in if key_hash = - 1 then Some F_ERROR else hamt_node_find K (h_root h) 0 key_hash key)"

text \<open>\<^verbatim>\<open>_PyHamt_Find\<close> returns -1, 0 or 1 and stores the value found.\<close>

definition PyHamt_Find :: "'k keyops \<Rightarrow> ('k, 'v) hamt \<Rightarrow> 'k \<Rightarrow> (int \<times> 'v option) option" where
  "PyHamt_Find K h key =
     map_option (\<lambda>r. case r of F_ERROR \<Rightarrow> (- 1, None) | F_NOT_FOUND \<Rightarrow> (0, None) | F_FOUND v \<Rightarrow> (1, Some v))
       (hamt_find K h key)"

definition PyHamt_Len :: "('k, 'v) hamt \<Rightarrow> int" where
  "PyHamt_Len h = h_count h"

subsection \<open>Iterating\<close>

text \<open>
  The path from the root to the current node with the position reached in each. In bitmap and collision nodes the
  position counts entries, half of what \<^verbatim>\<open>i_pos\<close> counts.
\<close>

record ('k, 'v) iter =
  i_nodes :: "('k, 'v) node option list"
  i_pos :: "nat list"
  i_level :: int

definition hamt_iterator_init :: "('k, 'v) node \<Rightarrow> ('k, 'v) iter" where
  "hamt_iterator_init root =
     \<lparr> i_nodes = (replicate HAMT_MAX_TREE_DEPTH None)[0 := Some root],
       i_pos = replicate HAMT_MAX_TREE_DEPTH 0, i_level = 0 \<rparr>"

text \<open>A step either yields an entry or ends in a call of \<^verbatim>\<open>hamt_iterator_next\<close>.\<close>

datatype ('k, 'v) iter_step = Again "('k, 'v) iter" | I_ITEM 'k 'v "('k, 'v) iter"

definition iter_up :: "('k, 'v) iter \<Rightarrow> ('k, 'v) iter" where
  "iter_up it = it\<lparr> i_level := i_level it - 1 \<rparr>"

definition iter_down :: "nat \<Rightarrow> ('k, 'v) node \<Rightarrow> ('k, 'v) iter \<Rightarrow> ('k, 'v) iter option" where
  "iter_down pos child it =
     (let level = nat (i_level it)
      in if level + 1 < HAMT_MAX_TREE_DEPTH
         then Some \<lparr> i_nodes = (i_nodes it)[level + 1 := Some child],
                     i_pos = (i_pos it)[level := pos, level + 1 := 0], i_level = i_level it + 1 \<rparr>
         else None)"

definition hamt_iterator_bitmap_next ::
    "('k, 'v) slot list \<Rightarrow> ('k, 'v) iter \<Rightarrow> ('k, 'v) iter_step option" where
  "hamt_iterator_bitmap_next sl it =
     (let level = nat (i_level it); pos = i_pos it ! level
      in if length sl \<le> pos then Some (Again (iter_up it))
         else case sl ! pos of
           Sub child \<Rightarrow> map_option Again (iter_down (pos + 1) child it)
         | Item k v \<Rightarrow> Some (I_ITEM k v (it\<lparr> i_pos := (i_pos it)[level := pos + 1] \<rparr>)))"

definition hamt_iterator_collision_next ::
    "('k \<times> 'v) list \<Rightarrow> ('k, 'v) iter \<Rightarrow> ('k, 'v) iter_step option" where
  "hamt_iterator_collision_next xs it =
     (let level = nat (i_level it); pos = i_pos it ! level
      in Some (if length xs \<le> pos then Again (iter_up it)
               else I_ITEM (fst (xs ! pos)) (snd (xs ! pos)) (it\<lparr> i_pos := (i_pos it)[level := pos + 1] \<rparr>)))"

definition hamt_iterator_array_next ::
    "('k, 'v) node option list \<Rightarrow> ('k, 'v) iter \<Rightarrow> ('k, 'v) iter_step option" where
  "hamt_iterator_array_next arr it =
     (let pos = i_pos it ! nat (i_level it)
      in case first_slot (\<lambda>x. x \<noteq> None) (drop pos arr) of
           None \<Rightarrow> Some (Again (iter_up it))
         | Some d \<Rightarrow> map_option Again (iter_down (pos + d + 1) (the (arr ! (pos + d))) it))"

definition hamt_iterator_step :: "('k, 'v) iter \<Rightarrow> ('k, 'v) iter_step option" where
  "hamt_iterator_step it = do {
     entry \<leftarrow> item_at (i_nodes it) (nat (i_level it));
     node \<leftarrow> entry;
     case node of
       Bitmap_Node _ sl \<Rightarrow> hamt_iterator_bitmap_next sl it
     | Array_Node arr _ \<Rightarrow> hamt_iterator_array_next arr it
     | Collision_Node _ xs \<Rightarrow> hamt_iterator_collision_next xs it
   }"

text \<open>\<^verbatim>\<open>hamt_iterator_next\<close>: the entry, or None for \<^verbatim>\<open>I_END\<close>.\<close>

partial_function (option) hamt_iterator_next ::
    "('k, 'v) iter \<Rightarrow> (('k \<times> 'v) option \<times> ('k, 'v) iter) option" where
  "hamt_iterator_next it =
     (if i_level it < 0 then Some (None, it)
      else Option.bind (hamt_iterator_step it)
        (\<lambda>s. case s of Again it' \<Rightarrow> hamt_iterator_next it' | I_ITEM k v it' \<Rightarrow> Some (Some (k, v), it')))"

text \<open>
  \<^verbatim>\<open>_PyHamt_Eq\<close>: 1, 0 or -1. \<open>same\<close> is whether the two arguments are the same object, \<open>val_eq\<close> the comparison
  of values.
\<close>

partial_function (option) hamt_eq_loop ::
    "'k keyops \<Rightarrow> ('v \<Rightarrow> 'v \<Rightarrow> bool option) \<Rightarrow> ('k, 'v) hamt \<Rightarrow> ('k, 'v) iter \<Rightarrow> int option" where
  "hamt_eq_loop K val_eq w it =
     Option.bind (hamt_iterator_next it)
       (\<lambda>(item, it'). case item of
          None \<Rightarrow> Some 1
        | Some (v_key, v_val) \<Rightarrow>
            Option.bind (hamt_find K w v_key)
              (\<lambda>r. case r of
                 F_ERROR \<Rightarrow> Some (- 1)
               | F_NOT_FOUND \<Rightarrow> Some 0
               | F_FOUND w_val \<Rightarrow>
                   (case val_eq v_val w_val of
                      None \<Rightarrow> Some (- 1)
                    | Some same \<Rightarrow> if same then hamt_eq_loop K val_eq w it' else Some 0)))"

definition PyHamt_Eq ::
    "'k keyops \<Rightarrow> ('v \<Rightarrow> 'v \<Rightarrow> bool option) \<Rightarrow> bool \<Rightarrow> ('k, 'v) hamt \<Rightarrow> ('k, 'v) hamt \<Rightarrow> int option" where
  "PyHamt_Eq K val_eq same v w =
     (if same then Some 1
      else if h_count v \<noteq> h_count w then Some 0
      else hamt_eq_loop K val_eq w (hamt_iterator_init (h_root v)))"

subsection \<open>Iterator objects\<close>

text \<open>\<open>hi_obj\<close> is \<open>None\<close> after the garbage collector cleared the iterator.\<close>

record ('k, 'v, 'y) hamt_iterator =
  hi_obj :: "('k, 'v) hamt option"
  hi_iter :: "('k, 'v) iter"
  hi_yield :: "'k \<Rightarrow> 'v \<Rightarrow> 'y"

definition hamt_baseiter_new :: "('k \<Rightarrow> 'v \<Rightarrow> 'y) \<Rightarrow> ('k, 'v) hamt \<Rightarrow> ('k, 'v, 'y) hamt_iterator" where
  "hamt_baseiter_new yield h = \<lparr> hi_obj = Some h, hi_iter = hamt_iterator_init (h_root h), hi_yield = yield \<rparr>"

definition PyHamt_NewIterItems :: "('k, 'v) hamt \<Rightarrow> ('k, 'v, 'k \<times> 'v) hamt_iterator" where
  "PyHamt_NewIterItems h = hamt_baseiter_new (\<lambda>k v. (k, v)) h"

definition PyHamt_NewIterKeys :: "('k, 'v) hamt \<Rightarrow> ('k, 'v, 'k) hamt_iterator" where
  "PyHamt_NewIterKeys h = hamt_baseiter_new (\<lambda>k v. k) h"

definition PyHamt_NewIterValues :: "('k, 'v) hamt \<Rightarrow> ('k, 'v, 'v) hamt_iterator" where
  "PyHamt_NewIterValues h = hamt_baseiter_new (\<lambda>k v. v) h"

text \<open>The object yielded; None is NULL with \<^verbatim>\<open>StopIteration\<close> set.\<close>

definition hamt_baseiter_tp_iternext ::
    "('k, 'v, 'y) hamt_iterator \<Rightarrow> ('y option \<times> ('k, 'v, 'y) hamt_iterator) option" where
  "hamt_baseiter_tp_iternext it =
     map_option (\<lambda>(item, i). (map_option (\<lambda>(k, v). hi_yield it k v) item, it\<lparr> hi_iter := i \<rparr>))
       (hamt_iterator_next (hi_iter it))"

definition hamt_baseiter_tp_clear :: "('k, 'v, 'y) hamt_iterator \<Rightarrow> ('k, 'v, 'y) hamt_iterator" where
  "hamt_baseiter_tp_clear it = it\<lparr> hi_obj := None, hi_iter := (hi_iter it)\<lparr> i_level := - 1 \<rparr> \<rparr>"

definition hamt_baseiter_tp_len :: "('k, 'v, 'y) hamt_iterator \<Rightarrow> int" where
  "hamt_baseiter_tp_len it = (case hi_obj it of None \<Rightarrow> 0 | Some h \<Rightarrow> h_count h)"

subsection \<open>The methods of the type\<close>

text \<open>What a method returns: an object, or NULL with an exception set by the method or by what it called.\<close>

datatype py_error = KeyError | Propagated

datatype 'a py_result = Returned 'a | Raised py_error

datatype compare_op = Py_LT | Py_LE | Py_EQ | Py_NE | Py_GT | Py_GE

text \<open>An operand that is not a HAMT is None; the result None stands for \<^verbatim>\<open>NotImplemented\<close>.\<close>

definition hamt_tp_richcompare ::
    "'k keyops \<Rightarrow> ('v \<Rightarrow> 'v \<Rightarrow> bool option) \<Rightarrow> bool \<Rightarrow> ('k, 'v) hamt option \<Rightarrow> ('k, 'v) hamt option \<Rightarrow> compare_op
      \<Rightarrow> bool option py_result option" where
  "hamt_tp_richcompare K val_eq same v w op =
     (case (v, w) of
        (Some v, Some w) \<Rightarrow>
          if op \<noteq> Py_EQ \<and> op \<noteq> Py_NE then Some (Returned None)
          else map_option (\<lambda>res. if res < 0 then Raised Propagated
              else Returned (Some (if op = Py_NE then res = 0 else res \<noteq> 0))) (PyHamt_Eq K val_eq same v w)
      | _ \<Rightarrow> Some (Returned None))"

definition hamt_tp_contains :: "'k keyops \<Rightarrow> ('k, 'v) hamt \<Rightarrow> 'k \<Rightarrow> int option" where
  "hamt_tp_contains K h key = map_option fst (PyHamt_Find K h key)"

definition hamt_tp_subscript :: "'k keyops \<Rightarrow> ('k, 'v) hamt \<Rightarrow> 'k \<Rightarrow> 'v py_result option" where
  "hamt_tp_subscript K h key =
     map_option (\<lambda>r. case r of F_ERROR \<Rightarrow> Raised Propagated | F_FOUND v \<Rightarrow> Returned v | F_NOT_FOUND \<Rightarrow> Raised KeyError)
       (hamt_find K h key)"

text \<open>\<^verbatim>\<open>hamt.get(key[, default])\<close>; \<open>none\<close> is \<^verbatim>\<open>Py_None\<close>.\<close>

definition hamt_py_get :: "'k keyops \<Rightarrow> 'v \<Rightarrow> ('k, 'v) hamt \<Rightarrow> 'k \<Rightarrow> 'v option \<Rightarrow> 'v py_result option" where
  "hamt_py_get K none h key def =
     map_option (\<lambda>r. case r of
           F_ERROR \<Rightarrow> Raised Propagated
         | F_FOUND v \<Rightarrow> Returned v
         | F_NOT_FOUND \<Rightarrow> Returned (case def of None \<Rightarrow> none | Some d \<Rightarrow> d))
       (hamt_find K h key)"

end
