(* ===== verification/Hamt_Array.thy ===== *)
theory Hamt_Array
  imports Hamt
begin

text \<open>
  The two index computations the trie rests on: the 5-bit groups of a hash, and the compressed array of a bitmap
  node, read as a map from positions to entries.
\<close>

subsection \<open>Groups of a hash\<close>

definition pos :: "u32 \<Rightarrow> nat \<Rightarrow> nat" where
  "pos h l = unat (drop_bit (5 * l) h AND 0x1f)"

definition path :: "u32 \<Rightarrow> nat \<Rightarrow> nat list" where
  "path h l = map (pos h) [0..<l]"

lemma length_path [simp]: "length (path h l) = l"
  by (simp add: path_def)

lemma path_Suc: "path h (Suc l) = path h l @ [pos h l]"
  by (simp add: path_def)

lemma path_0 [simp]: "path h 0 = []"
  by (simp add: path_def)

lemma pos_lt: "pos h l < 32"
proof -
  have "pos h l \<le> unat (0x1f :: u32)"
    unfolding pos_def by (rule word_le_nat_alt [THEN iffD1]) (rule word_and_le1)
  then show ?thesis
    by simp
qed

lemma bit_pos: "bit (pos h l) j \<longleftrightarrow> j < 5 \<and> bit h (5 * l + j)"
proof -
  have m: "(0x1f :: u32) = mask 5"
    by (simp add: mask_eq_exp_minus_1)
  show ?thesis
    unfolding pos_def m by (auto simp: bit_unsigned_iff bit_and_iff bit_mask_iff bit_drop_bit_eq dest: bit_imp_le_length)
qed

lemma hamt_mask_pos: "l \<le> 6 \<Longrightarrow> hamt_mask h (5 * l) = Some (pos h l)"
  by (simp add: hamt_mask_def pos_def)

definition bitpos :: "nat \<Rightarrow> u32" where
  "bitpos i = push_bit i 1"

lemma exp_bitpos: "2 ^ i = bitpos i"
  by (simp add: bitpos_def)

lemma hamt_bitpos_pos: "l \<le> 6 \<Longrightarrow> hamt_bitpos h (5 * l) = Some (bitpos (pos h l))"
  by (simp add: hamt_bitpos_def hamt_mask_pos bitpos_def)

lemma pos_last: "pos h 6 < 4"
proof -
  have "take_bit 2 (pos h 6) = pos h 6"
    by (rule bit_eqI) (auto simp: bit_take_bit_iff bit_pos dest: bit_imp_le_length)
  then show ?thesis
    by (metis take_bit_nat_less_exp power2_eq_square numeral_Bit0 mult_2_right mult_2 numerals(1) one_add_one power2_eq_square)
qed

lemma path_7: "path h 7 = path h' 7 \<Longrightarrow> h = h'"
proof (rule bit_word_eqI)
  fix n assume p: "path h 7 = path h' 7" and n: "n < LENGTH(32)"
  from n have l: "n div 5 < 7" by simp
  with p have "path h 7 ! (n div 5) = path h' 7 ! (n div 5)" by simp
  with l have "pos h (n div 5) = pos h' (n div 5)" by (simp add: path_def)
  then have "bit (pos h (n div 5)) (n mod 5) = bit (pos h' (n div 5)) (n mod 5)" by simp
  then show "bit h n \<longleftrightarrow> bit h' n" by (simp add: bit_pos)
qed

subsection \<open>The compressed array\<close>

definition bits :: "u32 \<Rightarrow> nat list" where
  "bits bm = filter (bit bm) [0..<32]"

definition entry :: "u32 \<Rightarrow> 'a list \<Rightarrow> nat \<Rightarrow> 'a option" where
  "entry bm sl = map_of (zip (bits bm) sl)"

lemma popcount32_bits: "popcount32 bm = length (bits bm)"
  by (simp add: popcount32_def bits_def)

lemma distinct_bits [simp]: "distinct (bits bm)"
  by (simp add: bits_def)

lemma set_bits: "set (bits bm) = {i. bit bm i}"
  by (auto simp: bits_def dest: bit_imp_le_length)

lemma bit_lt: "bit (bm :: u32) i \<Longrightarrow> i < 32"
  by (auto dest: bit_imp_le_length)

lemma bit_bitpos [simp]: "bit (bitpos i) n \<longleftrightarrow> i < 32 \<and> n = i"
  by (auto simp: bitpos_def bit_exp_iff)

lemma and_one_bit: "i < 32 \<Longrightarrow> (bm :: u32) AND bitpos i = 0 \<longleftrightarrow> \<not> bit bm i"
  by (auto simp: bit_eq_iff [of "bm AND bitpos i" 0] bit_and_iff)

lemma bitindex_filter:
  assumes "i < 32"
  shows "hamt_bitindex bm (bitpos i) = length (filter (bit bm) [0..<i])"
proof -
  have "bitpos i - 1 = (mask i :: u32)"
    by (simp add: mask_eq_exp_minus_1 bitpos_def)
  moreover have "[0..<32] = [0..<i] @ [i..<32]"
    using assms by (metis bot_nat_0.extremum le_add_diff_inverse less_imp_le_nat upt_add_eq_append)
  moreover have "filter (bit (bm AND mask i)) [0..<i] = filter (bit bm) [0..<i]"
    using assms by (auto simp: bit_and_iff bit_mask_iff intro!: filter_cong)
  moreover have "filter (bit (bm AND mask i)) [i..<32] = []"
    by (auto simp: bit_and_iff bit_mask_iff filter_empty_conv)
  ultimately show ?thesis
    by (simp add: hamt_bitindex_def popcount32_def)
qed

lemma bits_split:
  assumes "i < 32"
  obtains xs ys where "length xs = hamt_bitindex bm (bitpos i)" and "i \<notin> set xs" and "i \<notin> set ys"
    and "bits bm = xs @ (if bit bm i then [i] else []) @ ys"
    and "bits (bm OR bitpos i) = xs @ i # ys" and "bits (bm AND NOT (bitpos i)) = xs @ ys"
proof
  let ?xs = "filter (bit bm) [0..<i]" and ?ys = "filter (bit bm) [Suc i..<32]"
  have s: "[0..<32] = [0..<i] @ i # [Suc i..<32]"
    using assms by (metis bot_nat_0.extremum le_add_diff_inverse less_imp_le_nat upt_add_eq_append upt_conv_Cons)
  show "length ?xs = hamt_bitindex bm (bitpos i)"
    by (simp add: bitindex_filter [OF assms])
  show "bits bm = ?xs @ (if bit bm i then [i] else []) @ ?ys"
    by (simp add: bits_def s)
  have "filter (bit (bm OR bitpos i)) [0..<i] = ?xs" "filter (bit (bm OR bitpos i)) [Suc i..<32] = ?ys"
    "filter (bit (bm AND NOT (bitpos i))) [0..<i] = ?xs"
    "filter (bit (bm AND NOT (bitpos i))) [Suc i..<32] = ?ys"
    using assms by (auto intro!: filter_cong simp: bit_or_iff bit_and_iff bit_not_iff)
  moreover have "bit (bm OR bitpos i) i" "\<not> bit (bm AND NOT (bitpos i)) i"
    using assms by (auto simp: bit_or_iff bit_and_iff bit_not_iff)
  ultimately show "bits (bm OR bitpos i) = ?xs @ i # ?ys" "bits (bm AND NOT (bitpos i)) = ?xs @ ?ys"
    by (simp_all add: bits_def s)
qed auto

text \<open>Lookup, replacement, insertion and removal at a position.\<close>

lemma entry_None: "\<not> bit bm i \<Longrightarrow> entry bm sl i = None"
  by (auto simp: entry_def map_of_eq_None_iff set_bits dest!: set_zip_leftD)

lemma entry_lt: "entry bm sl i = Some x \<Longrightarrow> i < 32"
  by (metis entry_None bit_lt option.distinct(1))

lemma split_at:
  assumes "length sl = length xs + Suc n"
  obtains us x vs where "sl = us @ x # vs" and "length us = length xs" and "length vs = n"
proof
  show "sl = take (length xs) sl @ sl ! length xs # drop (Suc (length xs)) sl"
    using assms by (simp add: id_take_nth_drop [symmetric])
qed (use assms in auto)

lemma entry_append:
  assumes "bits bm = xs @ ys" and "length us = length xs"
  shows "entry bm (us @ vs) = map_of (zip ys vs) ++ map_of (zip xs us)"
  using assms by (simp add: entry_def)

lemma entry_middle:
  assumes "bits bm = xs @ i # ys" and "length us = length xs" and "i \<notin> set xs"
  shows "entry bm (us @ x # vs) = (map_of (zip ys vs) ++ map_of (zip xs us))(i \<mapsto> x)"
  using assms by (auto simp: entry_append [OF assms(1,2)] map_add_def fun_eq_iff map_of_zip_is_None split: option.split
      dest!: map_of_SomeD set_zip_leftD)

lemma entry_item:
  assumes "length sl = popcount32 bm" and "bit bm i"
  shows "item_at sl (hamt_bitindex bm (bitpos i)) = entry bm sl i" and "entry bm sl i \<noteq> None"
proof -
  obtain xs ys where b: "length xs = hamt_bitindex bm (bitpos i)" "i \<notin> set xs" "bits bm = xs @ i # ys"
    by (rule bits_split [OF bit_lt [OF assms(2)], of bm]) (use assms(2) in auto)
  from assms(1) b(3) have "length sl = length xs + Suc (length ys)" by (simp add: popcount32_bits)
  then obtain us x vs where u: "sl = us @ x # vs" "length us = length xs"
    by (rule split_at)
  from entry_middle [OF b(3) u(2) b(2)] u(1) have "entry bm sl i = Some x"
    by simp
  moreover have "item_at sl (hamt_bitindex bm (bitpos i)) = Some x"
    by (simp add: u(1) item_at_def flip: b(1) u(2))
  ultimately show "item_at sl (hamt_bitindex bm (bitpos i)) = entry bm sl i" "entry bm sl i \<noteq> None"
    by simp_all
qed

lemma entry_set:
  assumes "length sl = popcount32 bm" and "bit bm i"
  shows "entry bm (sl[hamt_bitindex bm (bitpos i) := x]) = (entry bm sl)(i \<mapsto> x)"
proof -
  obtain xs ys where b: "length xs = hamt_bitindex bm (bitpos i)" "i \<notin> set xs" "bits bm = xs @ i # ys"
    by (rule bits_split [OF bit_lt [OF assms(2)], of bm]) (use assms(2) in auto)
  from assms(1) b(3) have "length sl = length xs + Suc (length ys)" by (simp add: popcount32_bits)
  then obtain us y vs where u: "sl = us @ y # vs" "length us = length xs"
    by (rule split_at)
  show ?thesis
    by (simp add: u(1) entry_middle [OF b(3) u(2) b(2)] flip: b(1) u(2))
qed

lemma entry_insert:
  assumes "length sl = popcount32 bm" and "\<not> bit bm i" and "i < 32"
  defines "r \<equiv> hamt_bitindex bm (bitpos i)"
  shows "entry (bm OR bitpos i) (take r sl @ x # drop r sl) = (entry bm sl)(i \<mapsto> x)"
    and "popcount32 (bm OR bitpos i) = Suc (popcount32 bm)"
proof -
  obtain xs ys where b: "length xs = r" "i \<notin> set xs" "bits bm = xs @ ys" "bits (bm OR bitpos i) = xs @ i # ys"
    unfolding r_def by (rule bits_split [OF assms(3), of bm]) (use assms(2) in auto)
  have l: "length (take r sl) = length xs"
    using assms(1) b by (simp add: popcount32_bits)
  have "entry bm sl = map_of (zip ys (drop r sl)) ++ map_of (zip xs (take r sl))"
    using entry_append [OF b(3) l, of "drop r sl"] by simp
  then show "entry (bm OR bitpos i) (take r sl @ x # drop r sl) = (entry bm sl)(i \<mapsto> x)"
    by (simp add: entry_middle [OF b(4) l b(2)])
  from b show "popcount32 (bm OR bitpos i) = Suc (popcount32 bm)"
    by (simp add: popcount32_bits)
qed

lemma entry_remove:
  assumes "length sl = popcount32 bm" and "bit bm i"
  defines "r \<equiv> hamt_bitindex bm (bitpos i)"
  shows "entry (bm AND NOT (bitpos i)) (take r sl @ drop (r + 1) sl) = (entry bm sl)(i := None)"
    and "Suc (popcount32 (bm AND NOT (bitpos i))) = popcount32 bm" and "r < length sl"
proof -
  obtain xs ys where b: "length xs = r" "i \<notin> set xs" "i \<notin> set ys" "bits bm = xs @ i # ys"
      "bits (bm AND NOT (bitpos i)) = xs @ ys"
    unfolding r_def by (rule bits_split [OF bit_lt [OF assms(2)], of bm]) (use assms(2) in auto)
  from assms(1) b(4) have "length sl = length xs + Suc (length ys)" by (simp add: popcount32_bits)
  then obtain us x vs where u: "sl = us @ x # vs" "length us = length xs" "length vs = length ys"
    by (rule split_at)
  have "(map_of (zip ys vs) ++ map_of (zip xs us)) i = None"
    using b(2,3) by (auto simp: map_add_def map_of_eq_None_iff split: option.split dest!: map_of_SomeD set_zip_leftD)
  then show "entry (bm AND NOT (bitpos i)) (take r sl @ drop (r + 1) sl) = (entry bm sl)(i := None)"
    by (simp add: u(1,2) entry_middle [OF b(4) u(2) b(2)] entry_append [OF b(5) u(2)] fun_upd_idem flip: b(1))
  from b u show "Suc (popcount32 (bm AND NOT (bitpos i))) = popcount32 bm" "r < length sl"
    by (simp_all add: popcount32_bits flip: b(1))
qed

subsection \<open>From bitmap to array and back\<close>

fun child_of :: "('k \<Rightarrow> 'v \<Rightarrow> ('k, 'v) node) \<Rightarrow> ('k, 'v) slot \<Rightarrow> ('k, 'v) node" where
  "child_of f (Sub n) = n"
| "child_of f (Item k v) = f k v"

lemma drop_bit_and_1: "drop_bit i bm AND 1 = 0 \<longleftrightarrow> \<not> bit (bm :: u32) i"
  by (simp add: and_one_eq even_iff_mod_2_eq_zero [symmetric] even_drop_bit_iff_not_bit)

lemma fill_array_ok:
  assumes "\<And>k v. Item k v \<in> set sl \<Longrightarrow> hamt_hash K k \<noteq> - 1 \<and> add (hamt_hash K k) k v = Some (A_NEW True (f k v))"
    and "length sl = length (filter (bit bm) is)" and "distinct is" and "\<forall>i \<in> set is. i < length arr"
  shows "\<exists>arr'. fill_array K add bm is sl True arr = Some (A_NEW True arr') \<and> length arr' = length arr
    \<and> (\<forall>j < length arr. arr' ! j = (case map_of (zip (filter (bit bm) is) sl) j of
          None \<Rightarrow> arr ! j | Some x \<Rightarrow> Some (child_of f x)))"
  using assms
proof (induction "is" arbitrary: sl arr)
  case Nil
  then show ?case by simp
next
  case (Cons i "is")
  show ?case
  proof (cases "bit bm i")
    case False
    with Cons show ?thesis
      by (simp add: drop_bit_and_1)
  next
    case True
    with Cons.prems(2) obtain x sl' where sl: "sl = x # sl'" "length sl' = length (filter (bit bm) is)"
      by (cases sl) auto
    let ?arr = "arr[i := Some (child_of f x)]"
    have step: "fill_array K add bm (i # is) sl True arr = fill_array K add bm is sl' True ?arr"
    proof (cases x)
      case (Item k v)
      with True Cons.prems(1) [of k v] show ?thesis
        by (simp add: sl drop_bit_and_1 Let_def)
    qed (use True in \<open>simp add: sl drop_bit_and_1\<close>)
    obtain arr' where arr': "fill_array K add bm is sl' True ?arr = Some (A_NEW True arr')" "length arr' = length arr"
      "\<And>j. j < length arr \<Longrightarrow> arr' ! j = (case map_of (zip (filter (bit bm) is) sl') j of
          None \<Rightarrow> ?arr ! j | Some x \<Rightarrow> Some (child_of f x))"
      using Cons.IH [of sl' ?arr] Cons.prems sl by auto
    have i: "map_of (zip (filter (bit bm) is) sl') i = None"
      using Cons.prems(3) by (simp only: map_of_eq_None_iff) (auto dest: set_zip_leftD)
    have "zip (filter (bit bm) (i # is)) sl = (i, x) # zip (filter (bit bm) is) sl'"
      using True by (simp add: sl(1))
    with step arr' i show ?thesis
      by (intro exI [of _ arr'] conjI allI impI) (simp_all add: nth_list_update del: fill_array.simps cong: option.case_cong)
  qed
qed

lemma bitindex_all:
  assumes "\<forall>j. bit bm j \<longrightarrow> j < i" and "i < 32"
  shows "hamt_bitindex bm (bitpos i) = popcount32 bm"
proof -
  have "[0..<32] = [0..<i] @ [i..<32]"
    using assms(2) by (metis bot_nat_0.extremum le_add_diff_inverse less_imp_le_nat upt_add_eq_append)
  moreover have "filter (bit bm) [i..<32] = []"
    using assms(1) by (auto simp: filter_empty_conv dest: leD)
  ultimately show ?thesis
    by (simp add: bitindex_filter [OF assms(2)] popcount32_def)
qed

lemma entry_extend:
  assumes "length out = popcount32 bm" and "\<forall>j. bit bm j \<longrightarrow> j < i" and "i < 32"
  shows "entry (bm OR bitpos i) (out @ [x]) = (entry bm out)(i \<mapsto> x)"
    and "popcount32 (bm OR bitpos i) = Suc (popcount32 bm)"
  using entry_insert(1) [OF assms(1) _ assms(3), of x] entry_insert(2) [OF assms(1) _ assms(3)] assms
  by (auto simp: bitindex_all)

text \<open>The entries that \<open>collect_children\<close> adds from position \<open>i\<close> on.\<close>

definition collected :: "nat \<Rightarrow> nat \<Rightarrow> ('k, 'v) node option list \<Rightarrow> nat \<Rightarrow> ('k, 'v) slot option" where
  "collected idx i arr j =
     (if i \<le> j \<and> j < i + length arr \<and> j \<noteq> idx then map_option merged (arr ! (j - i)) else None)"

lemma collected_Nil: "collected idx i [] = Map.empty"
  by (rule ext) (auto simp: collected_def)

lemma collected_Cons:
  "collected idx i (x # arr) = (collected idx (Suc i) arr)(i := (if i = idx then None else map_option merged x))"
proof (rule ext)
  fix j
  have "Suc (j - Suc i) = j - i" if "i < j"
    using that by simp
  then show "collected idx i (x # arr) j = ((collected idx (Suc i) arr)(i := (if i = idx then None else map_option merged x))) j"
    by (cases "i < j") (auto simp: collected_def nth_Cons' Suc_diff_Suc)
qed

lemma collect_children_ok:
  assumes "length out = popcount32 bm" and "\<forall>j. bit bm j \<longrightarrow> j < i" and "i + length arr \<le> 32"
    and "collect_children idx i arr bm out = (bm', out')"
  shows "length out' = popcount32 bm' \<and> entry bm' out' = entry bm out ++ collected idx i arr"
  using assms
proof (induction idx i arr bm out rule: collect_children.induct)
  case (1 idx i bm out)
  then show ?case by (simp add: collected_Nil)
next
  case (2 idx i arr bm out)
  have "entry bm out i = None"
    using "2.prems"(2) by (metis entry_None less_irrefl)
  with 2 show ?case
    by (auto simp: collected_Cons less_Suc_eq map_add_def fun_eq_iff collected_def)
next
  case (3 idx i node arr bm out)
  have "entry bm out i = None" "collected idx (Suc i) arr i = None"
    using "3.prems"(2) by (metis entry_None less_irrefl) (simp add: collected_def)
  moreover note ext = entry_extend [OF "3.prems"(1,2)]
  ultimately show ?case
    using "3.prems" "3.IH"
    by (cases "i = idx")
      (auto simp: ext exp_bitpos collected_Cons less_Suc_eq map_add_def fun_eq_iff bit_or_iff split: option.splits)
qed

lemma collect_children_length:
  "length (snd (collect_children idx i arr bm out)) + (if i \<le> idx \<and> idx < i + length arr \<and> arr ! (idx - i) \<noteq> None then 1 else 0)
    = length out + length (filter (\<lambda>x. x \<noteq> None) arr)"
proof (induction idx i arr bm out rule: collect_children.induct)
  case (2 idx i arr bm out)
  then show ?case by (cases "idx = i") (auto simp: nth_Cons' Suc_diff_Suc)
next
  case (3 idx i node arr bm out)
  then show ?case by (cases "idx = i") (auto simp: nth_Cons' Suc_diff_Suc)
qed simp

end
