(* ===== verification/Hamt_Wf.thy ===== *)
theory Hamt_Wf
  imports Hamt_Array
begin

text \<open>
  The shape of the tries the code builds, and what a lookup in one gives: a node at a path of hash groups holds
  keys of that path only, bitmap and array nodes lie at most seven levels deep and collision nodes eight.
\<close>

subsection \<open>Keys\<close>

text \<open>
  Keys obey Python's data model: comparing them never fails and is the equality of what they stand for, and
  equal keys have equal hashes.
\<close>

definition lawful :: "'k keyops \<Rightarrow> ('k \<Rightarrow> 'r) \<Rightarrow> bool" where
  "lawful K rep \<longleftrightarrow> (\<forall>a b. py_eq K a b = Some (rep a = rep b)) \<and> (\<forall>a. py_hash K a \<noteq> - 1)
     \<and> (\<forall>a b. rep a = rep b \<longrightarrow> py_hash K a = py_hash K b)"

lemma lawful_eq: "lawful K rep \<Longrightarrow> py_eq K a b = Some (rep a = rep b)"
  unfolding lawful_def by (drule conjunct1) simp

lemma hamt_hash_not_error: "py_hash K a \<noteq> - 1 \<Longrightarrow> hamt_hash K a \<noteq> - 1"
proof -
  have "(if x = - 1 then - 2 else x) \<noteq> - 1" for x :: u32 by simp
  moreover assume "py_hash K a \<noteq> - 1"
  ultimately show ?thesis
    unfolding hamt_hash_def Let_def by (simp only: if_False simp_thms)
qed

lemma lawful_hash: "lawful K rep \<Longrightarrow> hamt_hash K a \<noteq> - 1"
  unfolding lawful_def by (drule conjunct2, drule conjunct1) (simp add: hamt_hash_not_error)

lemma lawful_hash_eq: "lawful K rep \<Longrightarrow> rep a = rep b \<Longrightarrow> hamt_hash K a = hamt_hash K b"
proof -
  assume "lawful K rep" and r: "rep a = rep b"
  then have "\<forall>a b. rep a = rep b \<longrightarrow> py_hash K a = py_hash K b"
    unfolding lawful_def by (elim conjE)
  with r have "py_hash K a = py_hash K b" by blast
  then show ?thesis by (simp only: hamt_hash_def)
qed

subsection \<open>Well-formed tries\<close>

fun is_empty :: "('k, 'v) node \<Rightarrow> bool" where
  "is_empty (Bitmap_Node _ []) = True"
| "is_empty _ = False"

text \<open>A node that holds one key or none directly; it is never the child of a bitmap node.\<close>

fun thin :: "('k, 'v) node \<Rightarrow> bool" where
  "thin (Bitmap_Node _ []) = True"
| "thin (Bitmap_Node _ [Item _ _]) = True"
| "thin _ = False"

inductive wf_node :: "'k keyops \<Rightarrow> ('k \<Rightarrow> 'r) \<Rightarrow> nat list \<Rightarrow> ('k, 'v) node \<Rightarrow> bool"
  and wf_slot :: "'k keyops \<Rightarrow> ('k \<Rightarrow> 'r) \<Rightarrow> nat list \<Rightarrow> ('k, 'v) slot \<Rightarrow> bool"
  for K :: "'k keyops" and rep :: "'k \<Rightarrow> 'r"
where
  wf_bitmap: "length p \<le> 6 \<Longrightarrow> length sl = popcount32 bm \<Longrightarrow> popcount32 bm \<le> 16 \<Longrightarrow>
    (\<And>i x. entry bm sl i = Some x \<Longrightarrow> wf_slot K rep (p @ [i]) x) \<Longrightarrow> wf_node K rep p (Bitmap_Node bm sl)"
| wf_array: "length p \<le> 5 \<Longrightarrow> length arr = 32 \<Longrightarrow> count = int (length (filter (\<lambda>x. x \<noteq> None) arr)) \<Longrightarrow>
    16 \<le> count \<Longrightarrow> (\<And>i n. i < 32 \<Longrightarrow> arr ! i = Some n \<Longrightarrow> wf_node K rep (p @ [i]) n) \<Longrightarrow>
    (\<And>i n. i < 32 \<Longrightarrow> arr ! i = Some n \<Longrightarrow> \<not> is_empty n) \<Longrightarrow> wf_node K rep p (Array_Node arr count)"
| wf_collision: "length p \<le> 7 \<Longrightarrow> path h (length p) = p \<Longrightarrow> 2 \<le> length xs \<Longrightarrow>
    (\<And>k v. (k, v) \<in> set xs \<Longrightarrow> hamt_hash K k = h) \<Longrightarrow> distinct (map (rep \<circ> fst) xs) \<Longrightarrow>
    wf_node K rep p (Collision_Node h xs)"
| wf_item: "path (hamt_hash K k) (length p) = p \<Longrightarrow> wf_slot K rep p (Item k v)"
| wf_sub: "wf_node K rep p n \<Longrightarrow> \<not> thin n \<Longrightarrow> wf_slot K rep p (Sub n)"

inductive_cases wf_bitmapE: "wf_node K rep p (Bitmap_Node bm sl)"
inductive_cases wf_arrayE: "wf_node K rep p (Array_Node arr count)"
inductive_cases wf_collisionE: "wf_node K rep p (Collision_Node h xs)"
inductive_simps wf_item_simp [simp]: "wf_slot K rep p (Item k v)"
inductive_simps wf_sub_simp [simp]: "wf_slot K rep p (Sub n)"

lemma is_empty_thin: "is_empty n \<Longrightarrow> thin n"
  by (cases n rule: is_empty.cases) auto

lemma wf_empty: "length p \<le> 6 \<Longrightarrow> wf_node K rep p empty_node"
  by (rule wf_bitmap) (simp_all add: popcount32_def entry_def)

lemma path_prefix: "path h (Suc l) = p @ [i] \<Longrightarrow> path h l = p \<and> pos h l = i"
  by (simp add: path_Suc)

text \<open>Every entry lies on the path of some hash, so there are at most four at the last level.\<close>

lemma entry_exists: "length sl = popcount32 bm \<Longrightarrow> sl \<noteq> [] \<Longrightarrow> \<exists>i x. entry bm sl i = Some x"
  by (cases sl; cases "bits bm") (auto simp: entry_def popcount32_bits)

lemma some_exists: "filter (\<lambda>x. x \<noteq> None) arr \<noteq> [] \<Longrightarrow> \<exists>i n. i < length arr \<and> arr ! i = Some n"
  by (auto simp: filter_empty_conv in_set_conv_nth) metis

lemma on_path:
  fixes n :: "('k, 'v) node" and x :: "('k, 'v) slot"
  shows "wf_node K rep p n \<Longrightarrow> \<not> is_empty n \<Longrightarrow> \<exists>h. path h (length p) = p"
  and "wf_slot K rep q x \<Longrightarrow> \<exists>h. path h (length q) = q"
proof (induction rule: wf_node_wf_slot.inducts)
  case (wf_bitmap p sl bm)
  then have "sl \<noteq> []" by (cases sl) auto
  then obtain i x where "entry bm sl i = Some x"
    using entry_exists [OF wf_bitmap(2)] by blast
  from wf_bitmap(5) [OF this] show ?case
    by (auto dest: path_prefix)
next
  case (wf_array p arr count)
  then have "filter (\<lambda>x. x \<noteq> None) arr \<noteq> []" by auto
  then obtain i n where "i < 32" "arr ! i = Some n"
    using some_exists [of arr] wf_array(2) by auto
  with wf_array show ?case
    by (metis length_append_singleton path_prefix)
qed (auto dest: is_empty_thin)

lemma last_level:
  fixes sl :: "('k, 'v) slot list"
  assumes "wf_node K rep p (Bitmap_Node bm sl)" and "length p = 6"
  shows "popcount32 bm \<le> 4"
proof -
  have "set (bits bm) \<subseteq> {0..<4}"
  proof
    fix i assume "i \<in> set (bits bm)"
    then have "bit bm i" by (simp add: set_bits)
    moreover from assms(1) have "length sl = popcount32 bm" "\<And>i x. entry bm sl i = Some x \<Longrightarrow> wf_slot K rep (p @ [i]) x"
      by (auto elim: wf_bitmapE)
    ultimately obtain x :: "('k, 'v) slot" where "wf_slot K rep (p @ [i]) x"
      using entry_item(2) [of sl bm i] by (cases "entry bm sl i") blast+
    then obtain h where "path h (Suc 6) = p @ [i]"
      using on_path(2) assms(2) by fastforce
    then have "pos h 6 = i" using path_prefix by blast
    with pos_last [of h] show "i \<in> {0..<4}" by simp
  qed
  then have "card (set (bits bm)) \<le> 4"
    by (metis card_atLeastLessThan card_mono diff_zero finite_atLeastLessThan)
  then show ?thesis
    by (simp add: popcount32_bits distinct_card)
qed

subsection \<open>Lookup\<close>

text \<open>The value a lookup finds at level \<open>l\<close>, and the same in an entry of a bitmap node.\<close>

definition look :: "'k keyops \<Rightarrow> nat \<Rightarrow> ('k, 'v) node \<Rightarrow> 'k \<Rightarrow> 'v option" where
  "look K l n k = (case hamt_node_find K n (5 * l) (hamt_hash K k) k of Some (F_FOUND v) \<Rightarrow> Some v | _ \<Rightarrow> None)"

fun look_slot :: "'k keyops \<Rightarrow> ('k \<Rightarrow> 'r) \<Rightarrow> nat \<Rightarrow> ('k, 'v) slot \<Rightarrow> 'k \<Rightarrow> 'v option" where
  "look_slot K rep l (Item a v) k = (if rep a = rep k then Some v else None)"
| "look_slot K rep l (Sub n) k = look K l n k"

definition found :: "'v option \<Rightarrow> 'v hamt_find_t" where
  "found x = (case x of None \<Rightarrow> F_NOT_FOUND | Some v \<Rightarrow> F_FOUND v)"

lemma found_simps [simp]: "found None = F_NOT_FOUND" "found (Some v) = F_FOUND v"
  by (simp_all add: found_def)

lemma five: "5 * l + 5 = 5 * Suc l"
  by simp

lemma collision_find_from:
  assumes "lawful K rep"
  shows "(collision_find_from K key i xs = F_NOT_FOUND \<and> rep key \<notin> set (map (rep \<circ> fst) xs))
    \<or> (\<exists>j < length xs. collision_find_from K key i xs = F_FOUND (i + j) \<and> rep (fst (xs ! j)) = rep key)"
proof (induction xs arbitrary: i)
  case (Cons x xs)
  show ?case
  proof (cases "rep key = rep (fst x)")
    case True
    then show ?thesis by (cases x) (auto simp: lawful_eq [OF assms] intro: exI [of _ 0])
  next
    case False
    then have "collision_find_from K key i (x # xs) = collision_find_from K key (Suc i) xs"
      by (cases x) (simp add: lawful_eq [OF assms])
    moreover have "\<exists>j < length (x # xs). Suc i + j' = i + j \<and> rep (fst ((x # xs) ! j)) = rep key"
      if "j' < length xs" "rep (fst (xs ! j')) = rep key" for j'
      using that by (intro exI [of _ "Suc j'"]) simp
    ultimately show ?thesis
      using Cons [of "Suc i"] False by (elim disjE) auto
  qed
qed simp

lemma find_index:
  assumes "lawful K rep"
  obtains "hamt_node_collision_find_index K xs key = F_NOT_FOUND" and "rep key \<notin> set (map (rep \<circ> fst) xs)"
  | j where "j < length xs" and "hamt_node_collision_find_index K xs key = F_FOUND j" and "rep (fst (xs ! j)) = rep key"
  using collision_find_from [OF assms, of key 0 xs] by (auto simp: hamt_node_collision_find_index_def)

definition assoc_of :: "('k \<Rightarrow> 'r) \<Rightarrow> ('k \<times> 'v) list \<Rightarrow> ('r \<times> 'v) list" where
  "assoc_of rep xs = map (\<lambda>(k, v). (rep k, v)) xs"

lemma map_of_assoc:
  assumes "distinct (map (rep \<circ> fst) xs)" and "j < length xs"
  shows "map_of (assoc_of rep xs) (rep (fst (xs ! j))) = Some (snd (xs ! j))"
proof -
  have "map fst (assoc_of rep xs) = map (rep \<circ> fst) xs"
    by (auto simp: assoc_of_def)
  moreover have "(rep (fst (xs ! j)), snd (xs ! j)) \<in> set (assoc_of rep xs)"
    using assms(2) by (auto simp: assoc_of_def split_beta intro!: image_eqI [of _ _ "xs ! j"])
  ultimately show ?thesis
    using assms(1) by (simp add: map_of_is_SomeI)
qed

lemma map_of_assoc_None: "r \<notin> set (map (rep \<circ> fst) xs) \<Longrightarrow> map_of (assoc_of rep xs) r = None"
  by (force simp: map_of_eq_None_iff assoc_of_def)

lemma find_collision:
  assumes "lawful K rep" and "distinct (map (rep \<circ> fst) xs)"
  shows "hamt_node_collision_find K xs key = found (map_of (assoc_of rep xs) (rep key))"
proof (cases rule: find_index [OF assms(1), of xs key])
  case 1
  then show ?thesis by (simp add: hamt_node_collision_find_def map_of_assoc_None)
next
  case (2 j)
  then show ?thesis
    using map_of_assoc [OF assms(2) 2(1)] by (simp add: hamt_node_collision_find_def)
qed

lemma find_bitmap:
  assumes "length sl = popcount32 bm" and "l \<le> 6"
  shows "hamt_node_find K (Bitmap_Node bm sl) (5 * l) hash key =
    (case entry bm sl (pos hash l) of
       None \<Rightarrow> Some F_NOT_FOUND
     | Some (Sub n) \<Rightarrow> hamt_node_find K n (5 * Suc l) hash key
     | Some (Item k v) \<Rightarrow> Some (case py_eq K key k of
         None \<Rightarrow> F_ERROR | Some True \<Rightarrow> F_FOUND v | Some False \<Rightarrow> F_NOT_FOUND))"
proof (cases "bit bm (pos hash l)")
  case True
  with entry_item [OF assms(1) True] show ?thesis
    by (auto simp: hamt_node_find.simps [of K "Bitmap_Node bm sl"] hamt_node_bitmap_find.simps [of K bm] hamt_bitpos_pos [OF assms(2)] and_one_bit [OF pos_lt] five
        split: slot.split)
next
  case False
  then show ?thesis
    by (simp add: hamt_node_find.simps hamt_node_bitmap_find.simps hamt_bitpos_pos [OF assms(2)] and_one_bit [OF pos_lt]
        entry_None)
qed

lemma find_array:
  assumes "length arr = 32" and "l \<le> 6"
  shows "hamt_node_find K (Array_Node arr count) (5 * l) hash key =
    (case arr ! pos hash l of None \<Rightarrow> Some F_NOT_FOUND | Some n \<Rightarrow> hamt_node_find K n (5 * Suc l) hash key)"
  using assms pos_lt [of hash l]
  by (simp add: hamt_node_find.simps [of K "Array_Node arr count"] hamt_node_array_find.simps hamt_mask_pos item_at_def five
      split: option.split)

lemma look_bitmap:
  assumes "lawful K rep" and "length sl = popcount32 bm" and "l \<le> 6"
  shows "look K l (Bitmap_Node bm sl) k =
    (case entry bm sl (pos (hamt_hash K k) l) of None \<Rightarrow> None | Some x \<Rightarrow> look_slot K rep (Suc l) x k)"
  using assms by (auto simp: look_def find_bitmap lawful_eq split: option.split slot.split bool.split)

lemma look_array:
  assumes "length arr = 32" and "l \<le> 6"
  shows "look K l (Array_Node arr count) k =
    (case arr ! pos (hamt_hash K k) l of None \<Rightarrow> None | Some n \<Rightarrow> look K (Suc l) n k)"
  using assms by (simp add: look_def find_array split: option.split)

lemma look_collision:
  assumes "lawful K rep" and "distinct (map (rep \<circ> fst) xs)"
  shows "look K l (Collision_Node h xs) k = map_of (assoc_of rep xs) (rep k)"
  by (simp add: look_def hamt_node_find.simps find_collision [OF assms] found_def split: option.split)

lemma find_look:
  fixes n :: "('k, 'v) node" and x :: "('k, 'v) slot"
  shows "wf_node K rep p n \<Longrightarrow> lawful K rep \<Longrightarrow>
    hamt_node_find K n (5 * length p) (hamt_hash K k) k = Some (found (look K (length p) n k))"
  and "wf_slot K rep q x \<Longrightarrow> lawful K rep \<Longrightarrow>
    case x of Item _ _ \<Rightarrow> True
    | Sub n \<Rightarrow> hamt_node_find K n (5 * length q) (hamt_hash K k) k = Some (found (look K (length q) n k))"
proof (induction rule: wf_node_wf_slot.inducts)
  case (wf_bitmap p sl bm)
  show ?case
  proof (cases "entry bm sl (pos (hamt_hash K k) (length p))")
    case None
    with wf_bitmap(1,2) show ?thesis by (simp add: find_bitmap look_def)
  next
    case (Some x)
    from wf_bitmap(5) [OF Some] wf_bitmap(6) have "case x of Item _ _ \<Rightarrow> True
        | Sub n \<Rightarrow> hamt_node_find K n (5 * Suc (length p)) (hamt_hash K k) k = Some (found (look K (Suc (length p)) n k))"
      by (auto split: slot.splits)
    with Some wf_bitmap(1,2,6) show ?thesis
      by (auto simp: find_bitmap look_bitmap [OF wf_bitmap(6)] lawful_eq split: slot.splits)
  qed
next
  case (wf_array p arr count)
  then show ?case
    using pos_lt [of "hamt_hash K k" "length p"]
    by (auto simp: find_array look_array split: option.split)
next
  case (wf_collision p h xs)
  then show ?case by (simp add: hamt_node_find.simps look_collision find_collision)
qed simp_all

end
