(* ===== verification/Hamt_Assoc.thy ===== *)
theory Hamt_Assoc
  imports Hamt_Wf
begin

text \<open>Setting a key in a well-formed trie.\<close>

subsection \<open>Small nodes\<close>

definition single :: "'k keyops \<Rightarrow> nat \<Rightarrow> 'k \<Rightarrow> 'v \<Rightarrow> ('k, 'v) node" where
  "single K l k v = Bitmap_Node (bitpos (pos (hamt_hash K k) l)) [Item k v]"

lemma bits_bitpos [simp]: "i < 32 \<Longrightarrow> bits (bitpos i) = [i]"
  using bits_split [of i 0] by (auto simp: bits_def exp_bitpos)

lemma entry_bitpos [simp]: "i < 32 \<Longrightarrow> entry (bitpos i) [x] = [i \<mapsto> x]"
  by (simp add: entry_def)

lemma popcount32_bitpos [simp]: "i < 32 \<Longrightarrow> popcount32 (bitpos i) = 1"
  by (simp add: popcount32_bits)

lemma entry_0 [simp]: "entry 0 sl = Map.empty"
  by (simp add: entry_def bits_def)

lemma popcount32_0 [simp]: "popcount32 0 = 0"
  by (simp add: popcount32_def)

lemma assoc_empty:
  assumes "l \<le> 6"
  shows "hamt_node_bitmap_assoc K 0 [] (5 * l) (hamt_hash K k) k v = Some (A_NEW True (single K l k v))"
  using assms by (simp add: hamt_node_bitmap_assoc.simps [of K 0] hamt_bitpos_pos single_def)

lemma wf_bitpos:
  assumes "length p \<le> 6" and "i < 32" and "wf_slot K rep (p @ [i]) x"
  shows "wf_node K rep p (Bitmap_Node (bitpos i) [x])"
  using assms by (intro wf_bitmap) (auto split: if_splits)

lemma wf_single:
  assumes "length p \<le> 6" and "path (hamt_hash K k) (length p) = p"
  shows "wf_node K rep p (single K (length p) k v)"
  unfolding single_def using assms by (intro wf_bitpos pos_lt) (simp_all add: path_Suc)

lemma look_single:
  assumes "lawful K rep" and "l \<le> 6"
  shows "look K l (single K l a v) k = (if rep a = rep k then Some v else None)"
  using lawful_hash_eq [OF assms(1), of a k]
  by (auto simp: single_def look_bitmap [OF assms(1) _ assms(2)] pos_lt)

lemma look_thin:
  assumes "lawful K rep" and "thin (Bitmap_Node bm sl)" and "length sl = popcount32 bm" and "l \<le> 6"
    and "look K l (Bitmap_Node bm sl) a \<noteq> None" and "look K l (Bitmap_Node bm sl) b \<noteq> None"
  shows "rep a = rep b"
proof -
  have "\<exists>k v. x = Item k v \<and> sl = [x]" if "entry bm sl i = Some x" for i x
    using that assms(2) by (cases "Bitmap_Node bm sl" rule: thin.cases) (auto simp: entry_def dest!: map_of_SomeD set_zip_rightD)
  note one = this
  have "\<exists>k v. sl = [Item k v] \<and> rep k = rep a" if f: "look K l (Bitmap_Node bm sl) a \<noteq> None" for a
  proof (cases "entry bm sl (pos (hamt_hash K a) l)")
    case None
    with f show ?thesis by (simp add: look_bitmap [OF assms(1,3,4)])
  next
    case (Some x)
    with f one [OF Some] show ?thesis by (auto simp: look_bitmap [OF assms(1,3,4)] split: if_splits)
  qed
  from this [OF assms(5)] this [OF assms(6)] show ?thesis by auto
qed

subsection \<open>Replacing one entry\<close>

text \<open>What it means that a node answers as \<open>n\<close> does, but with \<open>v\<close> for the key \<open>k\<close>.\<close>

definition updated :: "'k keyops \<Rightarrow> ('k \<Rightarrow> 'r) \<Rightarrow> nat \<Rightarrow> ('k, 'v) node \<Rightarrow> ('k, 'v) node \<Rightarrow> 'k \<Rightarrow> 'v option \<Rightarrow> bool" where
  "updated K rep l n n' k v \<longleftrightarrow> (\<forall>k'. look K l n' k' = (if rep k' = rep k then v else look K l n k'))"

lemma put_slot:
  assumes K: "lawful K rep" and wf: "wf_node K rep p (Bitmap_Node bm sl)" and l: "l = length p"
    and k: "i = pos (hamt_hash K k) l"
    and e: "entry bm' sl' = (entry bm sl)(i := y)" "length sl' = popcount32 bm'" "popcount32 bm' \<le> 16"
    and x: "\<And>x. y = Some x \<Longrightarrow> wf_slot K rep (p @ [i]) x"
      "\<And>k'. pos (hamt_hash K k') l = i \<Longrightarrow> (case y of None \<Rightarrow> None | Some x \<Rightarrow> look_slot K rep (Suc l) x k') =
        (if rep k' = rep k then v else look K l (Bitmap_Node bm sl) k')"
  shows "wf_node K rep p (Bitmap_Node bm' sl')" and "updated K rep l (Bitmap_Node bm sl) (Bitmap_Node bm' sl') k v"
proof -
  from wf l have l6: "l \<le> 6" "length sl = popcount32 bm"
    and s: "\<And>j x. entry bm sl j = Some x \<Longrightarrow> wf_slot K rep (p @ [j]) x"
    by (auto elim: wf_bitmapE)
  show "wf_node K rep p (Bitmap_Node bm' sl')"
    using l6 l e s x(1) by (intro wf_bitmap) (auto split: if_splits)
  show "updated K rep l (Bitmap_Node bm sl) (Bitmap_Node bm' sl') k v"
    unfolding updated_def
  proof (intro allI)
    fix k'
    show "look K l (Bitmap_Node bm' sl') k' = (if rep k' = rep k then v else look K l (Bitmap_Node bm sl) k')"
    proof (cases "pos (hamt_hash K k') l = i")
      case True
      then show ?thesis
        using x(2) [OF True] by (simp add: look_bitmap [OF K e(2) l6(1)] e(1))
    next
      case False
      with lawful_hash_eq [OF K, of k' k] k have "rep k' \<noteq> rep k" by auto
      with False show ?thesis
        by (simp add: look_bitmap [OF K _ l6(1)] l6(2) e(1,2))
    qed
  qed
qed

definition children :: "'a option list \<Rightarrow> int" where
  "children arr = int (length (filter (\<lambda>x. x \<noteq> None) arr))"

lemma children_simps: "children [] = 0" "children (x # arr) = (if x = None then 0 else 1) + children arr"
  by (simp_all add: children_def)

lemma children_update:
  "i < length arr \<Longrightarrow> children (arr[i := y]) =
    children arr - (if arr ! i = None then 0 else 1) + (if y = None then 0 else 1)"
proof (induction arr arbitrary: i)
  case (Cons x arr)
  then show ?case
    by (cases i) (simp_all add: children_simps)
qed simp

lemma put_child:
  assumes K: "lawful K rep" and wf: "wf_node K rep p (Array_Node arr count)" and l: "l = length p"
    and k: "i = pos (hamt_hash K k) l"
    and n: "\<And>n. y = Some n \<Longrightarrow> wf_node K rep (p @ [i]) n" "\<And>n. y = Some n \<Longrightarrow> \<not> is_empty n"
    and c: "count' = children (arr[i := y])" "16 \<le> count'"
    and x: "\<And>k'. pos (hamt_hash K k') l = i \<Longrightarrow> (case y of None \<Rightarrow> None | Some n \<Rightarrow> look K (Suc l) n k') =
        (if rep k' = rep k then v else look K l (Array_Node arr count) k')"
  shows "wf_node K rep p (Array_Node (arr[i := y]) count')"
    and "updated K rep l (Array_Node arr count) (Array_Node (arr[i := y]) count') k v"
proof -
  from wf l have l6: "l \<le> 5" "length arr = 32"
    and s: "\<And>j x. j < 32 \<Longrightarrow> arr ! j = Some x \<Longrightarrow> wf_node K rep (p @ [j]) x"
      "\<And>j x. j < 32 \<Longrightarrow> arr ! j = Some x \<Longrightarrow> \<not> is_empty x"
    by (auto elim: wf_arrayE)
  show "wf_node K rep p (Array_Node (arr[i := y]) count')"
    using l6 l c s n by (intro wf_array) (auto simp: nth_list_update k pos_lt children_def split: if_splits)
  show "updated K rep l (Array_Node arr count) (Array_Node (arr[i := y]) count') k v"
    unfolding updated_def
  proof (intro allI)
    fix k'
    have i: "i < 32" unfolding k by (rule pos_lt)
    show "look K l (Array_Node (arr[i := y]) count') k' =
        (if rep k' = rep k then v else look K l (Array_Node arr count) k')"
    proof (cases "pos (hamt_hash K k') l = i")
      case True
      then show ?thesis
        using x [OF True] i l6 by (simp add: look_array)
    next
      case False
      with lawful_hash_eq [OF K, of k' k] k have "rep k' \<noteq> rep k" by auto
      with False show ?thesis
        using l6 by (simp add: look_array)
    qed
  qed
qed

subsection \<open>Setting a key at one level, given the levels below\<close>

definition assoc_result ::
    "'k keyops \<Rightarrow> ('k \<Rightarrow> 'r) \<Rightarrow> nat list \<Rightarrow> ('k, 'v) node \<Rightarrow> 'k \<Rightarrow> 'v \<Rightarrow> ('k, 'v) node assoc option \<Rightarrow> bool" where
  "assoc_result K rep p n k v r =
     (case r of
        None \<Rightarrow> False
      | Some A_ERROR \<Rightarrow> False
      | Some A_SELF \<Rightarrow> look K (length p) n k = Some v
      | Some (A_NEW leaf n') \<Rightarrow> wf_node K rep p n' \<and> \<not> is_empty n' \<and> (\<not> thin n \<longrightarrow> \<not> thin n')
          \<and> leaf = (look K (length p) n k = None) \<and> updated K rep (length p) n n' k (Some v))"

definition assoc_ok :: "'k keyops \<Rightarrow> ('k \<Rightarrow> 'r) \<Rightarrow> nat \<Rightarrow> ('k \<times> 'v) itself \<Rightarrow> bool" where
  "assoc_ok K rep l _ \<longleftrightarrow> (\<forall>p (n :: ('k, 'v) node) k v. length p = l \<longrightarrow> wf_node K rep p n \<longrightarrow> path (hamt_hash K k) l = p
     \<longrightarrow> assoc_result K rep p n k v (hamt_node_assoc K n (5 * l) (hamt_hash K k) k v))"

lemma assoc_resultE:
  assumes "assoc_result K rep p n k v r"
  obtains "r = Some A_SELF" and "look K (length p) n k = Some v"
  | leaf n' where "r = Some (A_NEW leaf n')" and "wf_node K rep p n'" and "\<not> is_empty n'" and "\<not> thin n \<longrightarrow> \<not> thin n'"
    and "leaf = (look K (length p) n k = None)" and "updated K rep (length p) n n' k (Some v)"
  using assms by (auto simp: assoc_result_def split: option.splits assoc.splits)

lemma updated_look: "updated K rep l n n' k v \<Longrightarrow> look K l n' k' = (if rep k' = rep k then v else look K l n k')"
  by (simp add: updated_def)

lemma new_node_ok:
  assumes K: "lawful K rep" and IH: "assoc_ok K rep l TYPE('k \<times> 'v)" and l: "length p = l" "l \<le> 7"
    and a: "path (hamt_hash K a) l = p" and k: "path (hamt_hash K k) l = p" and ne: "rep a \<noteq> rep k"
  obtains n :: "('k, 'v) node" where
    "hamt_node_new_bitmap_or_collision K (5 * l) a w (hamt_hash K k) k v = Some (Some n)"
    and "wf_node K rep p n" and "\<not> thin n"
    and "\<And>k'. look K l n k' = (if rep k' = rep k then Some v else if rep k' = rep a then Some w else None)"
proof (cases "hamt_hash K a = hamt_hash K k")
  case True
  let ?n = "Collision_Node (hamt_hash K k) [(a, w), (k, v)]"
  show thesis
  proof (rule that [of ?n])
    show "hamt_node_new_bitmap_or_collision K (5 * l) a w (hamt_hash K k) k v = Some (Some ?n)"
      by (simp add: hamt_node_new_bitmap_or_collision.simps lawful_hash [OF K] True)
    show "wf_node K rep p ?n"
      using l k ne True by (intro wf_collision) auto
    show "look K l ?n k' = (if rep k' = rep k then Some v else if rep k' = rep a then Some w else None)" for k'
      using ne by (subst look_collision [OF K]) (auto simp: assoc_of_def)
  qed simp
next
  case False
  with a k l have l6: "l \<le> 6"
    using path_7 [of "hamt_hash K a" "hamt_hash K k"] by (cases "l = 7") auto
  let ?n2 = "single K l a w"
  have n2: "hamt_node_assoc K empty_node (5 * l) (hamt_hash K a) a w = Some (A_NEW True ?n2)"
    by (simp add: hamt_node_assoc.simps assoc_empty [OF l6])
  have "wf_node K rep p ?n2"
    using wf_single [of p K a rep w] l6 l a by simp
  then have "assoc_result K rep p ?n2 k v (hamt_node_assoc K ?n2 (5 * l) (hamt_hash K k) k v)"
    using IH l k by (simp add: assoc_ok_def)
  then show thesis
  proof (cases rule: assoc_resultE)
    case 1
    with l ne look_single [OF K l6, of a w k] show ?thesis by simp
  next
    case (2 leaf n)
    have look: "look K l n k' = (if rep k' = rep k then Some v else if rep k' = rep a then Some w else None)" for k'
      using updated_look [OF 2(6), of k'] look_single [OF K l6, of a w k'] l by auto
    show ?thesis
    proof (rule that [OF _ 2(2) _ look])
      show "hamt_node_new_bitmap_or_collision K (5 * l) a w (hamt_hash K k) k v = Some (Some n)"
        using n2 2(1) False lawful_hash [OF K, of a] by (simp add: hamt_node_new_bitmap_or_collision.simps)
      show "\<not> thin n"
      proof
        assume "thin n"
        moreover from this obtain bm sl where n: "n = Bitmap_Node bm sl"
          by (cases n rule: thin.cases) auto
        moreover have "length sl = popcount32 bm"
          using 2(2) n by (auto elim: wf_bitmapE)
        ultimately have "rep a = rep k"
          using look_thin [OF K _ _ l6, of bm sl a k] look [of a] look [of k] by simp
        with ne show False ..
      qed
    qed
  qed
qed

lemma assoc_result_new:
  assumes "wf_node K rep p n'" and "\<not> is_empty n'" and "\<not> thin n \<Longrightarrow> \<not> thin n'"
    and "leaf \<longleftrightarrow> look K (length p) n k = None" and "updated K rep (length p) n n' k (Some v)"
  shows "assoc_result K rep p n k v (Some (A_NEW leaf n'))"
  using assms by (simp add: assoc_result_def)

text \<open>A position that is free in a bitmap node with room for one more entry.\<close>

lemma bitmap_insert_ok:
  fixes sl :: "('k, 'v) slot list"
  assumes K: "lawful K rep" and wf: "wf_node K rep p (Bitmap_Node bm sl)" and k: "path (hamt_hash K k) (length p) = p"
    and i: "i = pos (hamt_hash K k) (length p)" "\<not> bit bm i" and c: "popcount32 bm < 16"
  defines "r \<equiv> hamt_bitindex bm (bitpos i)"
  shows "assoc_result K rep p (Bitmap_Node bm sl) k v
    (Some (A_NEW True (Bitmap_Node (bm OR bitpos i) (take r sl @ Item k v # drop r sl))))"
proof -
  let ?sl = "take r sl @ Item k v # drop r sl"
  from wf have l: "length p \<le> 6" "length sl = popcount32 bm" by (auto elim: wf_bitmapE)
  have i32: "i < 32" unfolding i(1) by (rule pos_lt)
  have e: "entry (bm OR bitpos i) ?sl = (entry bm sl)(i \<mapsto> Item k v)"
      "popcount32 (bm OR bitpos i) = Suc (popcount32 bm)"
    using entry_insert(1) [OF l(2) i(2) i32, of "Item k v"] entry_insert(2) [OF l(2) i(2) i32] by (simp_all add: r_def)
  have len: "length ?sl = Suc (length sl)" by simp
  have none: "look K (length p) (Bitmap_Node bm sl) k' = None" if "pos (hamt_hash K k') (length p) = i" for k'
    using that i(2) by (simp add: look_bitmap [OF K l(2,1)] entry_None)
  have "length ?sl = popcount32 (bm OR bitpos i)" "popcount32 (bm OR bitpos i) \<le> 16"
    using len l(2) c e(2) by simp_all
  note put = put_slot [OF K wf refl i(1) e(1) this]
  have slot: "wf_slot K rep (p @ [i]) (Item k v)"
    using k i(1) by (simp add: path_Suc)
  show ?thesis
  proof (rule assoc_result_new)
    show "wf_node K rep p (Bitmap_Node (bm OR bitpos i) ?sl)"
      "updated K rep (length p) (Bitmap_Node bm sl) (Bitmap_Node (bm OR bitpos i) ?sl) k (Some v)"
      by (rule put; use slot none in auto)+
    show "\<not> is_empty (Bitmap_Node (bm OR bitpos i) ?sl)"
      using len by (cases ?sl) auto
    show "\<not> thin (Bitmap_Node (bm OR bitpos i) ?sl)" if "\<not> thin (Bitmap_Node bm sl)"
    proof -
      from that have "sl \<noteq> []" by auto
      with len obtain x y zs where "?sl = x # y # zs"
        by (metis length_Suc_conv list.exhaust)
      then show ?thesis by simp
    qed
    show "True \<longleftrightarrow> look K (length p) (Bitmap_Node bm sl) k = None"
      using none [of k] i(1) by simp
  qed
qed

text \<open>A full bitmap node becomes an array node.\<close>

lemma look_child_of:
  assumes "lawful K rep" and "l \<le> 6"
  shows "look K l (child_of (single K l) x) k = look_slot K rep l x k"
  by (cases x) (simp_all add: look_single [OF assms])

lemma wf_child_of:
  assumes "wf_slot K rep p x" and "length p \<le> 6"
  shows "wf_node K rep p (child_of (single K (length p)) x)" and "\<not> is_empty (child_of (single K (length p)) x)"
proof -
  show "wf_node K rep p (child_of (single K (length p)) x)"
    using assms by (cases x) (auto intro: wf_single)
  show "\<not> is_empty (child_of (single K (length p)) x)"
    using assms by (cases x) (auto simp: single_def dest: is_empty_thin)
qed

lemma children_card: "children arr = int (card {j. j < length arr \<and> arr ! j \<noteq> None})"
  by (simp add: children_def length_filter_conv_card)

lemma to_array_ok:
  fixes sl :: "('k, 'v) slot list"
  assumes K: "lawful K rep" and wf: "wf_node K rep p (Bitmap_Node bm sl)" and k: "path (hamt_hash K k) (length p) = p"
    and i: "i = pos (hamt_hash K k) (length p)" "\<not> bit bm i" and c: "16 \<le> popcount32 bm"
    and arr: "length arr = 32"
      "\<And>j. j < 32 \<Longrightarrow> arr ! j = (case entry bm sl j of
          None \<Rightarrow> (replicate 32 None)[i := Some (single K (Suc (length p)) k v)] ! j
        | Some x \<Rightarrow> Some (child_of (single K (Suc (length p))) x))"
  shows "assoc_result K rep p (Bitmap_Node bm sl) k v (Some (A_NEW True (Array_Node arr (int (popcount32 bm) + 1))))"
    (is "assoc_result K rep p ?n k v (Some (A_NEW True ?n'))")
proof -
  let ?l = "length p"
  let ?e = "(entry bm sl)(i \<mapsto> Item k v)"
  have "?l \<le> 6" and sl: "length sl = popcount32 bm"
    and s: "\<And>i x. entry bm sl i = Some x \<Longrightarrow> wf_slot K rep (p @ [i]) x"
    using wf by (auto elim!: wf_bitmapE)
  with c last_level [OF wf] have l: "?l \<le> 5"
    by (cases "?l = 6") auto
  have i32: "i < 32" unfolding i(1) by (rule pos_lt)
  have arr': "arr ! j = map_option (child_of (single K (Suc ?l))) (?e j)" if "j < 32" for j
    using arr(2) [OF that] that i(2) by (auto simp: entry_None nth_list_update split: option.split)
  have slot: "wf_slot K rep (p @ [j]) x" if "?e j = Some x" for j x
    using that s k i(1) by (auto simp: path_Suc split: if_splits)
  have "{j. j < 32 \<and> arr ! j \<noteq> None} = insert i (set (bits bm))"
  proof (rule set_eqI)
    fix j
    show "j \<in> {j. j < 32 \<and> arr ! j \<noteq> None} \<longleftrightarrow> j \<in> insert i (set (bits bm))"
      using arr' [of j] i32 entry_item(2) [OF sl, of j] entry_None [of bm j sl] bit_lt [of bm j]
      by (cases "j = i"; cases "bit bm j") (auto simp: set_bits)
  qed
  then have count: "children arr = int (popcount32 bm) + 1"
    using i(2) by (simp add: children_card arr(1) set_bits popcount32_bits distinct_card [symmetric])
  have look: "look K ?l ?n' k' = (case ?e (pos (hamt_hash K k') ?l) of None \<Rightarrow> None | Some x \<Rightarrow> look_slot K rep (Suc ?l) x k')"
    for k'
    using arr' [OF pos_lt] l by (simp add: look_array arr(1) look_child_of [OF K] look_single [OF K] split: option.split)
  show ?thesis
  proof (rule assoc_result_new)
    show "wf_node K rep p ?n'"
    proof (rule wf_array [OF l arr(1)])
      show "int (popcount32 bm) + 1 = int (length (filter (\<lambda>x. x \<noteq> None) arr))"
        using count by (simp add: children_def)
      fix j n
      assume "j < 32" "arr ! j = Some n"
      then obtain x where x: "?e j = Some x" "n = child_of (single K (Suc ?l)) x"
        using arr' [of j] by (cases "?e j") (simp_all del: fun_upd_apply)
      from wf_child_of [OF slot [OF x(1)]] l show "wf_node K rep (p @ [j]) n" "\<not> is_empty n"
        by (simp_all add: x(2))
    next
    qed (use c in simp)
    show "True \<longleftrightarrow> look K ?l ?n k = None"
      using i l by (simp add: look_bitmap [OF K sl] entry_None)
    show "updated K rep ?l ?n ?n' k (Some v)"
      unfolding updated_def
    proof (intro allI)
      fix k'
      show "look K ?l ?n' k' = (if rep k' = rep k then Some v else look K ?l ?n k')"
        using lawful_hash_eq [OF K, of k' k] i l by (auto simp: look look_bitmap [OF K sl] entry_None)
    qed
  qed simp_all
qed

text \<open>A lookup depends on what the key stands for only.\<close>

lemma look_rep:
  fixes n :: "('k, 'v) node" and x :: "('k, 'v) slot"
  shows "wf_node K rep p n \<Longrightarrow> lawful K rep \<Longrightarrow> rep a = rep b \<Longrightarrow> look K (length p) n a = look K (length p) n b"
    and "wf_slot K rep q x \<Longrightarrow> lawful K rep \<Longrightarrow> rep a = rep b \<Longrightarrow>
      look_slot K rep (length q) x a = look_slot K rep (length q) x b"
proof (induction rule: wf_node_wf_slot.inducts)
  case (wf_bitmap p sl bm)
  then show ?case
    using lawful_hash_eq [OF wf_bitmap(6,7)] by (simp add: look_bitmap [OF wf_bitmap(6,2,1)] split: option.split)
next
  case (wf_array p arr count)
  then show ?case
    using lawful_hash_eq [OF wf_array(8,9)] pos_lt [of "hamt_hash K b" "length p"]
    by (auto simp: look_array split: option.split)
next
  case (wf_collision p h xs)
  then show ?case by (simp add: look_collision)
qed simp_all

text \<open>One level of each kind of node.\<close>

lemma bitmap_replace_ok:
  fixes sl :: "('k, 'v) slot list"
  assumes K: "lawful K rep" and wf: "wf_node K rep p (Bitmap_Node bm sl)" and k: "path (hamt_hash K k) (length p) = p"
    and i: "i = pos (hamt_hash K k) (length p)" "bit bm i"
    and x: "wf_slot K rep (p @ [i]) x" "\<not> thin (Bitmap_Node bm sl) \<Longrightarrow> length sl = 1 \<Longrightarrow> \<exists>n. x = Sub n"
      "\<And>k'. pos (hamt_hash K k') (length p) = i \<Longrightarrow> look_slot K rep (Suc (length p)) x k' =
        (if rep k' = rep k then Some v else look K (length p) (Bitmap_Node bm sl) k')"
  shows "leaf = (look K (length p) (Bitmap_Node bm sl) k = None) \<Longrightarrow> assoc_result K rep p (Bitmap_Node bm sl) k v
    (Some (A_NEW leaf (Bitmap_Node bm (sl[hamt_bitindex bm (bitpos i) := x]))))"
proof (rule assoc_result_new)
  let ?sl = "sl[hamt_bitindex bm (bitpos i) := x]"
  from wf have sl: "length sl = popcount32 bm" and c: "popcount32 bm \<le> 16" by (auto elim: wf_bitmapE)
  from sl have sl': "length ?sl = popcount32 bm" by simp
  note put = put_slot [OF K wf refl i(1) entry_set [OF sl i(2)] sl' c]
  show "wf_node K rep p (Bitmap_Node bm ?sl)" "updated K rep (length p) (Bitmap_Node bm sl) (Bitmap_Node bm ?sl) k (Some v)"
    by (rule put; use x in auto)+
  have "hamt_bitindex bm (bitpos i) < length sl"
    using entry_remove(3) [OF sl i(2)] .
  then show "\<not> is_empty (Bitmap_Node bm ?sl)"
    by (cases sl; cases "hamt_bitindex bm (bitpos i)") auto
  show "\<not> thin (Bitmap_Node bm ?sl)" if "\<not> thin (Bitmap_Node bm sl)"
    using that x(2) [OF that] \<open>hamt_bitindex bm (bitpos i) < length sl\<close>
    by (cases sl rule: remdups_adj.cases; cases "hamt_bitindex bm (bitpos i)") (auto split: nat.split)
qed

lemma wf_bitmapD:
  assumes "wf_node K rep p (Bitmap_Node bm sl)"
  shows "length p \<le> 6" and "length sl = popcount32 bm" and "popcount32 bm \<le> 16"
    and "entry bm sl i = Some x \<Longrightarrow> wf_slot K rep (p @ [i]) x"
  using assms by (auto elim: wf_bitmapE)

lemma bitmap_sub_ok:
  fixes sl :: "('k, 'v) slot list"
  assumes K: "lawful K rep" and IH: "assoc_ok K rep (Suc l) TYPE('k \<times> 'v)" and l: "length p = l"
    and wf: "wf_node K rep p (Bitmap_Node bm sl)" and k: "path (hamt_hash K k) l = p"
    and i: "i = pos (hamt_hash K k) l" and x: "entry bm sl i = Some (Sub child)"
  shows "assoc_result K rep p (Bitmap_Node bm sl) k v
    (map_option (\<lambda>r. case r of A_ERROR \<Rightarrow> A_ERROR | A_SELF \<Rightarrow> A_SELF
        | A_NEW leaf n \<Rightarrow> A_NEW leaf (Bitmap_Node bm (sl[hamt_bitindex bm (bitpos i) := Sub n])))
      (hamt_node_assoc K child (5 * Suc l) (hamt_hash K k) k v))"
proof -
  note w = wf_bitmapD [OF wf, unfolded l]
  have i': "i = pos (hamt_hash K k) (length p)" by (simp add: i l)
  have bit: "bit bm i" using x entry_None [of bm i sl] by auto
  have child: "wf_node K rep (p @ [i]) child" "\<not> thin child"
    using w(4) [OF x] by auto
  have look: "look K l (Bitmap_Node bm sl) k' = look K (Suc l) child k'" if "pos (hamt_hash K k') l = i" for k'
    using that x by (simp add: look_bitmap [OF K w(2,1)])
  have "path (hamt_hash K k) (Suc l) = p @ [i]" using k by (simp add: path_Suc i)
  with child have "assoc_result K rep (p @ [i]) child k v (hamt_node_assoc K child (5 * Suc l) (hamt_hash K k) k v)"
    using IH l by (simp add: assoc_ok_def)
  then show ?thesis
  proof (cases rule: assoc_resultE)
    case 1
    then show ?thesis
      using look [OF i [symmetric]] l by (simp add: assoc_result_def)
  next
    case (2 leaf n)
    have "assoc_result K rep p (Bitmap_Node bm sl) k v
        (Some (A_NEW leaf (Bitmap_Node bm (sl[hamt_bitindex bm (bitpos i) := Sub n]))))"
    proof (rule bitmap_replace_ok [OF K wf _ i' bit, unfolded l, OF k])
      show "wf_slot K rep (p @ [i]) (Sub n)" using 2 child by simp
      show "look_slot K rep (Suc l) (Sub n) k' = (if rep k' = rep k then Some v else look K l (Bitmap_Node bm sl) k')"
        if "pos (hamt_hash K k') l = i" for k'
        using look [OF that] 2(6) l by (simp add: updated_look)
      show "leaf = (look K l (Bitmap_Node bm sl) k = None)"
        using look [OF i [symmetric]] 2(5) l by simp
    qed blast
    then show ?thesis
      using 2(1) by simp
  qed
qed

lemma bitmap_item_ok:
  fixes sl :: "('k, 'v) slot list"
  assumes K: "lawful K rep" and IH: "assoc_ok K rep (Suc l) TYPE('k \<times> 'v)" and l: "length p = l"
    and wf: "wf_node K rep p (Bitmap_Node bm sl)" and k: "path (hamt_hash K k) l = p"
    and i: "i = pos (hamt_hash K k) l" and x: "entry bm sl i = Some (Item a w)"
  shows "rep k = rep a \<Longrightarrow> assoc_result K rep p (Bitmap_Node bm sl) k v
      (if v = w then Some A_SELF else Some (A_NEW False (Bitmap_Node bm (sl[hamt_bitindex bm (bitpos i) := Item a v]))))"
    and "rep k \<noteq> rep a \<Longrightarrow> assoc_result K rep p (Bitmap_Node bm sl) k v
      (map_option (\<lambda>r. case r of None \<Rightarrow> A_ERROR
          | Some n \<Rightarrow> A_NEW True (Bitmap_Node bm (sl[hamt_bitindex bm (bitpos i) := Sub n])))
        (hamt_node_new_bitmap_or_collision K (5 * Suc l) a w (hamt_hash K k) k v))"
proof -
  note w = wf_bitmapD [OF wf, unfolded l]
  have i': "i = pos (hamt_hash K k) (length p)" by (simp add: i l)
  have bit: "bit bm i" using x entry_None [of bm i sl] by auto
  have pi: "path (hamt_hash K k) (Suc l) = p @ [i]" using k by (simp add: path_Suc i)
  have a: "path (hamt_hash K a) (Suc l) = p @ [i]" using w(4) [OF x] l by simp
  have look: "look K l (Bitmap_Node bm sl) k' = (if rep a = rep k' then Some w else None)" if "pos (hamt_hash K k') l = i" for k'
    using that x by (simp add: look_bitmap [OF K w(2,1)])
  have thin: "thin (Bitmap_Node bm sl)" if "length sl = 1"
    using that x by (cases sl) (auto simp: entry_def dest!: map_of_SomeD set_zip_rightD)
  note replace = bitmap_replace_ok [OF K wf _ i' bit, unfolded l, OF k]
  { assume ka: "rep k = rep a"
    have "assoc_result K rep p (Bitmap_Node bm sl) k v
        (Some (A_NEW False (Bitmap_Node bm (sl[hamt_bitindex bm (bitpos i) := Item a v]))))"
    proof (rule replace)
      show "wf_slot K rep (p @ [i]) (Item a v)" using a l by simp
      show "look_slot K rep (Suc l) (Item a v) k' = (if rep k' = rep k then Some v else look K l (Bitmap_Node bm sl) k')"
        if "pos (hamt_hash K k') l = i" for k'
        using look [OF that] ka by simp
    qed (use thin look [OF i [symmetric]] ka in auto)
    then show "assoc_result K rep p (Bitmap_Node bm sl) k v
      (if v = w then Some A_SELF else Some (A_NEW False (Bitmap_Node bm (sl[hamt_bitindex bm (bitpos i) := Item a v]))))"
      using look [OF i [symmetric]] ka l by (simp add: assoc_result_def) }
  { assume ka: "rep k \<noteq> rep a"
    obtain n :: "('k, 'v) node" where n:
      "hamt_node_new_bitmap_or_collision K (5 * Suc l) a w (hamt_hash K k) k v = Some (Some n)"
      "wf_node K rep (p @ [i]) n" "\<not> thin n"
      "\<And>k'. look K (Suc l) n k' = (if rep k' = rep k then Some v else if rep k' = rep a then Some w else None)"
      using new_node_ok [OF K IH _ _ a pi, of w v] l w(1) ka by auto
    have "assoc_result K rep p (Bitmap_Node bm sl) k v
        (Some (A_NEW True (Bitmap_Node bm (sl[hamt_bitindex bm (bitpos i) := Sub n]))))"
    proof (rule replace)
      show "wf_slot K rep (p @ [i]) (Sub n)" using n by simp
      show "look_slot K rep (Suc l) (Sub n) k' = (if rep k' = rep k then Some v else look K l (Bitmap_Node bm sl) k')"
        if "pos (hamt_hash K k') l = i" for k'
        using look [OF that] n(4) [of k'] by simp
    qed (use look [OF i [symmetric]] ka in auto)
    with n(1) show "assoc_result K rep p (Bitmap_Node bm sl) k v
      (map_option (\<lambda>r. case r of None \<Rightarrow> A_ERROR
          | Some n \<Rightarrow> A_NEW True (Bitmap_Node bm (sl[hamt_bitindex bm (bitpos i) := Sub n])))
        (hamt_node_new_bitmap_or_collision K (5 * Suc l) a w (hamt_hash K k) k v))"
      by simp }
qed

lemma bitmap_full_ok:
  fixes sl :: "('k, 'v) slot list"
  assumes K: "lawful K rep" and l: "length p = l"
    and wf: "wf_node K rep p (Bitmap_Node bm sl)" and k: "path (hamt_hash K k) l = p"
    and i: "i = pos (hamt_hash K k) l" "\<not> bit bm i" and c: "16 \<le> popcount32 bm"
  shows "assoc_result K rep p (Bitmap_Node bm sl) k v (hamt_node_bitmap_assoc K bm sl (5 * l) (hamt_hash K k) k v)"
proof -
  note w = wf_bitmapD [OF wf, unfolded l]
  have i': "i = pos (hamt_hash K k) (length p)" by (simp add: i l)
  have l5: "Suc l \<le> 6"
    using last_level [OF wf] l w(1) c by (cases "l = 6") auto
  let ?arr = "(replicate 32 None)[i := Some (single K (Suc l) k v)]"
  have add: "hamt_node_assoc K empty_node (5 * Suc l) (hamt_hash K a) a w = Some (A_NEW True (single K (Suc l) a w))"
    for a and w :: 'v
    by (simp only: hamt_node_assoc.simps node.case assoc_empty [OF l5])
  then have "hamt_hash K a \<noteq> - 1
      \<and> hamt_node_assoc K empty_node (5 * Suc l) (hamt_hash K a) a w = Some (A_NEW True (single K (Suc l) a w))"
    for a and w :: 'v
    using lawful_hash [OF K] by blast
  from fill_array_ok [of sl K "\<lambda>h k v. hamt_node_assoc K empty_node (5 * Suc l) h k v" "single K (Suc l)" bm "[0..<32]" ?arr, OF this]
  obtain arr' where arr': "fill_array K (\<lambda>h k v. hamt_node_assoc K empty_node (5 * Suc l) h k v) bm [0..<32] sl True ?arr
        = Some (A_NEW True arr')" "length arr' = 32"
      "\<And>j. j < 32 \<Longrightarrow> arr' ! j = (case entry bm sl j of None \<Rightarrow> ?arr ! j | Some x \<Rightarrow> Some (child_of (single K (Suc l)) x))"
    using w(2) by (auto simp: popcount32_bits entry_def bits_def)
  have "assoc_result K rep p (Bitmap_Node bm sl) k v (Some (A_NEW True (Array_Node arr' (int (popcount32 bm) + 1))))"
    by (rule to_array_ok [OF K wf _ i' i(2) c arr'(2), unfolded l, OF k arr'(3)])
  then show ?thesis
    using i(2) c add [of k v] arr'(1) pos_lt [of "hamt_hash K k" l] w(1)
    by (simp add: hamt_node_bitmap_assoc.simps [of K bm] hamt_bitpos_pos hamt_mask_pos and_one_bit five HAMT_ARRAY_NODE_SIZE_def
        flip: i(1))
qed

lemma bitmap_ok:
  fixes sl :: "('k, 'v) slot list"
  assumes K: "lawful K rep" and IH: "assoc_ok K rep (Suc l) TYPE('k \<times> 'v)" and l: "length p = l"
    and wf: "wf_node K rep p (Bitmap_Node bm sl)" and k: "path (hamt_hash K k) l = p"
  shows "assoc_result K rep p (Bitmap_Node bm sl) k v (hamt_node_bitmap_assoc K bm sl (5 * l) (hamt_hash K k) k v)"
proof -
  define i where i: "i = pos (hamt_hash K k) l"
  note w = wf_bitmapD [OF wf, unfolded l]
  have i32: "i < 32" unfolding i by (rule pos_lt)
  note unfold = hamt_node_bitmap_assoc.simps [of K bm] hamt_bitpos_pos [OF w(1)] i [symmetric] and_one_bit [OF i32] five
  show ?thesis
  proof (cases "bit bm i")
    case True
    then obtain x where x: "entry bm sl i = Some x" "item_at sl (hamt_bitindex bm (bitpos i)) = Some x"
      using entry_item [OF w(2) True] by auto
    show ?thesis
    proof (cases x)
      case (Sub child)
      then show ?thesis
        using bitmap_sub_ok [OF K IH l wf k i, of child v] x True
        by (simp add: unfold map_option_case Option.bind_eq_Some_conv split: option.splits)
    next
      case (Item a w)
      then show ?thesis
        using bitmap_item_ok [OF K IH l wf k i, of a w v] x True
        by (cases "rep k = rep a") (simp_all add: unfold lawful_eq [OF K] map_option_case split: option.splits)
    qed
  next
    case False
    show ?thesis
    proof (cases "16 \<le> popcount32 bm")
      case True
      with False show ?thesis by (intro bitmap_full_ok [OF K l wf k i])
    next
      case no: False
      then show ?thesis
        using bitmap_insert_ok [OF K wf _ _ False, of k v] False w(2) k l by (simp add: unfold Let_def)
    qed
  qed
qed

lemma wf_arrayD:
  assumes "wf_node K rep p (Array_Node arr count)"
  shows "length p \<le> 5" and "length arr = 32" and "count = children arr" and "16 \<le> count"
    and "i < 32 \<Longrightarrow> arr ! i = Some n \<Longrightarrow> wf_node K rep (p @ [i]) n \<and> \<not> is_empty n"
  using assms by (auto simp: children_def elim: wf_arrayE)

lemma array_put_ok:
  fixes arr :: "('k, 'v) node option list"
  assumes K: "lawful K rep" and l: "length p = l" and wf: "wf_node K rep p (Array_Node arr count)"
    and i: "i = pos (hamt_hash K k) l"
    and n: "wf_node K rep (p @ [i]) n" "\<not> is_empty n" "count' = children (arr[i := Some n])" "count \<le> count'"
    and x: "\<And>k'. pos (hamt_hash K k') l = i \<Longrightarrow> look K (Suc l) n k' =
        (if rep k' = rep k then Some v else look K l (Array_Node arr count) k')"
    and leaf: "leaf = (look K l (Array_Node arr count) k = None)"
  shows "assoc_result K rep p (Array_Node arr count) k v (Some (A_NEW leaf (Array_Node (arr[i := Some n]) count')))"
proof (rule assoc_result_new)
  have i': "i = pos (hamt_hash K k) (length p)" by (simp add: i l)
  have c: "16 \<le> count'" using n(4) wf_arrayD(4) [OF wf] by simp
  show "wf_node K rep p (Array_Node (arr[i := Some n]) count')"
      "updated K rep (length p) (Array_Node arr count) (Array_Node (arr[i := Some n]) count') k (Some v)"
    by (rule put_child [OF K wf refl i' _ _ n(3) c]; use n(1,2) x l in auto)+
  show "leaf = (look K (length p) (Array_Node arr count) k = None)"
    using leaf l by simp
qed simp_all

lemma array_ok:
  fixes arr :: "('k, 'v) node option list"
  assumes K: "lawful K rep" and IH: "assoc_ok K rep (Suc l) TYPE('k \<times> 'v)" and l: "length p = l"
    and wf: "wf_node K rep p (Array_Node arr count)" and k: "path (hamt_hash K k) l = p"
  shows "assoc_result K rep p (Array_Node arr count) k v (hamt_node_array_assoc K arr count (5 * l) (hamt_hash K k) k v)"
proof -
  define i where i: "i = pos (hamt_hash K k) l"
  note w = wf_arrayD [OF wf, unfolded l]
  have i32: "i < 32" unfolding i by (rule pos_lt)
  have l6: "l \<le> 6" "Suc l \<le> 6" using w(1) by simp_all
  have pi: "path (hamt_hash K k) (Suc l) = p @ [i]" using k by (simp add: path_Suc i)
  note unfold = hamt_node_array_assoc.simps [of K arr] hamt_mask_pos [OF l6(1)] i [symmetric] five item_at_def w(2) i32
  have look: "look K l (Array_Node arr count) k' = (case arr ! i of None \<Rightarrow> None | Some n \<Rightarrow> look K (Suc l) n k')"
    if "pos (hamt_hash K k') l = i" for k'
    using that w(2) l6 by (simp add: look_array)
  show ?thesis
  proof (cases "arr ! i")
    case None
    have "assoc_result K rep p (Array_Node arr count) k v
        (Some (A_NEW True (Array_Node (arr[i := Some (single K (Suc l) k v)]) (count + 1))))"
    proof (rule array_put_ok [OF K l wf i])
      show "wf_node K rep (p @ [i]) (single K (Suc l) k v)"
        using wf_single [of "p @ [i]" K k rep v] l l6 pi by simp
      show "count + 1 = children (arr[i := Some (single K (Suc l) k v)])"
        using w(2,3) i32 None by (simp add: children_update)
    qed (use look look_single [OF K l6(2), of k v] None i in \<open>auto simp: single_def\<close>)
    then show ?thesis
      using None assoc_empty [OF l6(2), of K k v] by (simp add: unfold)
  next
    case (Some child)
    note child = w(5) [OF i32 Some]
    have "assoc_result K rep (p @ [i]) child k v (hamt_node_assoc K child (5 * Suc l) (hamt_hash K k) k v)"
      using IH l pi child by (simp add: assoc_ok_def)
    then show ?thesis
    proof (cases rule: assoc_resultE)
      case 1
      have "assoc_result K rep p (Array_Node arr count) k v (Some (A_NEW False (Array_Node (arr[i := Some child]) count)))"
      proof (rule array_put_ok [OF K l wf i])
        have "look K (Suc l) child k' = Some v" if "rep k' = rep k" for k'
          using look_rep(1) [OF _ K that, of "p @ [i]" child] child 1(2) l by simp
        then show "look K (Suc l) child k' = (if rep k' = rep k then Some v else look K l (Array_Node arr count) k')"
          if "pos (hamt_hash K k') l = i" for k'
          using look [OF that] Some by simp
        show "False = (look K l (Array_Node arr count) k = None)"
          using look [OF i [symmetric]] Some 1(2) l by simp
      qed (use child w(2,3) i32 Some in \<open>simp_all add: children_update\<close>)
      with 1 Some show ?thesis by (simp add: unfold)
    next
      case (2 leaf n)
      have "assoc_result K rep p (Array_Node arr count) k v (Some (A_NEW leaf (Array_Node (arr[i := Some n]) count)))"
      proof (rule array_put_ok [OF K l wf i])
        show "count = children (arr[i := Some n])"
          using w(2,3) i32 Some by (simp add: children_update)
      qed (use 2 look Some i l in \<open>auto simp: updated_look\<close>)
      with 2 Some show ?thesis by (simp add: unfold)
    qed
  qed
qed

lemma map_of_assoc_update:
  assumes "distinct (map (rep \<circ> fst) xs)" and "j < length xs"
  shows "map_of (assoc_of rep (xs[j := (fst (xs ! j), v)])) = (map_of (assoc_of rep xs))(rep (fst (xs ! j)) \<mapsto> v)"
  using assms
proof (induction xs arbitrary: j)
  case (Cons x xs)
  show ?case
  proof (cases j)
    case 0
    then show ?thesis by (cases x) (auto simp: assoc_of_def)
  next
    case (Suc i)
    with Cons.prems have "rep (fst (xs ! i)) \<noteq> rep (fst x)"
      by simp (metis (no_types, lifting) image_eqI nth_mem)
    then show ?thesis
      using Cons.IH [of i] Cons.prems Suc by (cases x) (auto simp: assoc_of_def fun_upd_twist)
  qed
qed simp

lemma collision_same_ok:
  fixes xs :: "('k \<times> 'v) list"
  assumes K: "lawful K rep" and l: "length p = l" and wf: "wf_node K rep p (Collision_Node h xs)" and h: "h = hamt_hash K k"
  shows "assoc_result K rep p (Collision_Node h xs) k v (hamt_node_collision_assoc K h xs (5 * l) (hamt_hash K k) k v)"
proof -
  from wf l have p: "length p \<le> 7" "path h (length p) = p" and xs: "2 \<le> length xs" "distinct (map (rep \<circ> fst) xs)"
    and hx: "\<And>k v. (k, v) \<in> set xs \<Longrightarrow> hamt_hash K k = h" by (auto elim: wf_collisionE)
  have wf': "wf_node K rep p (Collision_Node h ys)"
    if "2 \<le> length ys" "distinct (map (rep \<circ> fst) ys)" "\<And>k v. (k, v) \<in> set ys \<Longrightarrow> hamt_hash K k = h" for ys :: "('k \<times> 'v) list"
    using that p by (intro wf_collision) auto
  note look = look_collision [OF K]
  show ?thesis
  proof (cases rule: find_index [OF K, of xs k])
    case 1
    have d: "distinct (map (rep \<circ> fst) (xs @ [(k, v)]))"
      using 1 xs by simp
    have "assoc_result K rep p (Collision_Node h xs) k v (Some (A_NEW True (Collision_Node h (xs @ [(k, v)]))))"
    proof (rule assoc_result_new)
      show "wf_node K rep p (Collision_Node h (xs @ [(k, v)]))"
        using xs hx h d by (intro wf') auto
      show "updated K rep (length p) (Collision_Node h xs) (Collision_Node h (xs @ [(k, v)])) k (Some v)"
        using map_of_assoc_None [OF 1(2), of] unfolding updated_def look [OF d] look [OF xs(2)]
        by (auto simp: assoc_of_def map_add_def split: option.split)
    qed (use 1 in \<open>simp_all add: look [OF xs(2)] map_of_assoc_None\<close>)
    with 1 h show ?thesis by (simp add: hamt_node_collision_assoc.simps)
  next
    case (2 j)
    have lk: "look K (length p) (Collision_Node h xs) k = Some (snd (xs ! j))"
      using map_of_assoc [OF xs(2) 2(1)] 2(3) by (simp add: look [OF xs(2)])
    let ?ys = "xs[j := (fst (xs ! j), v)]"
    have m: "map (rep \<circ> fst) ?ys = map (rep \<circ> fst) xs"
      using 2(1) by (simp add: map_update list_update_same_conv)
    have d: "distinct (map (rep \<circ> fst) ?ys)"
      using xs(2) by (simp only: m)
    have "assoc_result K rep p (Collision_Node h xs) k v (Some (A_NEW False (Collision_Node h ?ys)))"
    proof (rule assoc_result_new)
      have "hamt_hash K (fst (xs ! j)) = h"
        using hx [of "fst (xs ! j)" "snd (xs ! j)"] 2(1) by simp
      then show "wf_node K rep p (Collision_Node h ?ys)"
        using xs(1) hx d by (intro wf') (auto dest!: set_update_subset_insert [THEN subsetD])
      have "map_of (assoc_of rep ?ys) = (map_of (assoc_of rep xs))(rep k \<mapsto> v)"
        using map_of_assoc_update [OF xs(2) 2(1), of v] 2(3) by simp
      then show "updated K rep (length p) (Collision_Node h xs) (Collision_Node h ?ys) k (Some v)"
        unfolding updated_def look [OF d] look [OF xs(2)] by simp
    qed (use lk in simp_all)
    with 2 h lk show ?thesis by (simp add: hamt_node_collision_assoc.simps assoc_result_def)
  qed
qed

lemma collision_other_ok:
  fixes xs :: "('k \<times> 'v) list"
  assumes K: "lawful K rep" and IH: "assoc_ok K rep (Suc l) TYPE('k \<times> 'v)" and l: "length p = l" "l \<le> 6"
    and wf: "wf_node K rep p (Collision_Node h xs)" and k: "path (hamt_hash K k) l = p" and h: "h \<noteq> hamt_hash K k"
  shows "assoc_result K rep p (Collision_Node h xs) k v (hamt_node_collision_assoc K h xs (5 * l) (hamt_hash K k) k v)"
proof -
  let ?c = "Collision_Node h xs" and ?i = "pos h l"
  let ?b = "Bitmap_Node (bitpos ?i) [Sub ?c]"
  from wf l have p: "path h l = p" and xs: "2 \<le> length xs" "distinct (map (rep \<circ> fst) xs)"
    and hx: "\<And>k v. (k, v) \<in> set xs \<Longrightarrow> hamt_hash K k = h" by (auto elim: wf_collisionE)
  have "wf_node K rep (p @ [?i]) ?c"
    using l p xs hx by (intro wf_collision) (auto simp: path_Suc)
  then have b: "wf_node K rep p ?b"
    using l by (intro wf_bitpos pos_lt) auto
  have none: "look K l ?c k' = None" if "hamt_hash K k' \<noteq> h" for k'
  proof -
    have "rep k' \<noteq> rep a" if "(a, w) \<in> set xs" for a w
      using \<open>hamt_hash K k' \<noteq> h\<close> hx [OF that] lawful_hash_eq [OF K, of k' a] by blast
    then have "rep k' \<notin> set (map (rep \<circ> fst) xs)"
      by fastforce
    then show ?thesis by (simp add: look_collision [OF K xs(2)] map_of_assoc_None)
  qed
  have look: "look K l ?b k' = look K l ?c k'" for k'
  proof (cases "pos (hamt_hash K k') l = ?i")
    case False
    with none [of k'] show ?thesis
      by (cases "hamt_hash K k' = h") (auto simp: look_bitmap [OF K _ l(2)] pos_lt)
  qed (simp add: look_bitmap [OF K _ l(2)] pos_lt look_collision [OF K xs(2)])
  have "assoc_result K rep p ?b k v (hamt_node_bitmap_assoc K (bitpos ?i) [Sub ?c] (5 * l) (hamt_hash K k) k v)"
    by (rule bitmap_ok [OF K IH l(1) b k])
  then show ?thesis
  proof (cases rule: assoc_resultE)
    case 1
    with none [of k] h look l show ?thesis by simp
  next
    case (2 leaf n')
    have "assoc_result K rep p ?c k v (Some (A_NEW leaf n'))"
      by (rule assoc_result_new) (use 2 look l in \<open>auto simp: updated_def\<close>)
    with 2(1) h show ?thesis
      by (simp add: hamt_node_collision_assoc.simps hamt_bitpos_pos [OF l(2)])
  qed
qed

subsection \<open>Setting a key\<close>

lemma assoc_level:
  assumes K: "lawful K rep" and IH: "l \<le> 6 \<Longrightarrow> assoc_ok K rep (Suc l) TYPE('k \<times> 'v)"
  shows "assoc_ok K rep l TYPE('k \<times> 'v)"
  unfolding assoc_ok_def
proof (intro allI impI)
  fix p k and n :: "('k, 'v) node" and v
  assume l: "length p = l" and wf: "wf_node K rep p n" and k: "path (hamt_hash K k) l = p"
  show "assoc_result K rep p n k v (hamt_node_assoc K n (5 * l) (hamt_hash K k) k v)"
  proof (cases n)
    case (Bitmap_Node bm sl)
    with bitmap_ok [OF K IH l _ k, of bm sl v] wf_bitmapD(1) [of K rep p bm sl] wf l show ?thesis
      by (simp add: hamt_node_assoc.simps [of K "Bitmap_Node bm sl"])
  next
    case (Array_Node arr count)
    with array_ok [OF K IH l _ k, of arr count v] wf_arrayD(1) [of K rep p arr count] wf l show ?thesis
      by (simp add: hamt_node_assoc.simps [of K "Array_Node arr count"])
  next
    case (Collision_Node h xs)
    with wf l have "l \<le> 7" "path h l = p" by (auto elim: wf_collisionE)
    moreover from this k have "h = hamt_hash K k" if "l = 7"
      using that path_7 [of h "hamt_hash K k"] by simp
    ultimately have "l \<le> 6" if "h \<noteq> hamt_hash K k"
      using that by (cases "l = 7") auto
    moreover have "hamt_node_assoc K n (5 * l) (hamt_hash K k) k v = hamt_node_collision_assoc K h xs (5 * l) (hamt_hash K k) k v"
      by (simp only: Collision_Node hamt_node_assoc.simps node.case)
    ultimately show ?thesis
      using collision_same_ok [OF K l, of h xs k v] collision_other_ok [OF K IH l _ _ k, of h xs v] wf Collision_Node
      by (cases "h = hamt_hash K k") simp_all
  qed
qed

lemma assoc_all:
  assumes "lawful K rep"
  shows "assoc_ok K rep l TYPE('k \<times> 'v)"
proof (cases "l \<le> 7")
  case True
  then show ?thesis
  proof (induction rule: inc_induct)
    case base
    show ?case by (rule assoc_level [OF assms]) simp
  next
    case (step l)
    show ?case by (rule assoc_level [OF assms step(3)])
  qed
next
  case False
  show ?thesis by (rule assoc_level [OF assms]) (use False in simp)
qed

end
