(* ===== verification/Hamt_Without.thy ===== *)
theory Hamt_Without
  imports Hamt_Assoc
begin

text \<open>Deleting a key from a well-formed trie.\<close>

subsection \<open>Merging\<close>

lemma merged_ok:
  assumes K: "lawful K rep" and n: "wf_node K rep p n" "\<not> is_empty n"
  shows "wf_slot K rep p (merged n)" and "look_slot K rep (length p) (merged n) k = look K (length p) n k"
proof -
  have "wf_slot K rep p (merged n) \<and> look_slot K rep (length p) (merged n) k = look K (length p) n k"
  proof (cases n rule: merged.cases)
    case (1 bm a v)
    note w = wf_bitmapD [OF n(1) [unfolded 1]]
    from w(2) obtain i where b: "bits bm = [i]"
      by (cases "bits bm") (auto simp: popcount32_bits)
    then have e: "entry bm [Item a v] = [i \<mapsto> Item a v]"
      by (simp add: entry_def)
    then have "path (hamt_hash K a) (Suc (length p)) = p @ [i]"
      using w(4) [of i] by simp
    then have a: "path (hamt_hash K a) (length p) = p" "pos (hamt_hash K a) (length p) = i"
      by (auto dest: path_prefix)
    then show ?thesis
      using 1 lawful_hash_eq [OF K, of a k] by (auto simp: look_bitmap [OF K w(2,1)] e)
  qed (use n in auto)
  then show "wf_slot K rep p (merged n)" "look_slot K rep (length p) (merged n) k = look K (length p) n k"
    by auto
qed

subsection \<open>Deleting at one level\<close>

text \<open>
  What a node gives back. At the last level a collision node of two keys leaves a bitmap node whose bitmap is
  not defined; it is merged into its parent at once.
\<close>

definition new_ok :: "'k keyops \<Rightarrow> ('k \<Rightarrow> 'r) \<Rightarrow> nat list \<Rightarrow> ('k, 'v) node \<Rightarrow> 'k \<Rightarrow> ('k, 'v) node \<Rightarrow> bool" where
  "new_ok K rep p n k n' \<longleftrightarrow>
     (if length p \<le> 6 then wf_node K rep p n' \<and> \<not> is_empty n' \<and> updated K rep (length p) n n' k None
      else wf_slot K rep p (merged n')
        \<and> (\<forall>k'. look_slot K rep (length p) (merged n') k' = (if rep k' = rep k then None else look K (length p) n k')))"

definition without_result ::
    "'k keyops \<Rightarrow> ('k \<Rightarrow> 'r) \<Rightarrow> nat list \<Rightarrow> ('k, 'v) node \<Rightarrow> 'k \<Rightarrow> ('k, 'v) node hamt_without_t option \<Rightarrow> bool" where
  "without_result K rep p n k r =
     (case r of
        None \<Rightarrow> False
      | Some W_ERROR \<Rightarrow> False
      | Some W_NOT_FOUND \<Rightarrow> look K (length p) n k = None
      | Some W_EMPTY \<Rightarrow> thin n \<and> look K (length p) n k \<noteq> None
          \<and> (\<forall>k'. rep k' \<noteq> rep k \<longrightarrow> look K (length p) n k' = None)
      | Some (W_NEWNODE n') \<Rightarrow> look K (length p) n k \<noteq> None \<and> new_ok K rep p n k n')"

lemma without_resultE:
  assumes "without_result K rep p n k r"
  obtains "r = Some W_NOT_FOUND" and "look K (length p) n k = None"
  | "r = Some W_EMPTY" and "thin n" and "look K (length p) n k \<noteq> None"
    and "\<And>k'. rep k' \<noteq> rep k \<Longrightarrow> look K (length p) n k' = None"
  | n' where "r = Some (W_NEWNODE n')" and "look K (length p) n k \<noteq> None" and "new_ok K rep p n k n'"
  using assms by (auto simp: without_result_def split: option.splits hamt_without_t.splits)

lemma new_ok_merged:
  assumes "lawful K rep" and "new_ok K rep p n k n'"
  shows "wf_slot K rep p (merged n')"
    and "look_slot K rep (length p) (merged n') k' = (if rep k' = rep k then None else look K (length p) n k')"
  using assms(2) merged_ok [OF assms(1), of p n'] by (auto simp: new_ok_def updated_def split: if_splits)

definition without_ok :: "'k keyops \<Rightarrow> ('k \<Rightarrow> 'r) \<Rightarrow> nat \<Rightarrow> ('k \<times> 'v) itself \<Rightarrow> bool" where
  "without_ok K rep l _ \<longleftrightarrow> (\<forall>p (n :: ('k, 'v) node) k. length p = l \<longrightarrow> wf_node K rep p n \<longrightarrow> path (hamt_hash K k) l = p
     \<longrightarrow> without_result K rep p n k (hamt_node_without K n (5 * l) (hamt_hash K k) k))"

lemma without_item_ok:
  fixes sl :: "('k, 'v) slot list"
  assumes K: "lawful K rep" and l: "length p = l" and wf: "wf_node K rep p (Bitmap_Node bm sl)"
    and i: "i = pos (hamt_hash K k) l" and x: "entry bm sl i = Some (Item a w)"
  shows "without_result K rep p (Bitmap_Node bm sl) k (Some (if rep a \<noteq> rep k then W_NOT_FOUND
      else if length sl = 1 then W_EMPTY else W_NEWNODE (hamt_node_bitmap_clone_without bm sl (bitpos i))))"
proof -
  note w = wf_bitmapD [OF wf, unfolded l]
  have i': "i = pos (hamt_hash K k) (length p)" by (simp add: i l)
  have bit: "bit bm i" using x entry_None [of bm i sl] by auto
  note rem = entry_remove [OF w(2) bit]
  let ?r = "hamt_bitindex bm (bitpos i)"
  have look: "look K l (Bitmap_Node bm sl) k' = (if rep a = rep k' then Some w else None)" if "pos (hamt_hash K k') l = i" for k'
    using that x by (simp add: look_bitmap [OF K w(2,1)])
  show ?thesis
  proof (cases "rep a = rep k \<and> length sl \<noteq> 1")
    case True
    let ?n = "Bitmap_Node (bm AND NOT (bitpos i)) (take ?r sl @ drop (?r + 1) sl)"
    have len: "length (take ?r sl @ drop (?r + 1) sl) = popcount32 (bm AND NOT (bitpos i))"
      and c: "popcount32 (bm AND NOT (bitpos i)) \<le> 16" "popcount32 (bm AND NOT (bitpos i)) \<noteq> 0"
      using rem(2,3) w(2,3) True by simp_all
    have "wf_node K rep p ?n" "updated K rep (length p) (Bitmap_Node bm sl) ?n k None"
      by (rule put_slot [OF K wf refl i' rem(1) len c(1)]; use look True l in auto)+
    moreover have "\<not> is_empty ?n"
      using len c(2) by (cases "take ?r sl @ drop (?r + 1) sl") auto
    ultimately show ?thesis
      using True look [OF i [symmetric]] l w(1)
      by (simp add: without_result_def new_ok_def hamt_node_bitmap_clone_without_def Let_def)
  next
    case False
    show ?thesis
    proof (cases "rep a = rep k")
      case True
      with False x have sl: "sl = [Item a w]"
        by (cases sl) (auto simp: entry_def dest!: map_of_SomeD set_zip_rightD)
      then have "look K l (Bitmap_Node bm sl) k' = None" if "rep k' \<noteq> rep k" for k'
        using look_thin [OF K _ w(2,1), of k' k] that look [OF i [symmetric]] True
        by (cases "look K l (Bitmap_Node bm sl) k' = None") auto
      with sl True look [OF i [symmetric]] l show ?thesis
        by (simp add: without_result_def)
    qed (use look [OF i [symmetric]] l in \<open>simp add: without_result_def\<close>)
  qed
qed

lemma without_sub_ok:
  fixes sl :: "('k, 'v) slot list"
  assumes K: "lawful K rep" and IH: "without_ok K rep (Suc l) TYPE('k \<times> 'v)" and l: "length p = l"
    and wf: "wf_node K rep p (Bitmap_Node bm sl)" and k: "path (hamt_hash K k) l = p"
    and i: "i = pos (hamt_hash K k) l" and x: "entry bm sl i = Some (Sub child)"
  shows "without_result K rep p (Bitmap_Node bm sl) k
    (Option.bind (hamt_node_without K child (5 * Suc l) (hamt_hash K k) k) (\<lambda>r. case r of
        W_EMPTY \<Rightarrow> None
      | W_NEWNODE n \<Rightarrow> Some (W_NEWNODE (Bitmap_Node bm (sl[hamt_bitindex bm (bitpos i) := merged n])))
      | W_ERROR \<Rightarrow> Some W_ERROR
      | W_NOT_FOUND \<Rightarrow> Some W_NOT_FOUND))"
proof -
  note w = wf_bitmapD [OF wf, unfolded l]
  have i': "i = pos (hamt_hash K k) (length p)" by (simp add: i l)
  have bit: "bit bm i" using x entry_None [of bm i sl] by auto
  have child: "wf_node K rep (p @ [i]) child" "\<not> thin child"
    using w(4) [OF x] by auto
  have look: "look K l (Bitmap_Node bm sl) k' = look K (Suc l) child k'" if "pos (hamt_hash K k') l = i" for k'
    using that x by (simp add: look_bitmap [OF K w(2,1)])
  have "path (hamt_hash K k) (Suc l) = p @ [i]" using k by (simp add: path_Suc i)
  with child have "without_result K rep (p @ [i]) child k (hamt_node_without K child (5 * Suc l) (hamt_hash K k) k)"
    using IH l by (simp add: without_ok_def)
  then show ?thesis
  proof (cases rule: without_resultE)
    case 1
    then show ?thesis
      using look [OF i [symmetric]] l by (simp add: without_result_def)
  next
    case 2
    with child(2) show ?thesis by simp
  next
    case (3 n)
    let ?sl = "sl[hamt_bitindex bm (bitpos i) := merged n]"
    have len: "length ?sl = popcount32 bm" using w(2) by simp
    note m = new_ok_merged [OF K 3(3)]
    have "wf_node K rep p (Bitmap_Node bm ?sl)" "updated K rep (length p) (Bitmap_Node bm sl) (Bitmap_Node bm ?sl) k None"
      by (rule put_slot [OF K wf refl i' entry_set [OF w(2) bit] len w(3)]; use m look l in auto)+
    moreover have "\<not> is_empty (Bitmap_Node bm ?sl)"
      using entry_remove(3) [OF w(2) bit] by (cases sl; cases "hamt_bitindex bm (bitpos i)") auto
    ultimately show ?thesis
      using 3(1,2) look [OF i [symmetric]] l w(1) by (simp add: without_result_def new_ok_def)
  qed
qed

lemma without_bitmap_ok:
  fixes sl :: "('k, 'v) slot list"
  assumes K: "lawful K rep" and IH: "without_ok K rep (Suc l) TYPE('k \<times> 'v)" and l: "length p = l"
    and wf: "wf_node K rep p (Bitmap_Node bm sl)" and k: "path (hamt_hash K k) l = p"
  shows "without_result K rep p (Bitmap_Node bm sl) k (hamt_node_bitmap_without K bm sl (5 * l) (hamt_hash K k) k)"
proof -
  define i where i: "i = pos (hamt_hash K k) l"
  note w = wf_bitmapD [OF wf, unfolded l]
  have i32: "i < 32" unfolding i by (rule pos_lt)
  note unfold = hamt_node_bitmap_without.simps [of K bm] hamt_bitpos_pos [OF w(1)] i [symmetric] and_one_bit [OF i32] five Let_def
  show ?thesis
  proof (cases "bit bm i")
    case True
    then obtain x where x: "entry bm sl i = Some x" "item_at sl (hamt_bitindex bm (bitpos i)) = Some x"
      using entry_item [OF w(2) True] by auto
    show ?thesis
    proof (cases x)
      case (Sub child)
      then show ?thesis
        using without_sub_ok [OF K IH l wf k i, of child] x True by (simp add: unfold)
    next
      case (Item a w)
      then show ?thesis
        using without_item_ok [OF K l wf i, of a w] x True
        by (cases "rep a = rep k") (simp_all add: unfold lawful_eq [OF K])
    qed
  next
    case False
    then show ?thesis
      using l w(1) by (simp add: unfold without_result_def look_bitmap [OF K w(2)] entry_None)
  qed
qed

text \<open>An array node that loses its sixteenth child becomes a bitmap node.\<close>

lemma to_bitmap_ok:
  fixes arr :: "('k, 'v) node option list"
  assumes K: "lawful K rep" and l: "length p = l" and wf: "wf_node K rep p (Array_Node arr count)"
    and i: "i = pos (hamt_hash K k) l" "arr ! i \<noteq> None" and c: "count - 1 < 16"
    and b: "collect_children i 0 arr 0 [] = (bm, out)"
  shows "wf_node K rep p (Bitmap_Node bm out)" and "int (length out) = count - 1" and "\<not> is_empty (Bitmap_Node bm out)"
    and "look K l (Bitmap_Node bm out) k' =
      (if pos (hamt_hash K k') l = i then None else look K l (Array_Node arr count) k')"
proof -
  note w = wf_arrayD [OF wf, unfolded l]
  have i32: "i < 32" unfolding i by (rule pos_lt)
  have out: "length out = popcount32 bm" "entry bm out = collected i 0 arr"
    using collect_children_ok [OF _ _ _ b] w(2) by auto
  show len: "int (length out) = count - 1"
    using collect_children_length [of i 0 arr 0 "[]"] b i i32 w(2,3) by (simp add: children_def)
  show "\<not> is_empty (Bitmap_Node bm out)"
    using len w(4) by (cases out) auto
  have merge1: "wf_slot K rep (p @ [j]) (merged n)" if "j < 32" "arr ! j = Some n" for j n
    using merged_ok(1) [OF K, of "p @ [j]" n] w(5) [OF that] by auto
  have merge2: "look_slot K rep (Suc l) (merged n) k' = look K (Suc l) n k'" if "j < 32" "arr ! j = Some n" for j n k'
    using merged_ok(2) [OF K, of "p @ [j]" n k'] w(5) [OF that] l by auto
  show wf: "wf_node K rep p (Bitmap_Node bm out)"
  proof (rule wf_bitmap)
    show "wf_slot K rep (p @ [j]) x" if "entry bm out j = Some x" for j x
      using that merge1 [of j] w(2) by (auto simp: out(2) collected_def split: if_splits)
  qed (use out len c w(1) l in auto)
  have l6: "l \<le> 6" using w(1) by simp
  show "look K l (Bitmap_Node bm out) k' =
      (if pos (hamt_hash K k') l = i then None else look K l (Array_Node arr count) k')"
    using merge2 [of "pos (hamt_hash K k') l" _ k'] w(2) pos_lt [of "hamt_hash K k'" l]
    by (simp add: look_bitmap [OF K out(1) l6] look_array [OF w(2) l6] out(2) collected_def split: option.split)
qed

lemma without_array_ok:
  fixes arr :: "('k, 'v) node option list"
  assumes K: "lawful K rep" and IH: "without_ok K rep (Suc l) TYPE('k \<times> 'v)" and l: "length p = l"
    and wf: "wf_node K rep p (Array_Node arr count)" and k: "path (hamt_hash K k) l = p"
  shows "without_result K rep p (Array_Node arr count) k
    (hamt_node_array_without K arr count (5 * l) (hamt_hash K k) k)"
proof -
  define i where i: "i = pos (hamt_hash K k) l"
  note w = wf_arrayD [OF wf, unfolded l]
  have i': "i = pos (hamt_hash K k) (length p)" by (simp add: i l)
  have i32: "i < 32" unfolding i by (rule pos_lt)
  have l6: "l \<le> 6" "Suc l \<le> 6" using w(1) by simp_all
  note unfold = hamt_node_array_without.simps [of K arr] hamt_mask_pos [OF l6(1)] i [symmetric] five item_at_def w(2) i32
  have look: "look K l (Array_Node arr count) k' = (case arr ! i of None \<Rightarrow> None | Some n \<Rightarrow> look K (Suc l) n k')"
    if "pos (hamt_hash K k') l = i" for k'
    using that w(2) l6 by (simp add: look_array)
  show ?thesis
  proof (cases "arr ! i")
    case None
    then show ?thesis
      using look [OF i [symmetric]] l by (simp add: unfold without_result_def)
  next
    case (Some child)
    have "path (hamt_hash K k) (Suc l) = p @ [i]" using k by (simp add: path_Suc i)
    then have "without_result K rep (p @ [i]) child k (hamt_node_without K child (5 * Suc l) (hamt_hash K k) k)"
      using IH l w(5) [OF i32 Some] by (simp add: without_ok_def)
    then show ?thesis
    proof (cases rule: without_resultE)
      case 1
      then show ?thesis
        using look [OF i [symmetric]] Some l by (simp add: unfold without_result_def)
    next
      case 2
      have gone: "look K l (Array_Node arr count) k' = None" if "pos (hamt_hash K k') l = i" "rep k' \<noteq> rep k" for k'
        using 2(4) [of k'] look [OF that(1)] Some l that(2) by simp
      show ?thesis
      proof (cases "16 \<le> count - 1")
        case True
        have c: "count - 1 = children (arr[i := None])"
          using w(2,3) i32 Some by (simp add: children_update)
        have "wf_node K rep p (Array_Node (arr[i := None]) (count - 1))"
            "updated K rep (length p) (Array_Node arr count) (Array_Node (arr[i := None]) (count - 1)) k None"
          by (rule put_child [OF K wf refl i' _ _ c True]; use gone l in auto)+
        then show ?thesis
          using True 2 Some look [OF i [symmetric]] l l6(1) by (simp add: unfold without_result_def new_ok_def)
      next
        case False
        obtain bm out where b: "collect_children i 0 arr 0 [] = (bm, out)" by force
        have c: "arr ! i \<noteq> None" "count - 1 < 16" using Some False by simp_all
        note t = to_bitmap_ok [OF K l wf i c b]
        have "updated K rep l (Array_Node arr count) (Bitmap_Node bm out) k None"
          unfolding updated_def
        proof (intro allI)
          fix k'
          show "look K l (Bitmap_Node bm out) k' = (if rep k' = rep k then None else look K l (Array_Node arr count) k')"
          proof (cases "pos (hamt_hash K k') l = i")
            case True
            then show ?thesis using gone by (simp add: t(4))
          next
            case False
            then have "rep k' \<noteq> rep k" using lawful_hash_eq [OF K, of k' k] i by auto
            with False show ?thesis by (simp add: t(4))
          qed
        qed
        then show ?thesis
          using False 2 Some look [OF i [symmetric]] l l6(1) b t(1,2,3) w(4)
          by (simp add: unfold without_result_def new_ok_def)
      qed
    next
      case (3 n)
      have n: "wf_node K rep (p @ [i]) n" "\<not> is_empty n" "updated K rep (Suc l) child n k None"
        using 3(3) l l6(2) by (simp_all add: new_ok_def)
      have c: "count = children (arr[i := Some n])"
        using w(2,3) i32 Some by (simp add: children_update)
      have "wf_node K rep p (Array_Node (arr[i := Some n]) count)"
          "updated K rep (length p) (Array_Node arr count) (Array_Node (arr[i := Some n]) count) k None"
        by (rule put_child [OF K wf refl i' _ _ c w(4)]; use n look Some l in \<open>auto simp: updated_def\<close>)+
      then show ?thesis
        using 3 Some look [OF i [symmetric]] l l6(1) by (simp add: unfold without_result_def new_ok_def)
    qed
  qed
qed

lemma map_of_assoc_remove:
  assumes "distinct (map (rep \<circ> fst) xs)" and "j < length xs"
  shows "map_of (assoc_of rep (take j xs @ drop (Suc j) xs)) = (map_of (assoc_of rep xs))(rep (fst (xs ! j)) := None)"
proof -
  let ?us = "assoc_of rep (take j xs)" and ?vs = "assoc_of rep (drop (Suc j) xs)" and ?r = "rep (fst (xs ! j))"
  have split: "xs = take j xs @ xs ! j # drop (Suc j) xs"
    using assms(2) by (rule id_take_nth_drop)
  have "assoc_of rep (take j xs @ xs ! j # drop (Suc j) xs) = ?us @ (?r, snd (xs ! j)) # ?vs"
    by (simp add: assoc_of_def split_beta)
  then have xs: "assoc_of rep xs = ?us @ (?r, snd (xs ! j)) # ?vs"
    by (simp only: split [symmetric])
  have "map (rep \<circ> fst) xs = map (rep \<circ> fst) (take j xs @ xs ! j # drop (Suc j) xs)"
    by (simp only: split [symmetric])
  with assms(1) have d: "distinct (map (rep \<circ> fst) (take j xs) @ ?r # map (rep \<circ> fst) (drop (Suc j) xs))"
    by simp
  then have "map_of ?us ?r = None" "map_of ?vs ?r = None"
    by (intro map_of_assoc_None; simp)+
  then show ?thesis
    unfolding xs by (auto simp: assoc_of_def [of rep "_ @ _"] map_add_def fun_eq_iff simp flip: assoc_of_def split: option.split)
qed

lemma collision_new_node:
  fixes xs :: "('k \<times> 'v) list"
  assumes K: "lawful K rep" and l: "length p = l" and wf: "wf_node K rep p (Collision_Node h xs)"
    and j: "j < length xs" "rep (fst (xs ! j)) = rep k" and n: "2 < length xs"
  shows "new_ok K rep p (Collision_Node h xs) k (Collision_Node h (take j xs @ drop (j + 1) xs))"
proof -
  let ?ys = "take j xs @ drop (j + 1) xs"
  from wf l have p: "length p \<le> 7" "path h (length p) = p" and xs: "distinct (map (rep \<circ> fst) xs)"
    and hx: "\<And>k v. (k, v) \<in> set xs \<Longrightarrow> hamt_hash K k = h" by (auto elim: wf_collisionE)
  have d: "distinct (map (rep \<circ> fst) ?ys)"
  proof -
    have "distinct (map (rep \<circ> fst) (take j xs @ xs ! j # drop (Suc j) xs))"
      using xs by (simp only: id_take_nth_drop [OF j(1), symmetric])
    then show ?thesis by auto
  qed
  have wf': "wf_node K rep p (Collision_Node h ?ys)"
    using p d n j(1) hx by (intro wf_collision) (auto dest: in_set_takeD in_set_dropD)
  have "look K l (Collision_Node h ?ys) k' = (if rep k' = rep k then None else look K l (Collision_Node h xs) k')" for k'
    unfolding look_collision [OF K d] look_collision [OF K xs] using map_of_assoc_remove [OF xs j(1)] j(2) by simp
  with wf' l show ?thesis
    by (simp add: new_ok_def updated_def)
qed

lemma collision_last_node:
  fixes xs :: "('k \<times> 'v) list"
  assumes K: "lawful K rep" and l: "length p = l" and wf: "wf_node K rep p (Collision_Node h xs)" and h: "hamt_hash K k = h"
    and j: "j < length xs" "rep (fst (xs ! j)) = rep k" and n: "length xs = 2"
    and y: "(a, w) = (if j = 0 then xs ! 1 else xs ! 0)"
  shows "new_ok K rep p (Collision_Node h xs) k
    (Bitmap_Node (case hamt_bitpos h (5 * l) of Some b \<Rightarrow> b | None \<Rightarrow> stray K h (5 * l)) [Item a w])"
proof -
  from wf l have p: "length p \<le> 7" "path h (length p) = p" and xs: "distinct (map (rep \<circ> fst) xs)"
    and hx: "\<And>k v. (k, v) \<in> set xs \<Longrightarrow> hamt_hash K k = h" by (auto elim: wf_collisionE)
  from n obtain x0 x1 where x: "xs = [x0, x1]"
    by (auto simp: numeral_2_eq_2 length_Suc_conv)
  have a: "hamt_hash K a = h" "rep a \<noteq> rep k"
    using y j xs hx [of a w] by (auto simp: x split: if_splits)
  have look: "look K l (Collision_Node h xs) k' = (if rep k' = rep k then look K l (Collision_Node h xs) k
      else if rep a = rep k' then Some w else None)" for k'
    unfolding look_collision [OF K xs] using y j a(2)
    by (cases x0; cases x1; cases "j = 0") (auto simp: assoc_of_def x less_Suc_eq)
  show ?thesis
  proof (cases "l \<le> 6")
    case True
    have "wf_node K rep p (single K l a w)" "look K l (single K l a w) k' = (if rep a = rep k' then Some w else None)" for k'
      using wf_single [of p K a rep w] p a(1) l True by (auto simp: look_single [OF K True])
    with a True l show ?thesis
      using look by (auto simp: new_ok_def updated_def single_def hamt_bitpos_pos)
  next
    case False
    with p a l show ?thesis
      using look by (auto simp: new_ok_def)
  qed
qed

lemma without_collision_ok:
  fixes xs :: "('k \<times> 'v) list"
  assumes K: "lawful K rep" and l: "length p = l" and wf: "wf_node K rep p (Collision_Node h xs)"
  shows "without_result K rep p (Collision_Node h xs) k
    (Some (hamt_node_collision_without K h xs (5 * l) (hamt_hash K k) k))"
proof -
  from wf have xs: "2 \<le> length xs" "distinct (map (rep \<circ> fst) xs)"
    and hx: "\<And>k v. (k, v) \<in> set xs \<Longrightarrow> hamt_hash K k = h" by (auto elim: wf_collisionE)
  note look = look_collision [OF K xs(2)]
  show ?thesis
  proof (cases rule: find_index [OF K, of xs k])
    case 1
    then show ?thesis
      by (simp add: hamt_node_collision_without_def without_result_def look map_of_assoc_None)
  next
    case (2 j)
    have lk: "look K (length p) (Collision_Node h xs) k = Some (snd (xs ! j))"
      using map_of_assoc [OF xs(2) 2(1)] 2(3) by (simp add: look)
    have h: "hamt_hash K k = h"
      using hx [of "fst (xs ! j)" "snd (xs ! j)"] 2(1) lawful_hash_eq [OF K 2(3)] by simp
    obtain a w where y: "(a, w) = (if j = 0 then xs ! 1 else xs ! 0)" by (metis surj_pair)
    show ?thesis
    proof (cases "length xs = 2")
      case True
      have "new_ok K rep p (Collision_Node h xs) k
          (Bitmap_Node (case hamt_bitpos h (5 * l) of Some b \<Rightarrow> b | None \<Rightarrow> stray K h (5 * l)) [Item a w])"
        by (rule collision_last_node [OF K l wf h 2(1,3) True y])
      then show ?thesis
        using True lk 2(2) h by (simp add: hamt_node_collision_without_def without_result_def Let_def y [symmetric])
    next
      case False
      then show ?thesis
        using collision_new_node [OF K l wf 2(1,3)] xs(1) lk 2(2) h
        by (simp add: hamt_node_collision_without_def without_result_def)
    qed
  qed
qed

subsection \<open>Deleting a key\<close>

lemma without_level:
  assumes K: "lawful K rep" and IH: "l \<le> 6 \<Longrightarrow> without_ok K rep (Suc l) TYPE('k \<times> 'v)"
  shows "without_ok K rep l TYPE('k \<times> 'v)"
  unfolding without_ok_def
proof (intro allI impI)
  fix p k and n :: "('k, 'v) node"
  assume l: "length p = l" and wf: "wf_node K rep p n" and k: "path (hamt_hash K k) l = p"
  show "without_result K rep p n k (hamt_node_without K n (5 * l) (hamt_hash K k) k)"
  proof (cases n)
    case (Bitmap_Node bm sl)
    with without_bitmap_ok [OF K IH l _ k, of bm sl] wf_bitmapD(1) [of K rep p bm sl] wf l show ?thesis
      by (simp add: hamt_node_without.simps [of K "Bitmap_Node bm sl"])
  next
    case (Array_Node arr count)
    with without_array_ok [OF K IH l _ k, of arr count] wf_arrayD(1) [of K rep p arr count] wf l show ?thesis
      by (simp add: hamt_node_without.simps [of K "Array_Node arr count"])
  next
    case (Collision_Node h xs)
    with without_collision_ok [OF K l, of h xs k] wf show ?thesis
      by (simp add: hamt_node_without.simps [of K "Collision_Node h xs"])
  qed
qed

lemma without_all:
  assumes "lawful K rep"
  shows "without_ok K rep l TYPE('k \<times> 'v)"
proof (cases "l \<le> 7")
  case True
  then show ?thesis
  proof (induction rule: inc_induct)
    case base
    show ?case by (rule without_level [OF assms]) simp
  next
    case (step l)
    show ?case by (rule without_level [OF assms step(3)])
  qed
next
  case False
  show ?thesis by (rule without_level [OF assms]) (use False in simp)
qed

end
