(* ===== verification/Hamt_Iter.thy ===== *)
theory Hamt_Iter
  imports Hamt_Without
begin

text \<open>
  The iterator: it passes exactly the entries of the trie, each once, in the order of the nodes, and ends.
\<close>

subsection \<open>The entries of a node\<close>

fun items :: "('k, 'v) node \<Rightarrow> ('k \<times> 'v) list"
  and slot_items :: "('k, 'v) slot \<Rightarrow> ('k \<times> 'v) list"
where
  "items (Bitmap_Node bm sl) = concat (map slot_items sl)"
| "items (Array_Node arr count) = concat (map (\<lambda>x. case x of None \<Rightarrow> [] | Some n \<Rightarrow> items n) arr)"
| "items (Collision_Node h xs) = xs"
| "slot_items (Item k v) = [(k, v)]"
| "slot_items (Sub n) = items n"

lemma distinct_concat_map:
  assumes "\<And>i. i < length xs \<Longrightarrow> distinct (f (xs ! i))"
    and "\<And>i j. i < j \<Longrightarrow> j < length xs \<Longrightarrow> set (f (xs ! i)) \<inter> set (f (xs ! j)) = {}"
  shows "distinct (concat (map f xs))"
  using assms
proof (induction xs)
  case (Cons x xs)
  have "distinct (f x)" using Cons.prems(1) [of 0] by simp
  moreover have "distinct (concat (map f xs))"
    using Cons.prems(1) [of "Suc _"] Cons.prems(2) [of "Suc _" "Suc _"] by (intro Cons.IH) auto
  moreover have "set (f x) \<inter> set (f y) = {}" if "y \<in> set xs" for y
    using that Cons.prems(2) [of 0 "Suc _"] by (auto simp: in_set_conv_nth)
  ultimately show ?case by auto
qed simp

lemma entry_nth:
  assumes "length sl = popcount32 bm" and "j < length sl"
  shows "entry bm sl (bits bm ! j) = Some (sl ! j)"
  unfolding entry_def using assms by (intro map_of_zip_nth) (simp_all add: popcount32_bits)

lemma entry_mem: "entry bm sl i = Some x \<Longrightarrow> x \<in> set sl"
  by (auto simp: entry_def dest!: map_of_SomeD set_zip_rightD)

text \<open>What the entries of a node at a path are: keys of that path, pairwise different, and what a lookup finds.\<close>

definition lists_keys :: "'k keyops \<Rightarrow> ('k \<Rightarrow> 'r) \<Rightarrow> nat list \<Rightarrow> ('k \<times> 'v) list \<Rightarrow> ('k \<Rightarrow> 'v option) \<Rightarrow> bool" where
  "lists_keys K rep p xs f \<longleftrightarrow> distinct (map (rep \<circ> fst) xs)
     \<and> (\<forall>(k, v) \<in> set xs. path (hamt_hash K k) (length p) = p)
     \<and> (\<forall>k. path (hamt_hash K k) (length p) = p \<longrightarrow> f k = map_of (assoc_of rep xs) (rep k))"

lemma lists_keysD:
  assumes "lists_keys K rep p xs f"
  shows "distinct (map (rep \<circ> fst) xs)" and "(k, v) \<in> set xs \<Longrightarrow> path (hamt_hash K k) (length p) = p"
    and "path (hamt_hash K k) (length p) = p \<Longrightarrow> f k = map_of (assoc_of rep xs) (rep k)"
  using assms by (auto simp: lists_keys_def)

lemma map_of_assoc_concat:
  assumes "distinct (map (rep \<circ> fst) (concat xss))" and "xs \<in> set xss" and "map_of (assoc_of rep xs) r = Some v"
  shows "map_of (assoc_of rep (concat xss)) r = Some v"
proof -
  have "map fst (assoc_of rep (concat xss)) = map (rep \<circ> fst) (concat xss)"
    by (auto simp: assoc_of_def)
  moreover have "(r, v) \<in> set (assoc_of rep (concat xss))"
    using map_of_SomeD [OF assms(3)] assms(2) by (auto simp: assoc_of_def)
  ultimately show ?thesis
    using assms(1) by (simp add: map_of_is_SomeI)
qed

text \<open>The entries of an inner node are those of its children, which lie on different paths.\<close>

lemma keys_on_path:
  assumes "lists_keys K rep (p @ [i]) (xss ! j) g" and "(k, v) \<in> set (xss ! j)"
  shows "path (hamt_hash K k) (length p) = p" and "pos (hamt_hash K k) (length p) = i"
proof -
  from lists_keysD(2) [OF assms] have "path (hamt_hash K k) (Suc (length p)) = p @ [i]" by simp
  then show "path (hamt_hash K k) (length p) = p" "pos (hamt_hash K k) (length p) = i"
    by (auto dest: path_prefix)
qed

lemma key_in_concat:
  assumes K: "lawful K rep"
    and sub: "\<And>j. j < length xss \<Longrightarrow> lists_keys K rep (p @ [pi j]) (xss ! j) (g j)"
    and k: "rep k \<in> set (map (rep \<circ> fst) (concat xss))"
  obtains j where "j < length xss" and "rep k \<in> set (map (rep \<circ> fst) (xss ! j))" and "pos (hamt_hash K k) (length p) = pi j"
proof -
  from k obtain a v j where a: "(a, v) \<in> set (xss ! j)" "j < length xss" "rep a = rep k"
    by (fastforce simp: in_set_conv_nth [of _ xss])
  have "pos (hamt_hash K k) (length p) = pi j"
    using keys_on_path(2) [OF sub [OF a(2)] a(1)] lawful_hash_eq [OF K a(3)] by simp
  with a that show thesis by force
qed

lemma distinct_children:
  assumes K: "lawful K rep"
    and sub: "\<And>j. j < length xss \<Longrightarrow> lists_keys K rep (p @ [pi j]) (xss ! j) (g j)"
    and inj: "\<And>i j. i < j \<Longrightarrow> j < length xss \<Longrightarrow> pi i \<noteq> pi j"
  shows "distinct (map (rep \<circ> fst) (concat xss))"
proof -
  have "distinct (concat (map (map (rep \<circ> fst)) xss))"
  proof (rule distinct_concat_map)
    show "distinct (map (rep \<circ> fst) (xss ! i))" if "i < length xss" for i
      using lists_keysD(1) [OF sub [OF that]] .
    show "set (map (rep \<circ> fst) (xss ! i)) \<inter> set (map (rep \<circ> fst) (xss ! j)) = {}" if "i < j" "j < length xss" for i j
    proof -
      have "i < length xss" using that by simp
      then have "rep a \<noteq> rep b" if "(a, v) \<in> set (xss ! i)" "(b, w) \<in> set (xss ! j)" for a b v w
        using keys_on_path(2) [OF sub that(1)] keys_on_path(2) [OF sub [OF \<open>j < length xss\<close>] that(2)]
          inj [OF \<open>i < j\<close> \<open>j < length xss\<close>] lawful_hash_eq [OF K, of a b] by auto
      then show ?thesis by fastforce
    qed
  qed
  then show ?thesis
    by (simp add: map_concat)
qed

lemma lists_concat:
  assumes K: "lawful K rep"
    and sub: "\<And>j. j < length xss \<Longrightarrow> lists_keys K rep (p @ [pi j]) (xss ! j) (g j)"
    and inj: "\<And>i j. i < j \<Longrightarrow> j < length xss \<Longrightarrow> pi i \<noteq> pi j"
    and hit: "\<And>j k. j < length xss \<Longrightarrow> pos (hamt_hash K k) (length p) = pi j \<Longrightarrow> f k = g j k"
    and miss: "\<And>k. (\<And>j. j < length xss \<Longrightarrow> pos (hamt_hash K k) (length p) \<noteq> pi j) \<Longrightarrow> f k = None"
  shows "lists_keys K rep p (concat xss) f"
proof -
  note d = distinct_children [OF K sub inj]
  have here: "f k = map_of (assoc_of rep (xss ! j)) (rep k)"
    if "path (hamt_hash K k) (length p) = p" "j < length xss" "pos (hamt_hash K k) (length p) = pi j" for k j
    using lists_keysD(3) [OF sub [OF that(2)], of k] hit [OF that(2,3)] that by (simp add: path_Suc)
  have "f k = map_of (assoc_of rep (concat xss)) (rep k)" if k: "path (hamt_hash K k) (length p) = p" for k
  proof (cases "rep k \<in> set (map (rep \<circ> fst) (concat xss))")
    case True
    then obtain j where j: "j < length xss" "rep k \<in> set (map (rep \<circ> fst) (xss ! j))" "pos (hamt_hash K k) (length p) = pi j"
      using key_in_concat [OF K sub] by metis
    have "rep k \<in> fst ` set (assoc_of rep (xss ! j))"
      using j(2) by (force simp: assoc_of_def)
    then obtain v where "map_of (assoc_of rep (xss ! j)) (rep k) = Some v"
      by (metis map_of_eq_None_iff not_None_eq)
    with here [OF k j(1,3)] map_of_assoc_concat [OF d, of "xss ! j" "rep k" v] j(1) show ?thesis by simp
  next
    case False
    then have "rep k \<notin> set (map (rep \<circ> fst) (xss ! j))" if "j < length xss" for j
      using nth_mem [OF that] by fastforce
    then have "f k = None"
      using here [OF k] miss [of k] by (metis map_of_assoc_None)
    with False show ?thesis by (simp add: map_of_assoc_None)
  qed
  moreover have "path (hamt_hash K k) (length p) = p" if "(k, v) \<in> set (concat xss)" for k v
  proof -
    from that obtain j where j: "j < length xss" "(k, v) \<in> set (xss ! j)"
      by (auto simp: in_set_conv_nth [of _ xss])
    show ?thesis by (rule keys_on_path(1) [OF sub [OF j(1)] j(2)])
  qed
  ultimately show ?thesis
    using d by (auto simp: lists_keys_def)
qed

lemma lists_items:
  fixes n :: "('k, 'v) node" and x :: "('k, 'v) slot"
  assumes K: "lawful K rep"
  shows "wf_node K rep p n \<Longrightarrow> lists_keys K rep p (items n) (look K (length p) n)"
    and "wf_slot K rep q x \<Longrightarrow> lists_keys K rep q (slot_items x) (look_slot K rep (length q) x)"
proof (induction rule: wf_node_wf_slot.inducts)
  case (wf_bitmap p sl bm)
  note look = look_bitmap [OF K wf_bitmap(2,1)]
  have "lists_keys K rep p (concat (map slot_items sl)) (look K (length p) (Bitmap_Node bm sl))"
  proof (rule lists_concat [OF K, where pi = "\<lambda>j. bits bm ! j" and g = "\<lambda>j. look_slot K rep (Suc (length p)) (sl ! j)"])
    fix j assume j: "j < length (map slot_items sl)"
    then have e: "entry bm sl (bits bm ! j) = Some (sl ! j)"
      using entry_nth [OF wf_bitmap(2)] by simp
    show "lists_keys K rep (p @ [bits bm ! j]) (map slot_items sl ! j) (look_slot K rep (Suc (length p)) (sl ! j))"
      using wf_bitmap(5) [OF e] j by simp
    show "look K (length p) (Bitmap_Node bm sl) k = look_slot K rep (Suc (length p)) (sl ! j) k"
      if "pos (hamt_hash K k) (length p) = bits bm ! j" for k
      using that e by (simp add: look)
  next
    show "bits bm ! i \<noteq> bits bm ! j" if "i < j" "j < length (map slot_items sl)" for i j
      using that wf_bitmap(2) distinct_bits [of bm] by (simp add: popcount32_bits nth_eq_iff_index_eq)
  next
    fix k assume m: "\<And>j. j < length (map slot_items sl) \<Longrightarrow> pos (hamt_hash K k) (length p) \<noteq> bits bm ! j"
    have "\<not> bit bm (pos (hamt_hash K k) (length p))"
    proof
      assume "bit bm (pos (hamt_hash K k) (length p))"
      then have "pos (hamt_hash K k) (length p) \<in> set (bits bm)" by (simp add: set_bits)
      then obtain j where "j < length (bits bm)" "bits bm ! j = pos (hamt_hash K k) (length p)"
        by (auto simp: in_set_conv_nth)
      with m [of j] wf_bitmap(2) show False by (simp add: popcount32_bits)
    qed
    then show "look K (length p) (Bitmap_Node bm sl) k = None"
      by (simp add: look entry_None)
  qed
  then show ?case by simp
next
  case (wf_array p arr count)
  let ?child = "\<lambda>x. case x of None \<Rightarrow> [] | Some n \<Rightarrow> items n"
  have l: "length p \<le> 6" using wf_array(1) by simp
  have "lists_keys K rep p (concat (map ?child arr)) (look K (length p) (Array_Node arr count))"
  proof (rule lists_concat [OF K, where pi = "\<lambda>j. j"
        and g = "\<lambda>j k. case arr ! j of None \<Rightarrow> None | Some n \<Rightarrow> look K (Suc (length p)) n k"])
    fix j assume j: "j < length (map ?child arr)"
    then show "lists_keys K rep (p @ [j]) (map ?child arr ! j)
        (\<lambda>k. case arr ! j of None \<Rightarrow> None | Some n \<Rightarrow> look K (Suc (length p)) n k)"
      using wf_array(5) [of j] wf_array(6) [of j] wf_array(7) [of j] wf_array(2) by (cases "arr ! j") (auto simp: lists_keys_def [of K rep _ "[]"] assoc_of_def)
    show "look K (length p) (Array_Node arr count) k = (case arr ! j of None \<Rightarrow> None | Some n \<Rightarrow> look K (Suc (length p)) n k)"
      if "pos (hamt_hash K k) (length p) = j" for k
      using that l by (simp add: look_array [OF wf_array(2)])
  next
    show "look K (length p) (Array_Node arr count) k = None"
      if "\<And>j. j < length (map ?child arr) \<Longrightarrow> pos (hamt_hash K k) (length p) \<noteq> j" for k
      using that [of "pos (hamt_hash K k) (length p)"] wf_array(2) pos_lt by simp
  qed simp
  then show ?case by simp
next
  case (wf_collision p h xs)
  then show ?case
    by (auto simp: lists_keys_def look_collision [OF K])
next
  case (wf_item k p v)
  then show ?case
    by (auto simp: lists_keys_def assoc_of_def)
qed simp_all

subsection \<open>Stepping\<close>

text \<open>The entries still to come from a node at a position, and the work left there: each step but a yield reduces it.\<close>

fun node_rest :: "('k, 'v) node \<Rightarrow> nat \<Rightarrow> ('k \<times> 'v) list" where
  "node_rest (Bitmap_Node bm sl) i = concat (map slot_items (drop i sl))"
| "node_rest (Array_Node arr count) i = concat (map (\<lambda>x. case x of None \<Rightarrow> [] | Some n \<Rightarrow> items n) (drop i arr))"
| "node_rest (Collision_Node h xs) i = drop i xs"

fun work :: "('k, 'v) node \<Rightarrow> nat"
  and slot_work :: "('k, 'v) slot \<Rightarrow> nat"
where
  "work (Bitmap_Node bm sl) = Suc (sum_list (map slot_work sl))"
| "work (Array_Node arr count) = Suc (sum_list (map (\<lambda>x. case x of None \<Rightarrow> 0 | Some n \<Rightarrow> Suc (work n)) arr))"
| "work (Collision_Node h xs) = 1"
| "slot_work (Item k v) = 0"
| "slot_work (Sub n) = Suc (work n)"

fun node_work :: "('k, 'v) node \<Rightarrow> nat \<Rightarrow> nat" where
  "node_work (Bitmap_Node bm sl) i = Suc (sum_list (map slot_work (drop i sl)))"
| "node_work (Array_Node arr count) i =
     Suc (sum_list (map (\<lambda>x. case x of None \<Rightarrow> 0 | Some n \<Rightarrow> Suc (work n)) (drop i arr)))"
| "node_work (Collision_Node h xs) i = 1"

lemma node_start [simp]: "node_rest n 0 = items n" "node_work n 0 = work n"
  by (cases n; simp)+

text \<open>The path from the root to the current node, innermost node last.\<close>

definition frames :: "('k, 'v) iter \<Rightarrow> (('k, 'v) node \<times> nat) list" where
  "frames it = map (\<lambda>l. (the (i_nodes it ! l), i_pos it ! l)) [0..<nat (i_level it + 1)]"

definition rest :: "('k, 'v) iter \<Rightarrow> ('k \<times> 'v) list" where
  "rest it = concat (map (\<lambda>(n, i). node_rest n i) (rev (frames it)))"

definition iter_work :: "('k, 'v) iter \<Rightarrow> nat" where
  "iter_work it = sum_list (map (\<lambda>(n, i). node_work n i) (frames it))"

definition valid :: "'k keyops \<Rightarrow> ('k \<Rightarrow> 'r) \<Rightarrow> ('k, 'v) iter \<Rightarrow> bool" where
  "valid K rep it \<longleftrightarrow> length (i_nodes it) = 8 \<and> length (i_pos it) = 8 \<and> - 1 \<le> i_level it \<and> i_level it < 8
     \<and> (\<forall>l. int l \<le> i_level it \<longrightarrow> (\<exists>n p. i_nodes it ! l = Some n \<and> length p = l \<and> wf_node K rep p n))"

lemma frames_top:
  assumes "i_level it = int l"
  shows "frames it = map (\<lambda>l. (the (i_nodes it ! l), i_pos it ! l)) [0..<l] @ [(the (i_nodes it ! l), i_pos it ! l)]"
  using assms by (simp add: frames_def nat_add_distrib)

lemma valid_init: "wf_node K rep [] n \<Longrightarrow> valid K rep (hamt_iterator_init n)"
  by (auto simp: valid_def hamt_iterator_init_def HAMT_MAX_TREE_DEPTH_def)

lemma rest_init: "rest (hamt_iterator_init n) = items n"
  by (simp add: rest_def frames_def hamt_iterator_init_def HAMT_MAX_TREE_DEPTH_def)

lemma valid_up: "valid K rep it \<Longrightarrow> 0 \<le> i_level it \<Longrightarrow> valid K rep (iter_up it)"
  by (auto simp: valid_def iter_up_def)

lemma frames_up: "i_level it = int l \<Longrightarrow> frames it = frames (iter_up it) @ [(the (i_nodes it ! l), i_pos it ! l)]"
  by (simp add: frames_top) (simp add: frames_def iter_up_def)

text \<open>Leaving a node, entering a child, and yielding an entry.\<close>

definition steps_to :: "'k keyops \<Rightarrow> ('k \<Rightarrow> 'r) \<Rightarrow> ('k, 'v) iter \<Rightarrow> ('k, 'v) iter_step option \<Rightarrow> bool" where
  "steps_to K rep it s = (case s of
       None \<Rightarrow> False
     | Some (Again it') \<Rightarrow> valid K rep it' \<and> rest it' = rest it \<and> iter_work it' < iter_work it
     | Some (I_ITEM k v it') \<Rightarrow> valid K rep it' \<and> rest it = (k, v) # rest it')"

lemma step_up:
  assumes "valid K rep it" and "i_level it = int l" and "i_nodes it ! l = Some n" and "node_rest n (i_pos it ! l) = []"
  shows "steps_to K rep it (Some (Again (iter_up it)))"
proof -
  have "0 < node_work n (i_pos it ! l)" by (cases n) simp_all
  with assms show ?thesis
    by (simp add: steps_to_def valid_up rest_def iter_work_def frames_up [OF assms(2)])
qed

lemma step_down:
  assumes v: "valid K rep it" and l: "i_level it = int l" "l \<le> 6" and n: "i_nodes it ! l = Some n"
    and c: "wf_node K rep p child" "length p = Suc l"
    and r: "node_rest n (i_pos it ! l) = items child @ node_rest n i"
      "node_work n (i_pos it ! l) = Suc (work child) + node_work n i"
  shows "steps_to K rep it (map_option Again (iter_down i child it))"
proof -
  let ?it = "\<lparr> i_nodes = (i_nodes it)[l + 1 := Some child], i_pos = (i_pos it)[l := i, l + 1 := 0], i_level = i_level it + 1 \<rparr>"
  have d: "iter_down i child it = Some ?it"
    using l by (simp add: iter_down_def HAMT_MAX_TREE_DEPTH_def)
  have len: "length (i_nodes it) = 8" "length (i_pos it) = 8" using v by (auto simp: valid_def)
  have "frames ?it = frames (iter_up it) @ [(n, i), (child, 0)]"
    using l n len by (simp add: frames_def iter_up_def nat_add_distrib)
  moreover have "valid K rep ?it"
    using v l c len by (auto simp: valid_def nth_list_update)
  ultimately show ?thesis
    using d n r by (simp add: steps_to_def rest_def iter_work_def frames_up [OF l(1)])
qed

lemma step_yield:
  assumes v: "valid K rep it" and l: "i_level it = int l" and n: "i_nodes it ! l = Some n"
    and r: "node_rest n (i_pos it ! l) = (k, v) # node_rest n (Suc (i_pos it ! l))"
  shows "steps_to K rep it (Some (I_ITEM k v (it\<lparr> i_pos := (i_pos it)[l := i_pos it ! l + 1] \<rparr>)))"
proof -
  let ?it = "it\<lparr> i_pos := (i_pos it)[l := i_pos it ! l + 1] \<rparr>"
  have "l < length (i_pos it)" using v l by (auto simp: valid_def)
  then have "frames ?it = frames (iter_up it) @ [(n, Suc (i_pos it ! l))]"
    using l n by (simp add: frames_def iter_up_def nat_add_distrib)
  moreover have "valid K rep ?it" using v by (auto simp: valid_def)
  ultimately show ?thesis
    using n r by (simp add: steps_to_def rest_def frames_up [OF l])
qed

lemma drop_first_slot:
  assumes "first_slot (\<lambda>x. x \<noteq> None) (drop i arr) = Some d"
  obtains n where "i + d < length arr" and "arr ! (i + d) = Some n"
    and "drop i arr = replicate d None @ Some n # drop (i + d + 1) arr"
proof -
  note f = first_slot_SomeD [OF assms]
  then have d: "i + d < length arr" "arr ! (i + d) \<noteq> None" by auto
  then obtain n where n: "arr ! (i + d) = Some n" by blast
  have "take d (drop i arr) = replicate d None"
    using f by (intro nth_equalityI) auto
  moreover have "drop i arr = take d (drop i arr) @ arr ! (i + d) # drop (i + d + 1) arr"
    using id_take_nth_drop [of d "drop i arr"] f by (simp add: add.commute)
  ultimately show thesis using that d n by simp
qed

lemma iterator_step:
  assumes v: "valid K rep it" and "0 \<le> i_level it"
  shows "steps_to K rep it (hamt_iterator_step it)"
proof -
  obtain l where l: "i_level it = int l" using assms(2) nonneg_int_cases by blast
  obtain n p where n: "i_nodes it ! l = Some n" "length p = l" "wf_node K rep p n"
    using v l unfolding valid_def by fastforce
  have step: "hamt_iterator_step it = (case n of
      Bitmap_Node _ sl \<Rightarrow> hamt_iterator_bitmap_next sl it
    | Array_Node arr _ \<Rightarrow> hamt_iterator_array_next arr it
    | Collision_Node _ xs \<Rightarrow> hamt_iterator_collision_next xs it)"
    using v l n(1) by (simp add: hamt_iterator_step_def item_at_def valid_def)
  let ?i = "i_pos it ! l"
  note up = step_up [OF v l n(1)] and down = step_down [OF v l _ n(1)] and yield = step_yield [OF v l n(1)]
  show ?thesis
  proof (cases n)
    case (Bitmap_Node bm sl)
    note w = wf_bitmapD [OF n(3) [unfolded Bitmap_Node], unfolded n(2)]
    show ?thesis
    proof (cases "?i < length sl")
      case True
      then have d: "drop ?i sl = sl ! ?i # drop (Suc ?i) sl" by (simp add: Cons_nth_drop_Suc)
      have s: "wf_slot K rep (p @ [bits bm ! ?i]) (sl ! ?i)"
        using w(4) [OF entry_nth [OF w(2) True]] .
      show ?thesis
      proof (cases "sl ! ?i")
        case (Sub child)
        with s n(2) have "wf_node K rep (p @ [bits bm ! ?i]) child" "length (p @ [bits bm ! ?i]) = Suc l" by auto
        from down [OF w(1) this, of "Suc ?i"] show ?thesis
          using True d Sub by (simp add: step Bitmap_Node hamt_iterator_bitmap_next_def l)
      next
        case (Item k v)
        with yield [of k v] show ?thesis
          using True d by (simp add: step Bitmap_Node hamt_iterator_bitmap_next_def l)
      qed
    next
      case False
      with up show ?thesis
        by (simp add: step Bitmap_Node hamt_iterator_bitmap_next_def l)
    qed
  next
    case (Array_Node arr count)
    note w = wf_arrayD [OF n(3) [unfolded Array_Node], unfolded n(2)]
    show ?thesis
    proof (cases "first_slot (\<lambda>x. x \<noteq> None) (drop ?i arr)")
      case None
      then have "drop ?i arr = replicate (length arr - ?i) None"
        by (intro replicate_eqI) auto
      with up None show ?thesis
        by (simp add: step Array_Node hamt_iterator_array_next_def l)
    next
      case (Some d)
      then obtain child where d: "?i + d < length arr" "arr ! (?i + d) = Some child"
        "drop ?i arr = replicate d None @ Some child # drop (?i + d + 1) arr"
        by (rule drop_first_slot)
      have "wf_node K rep (p @ [?i + d]) child" "length (p @ [?i + d]) = Suc l"
        using w(2) w(5) [OF _ d(2)] d(1) n(2) by auto
      from down [OF _ this, of "?i + d + 1"] show ?thesis
        using w(1) d Some by (simp add: step Array_Node hamt_iterator_array_next_def l)
    qed
  next
    case (Collision_Node h xs)
    show ?thesis
    proof (cases "?i < length xs")
      case True
      then have "drop ?i xs = xs ! ?i # drop (Suc ?i) xs" by (simp add: Cons_nth_drop_Suc)
      with yield [of "fst (xs ! ?i)" "snd (xs ! ?i)"] True show ?thesis
        by (simp add: step Collision_Node hamt_iterator_collision_next_def l Let_def)
    next
      case False
      with up show ?thesis
        by (simp add: step Collision_Node hamt_iterator_collision_next_def l)
    qed
  qed
qed

text \<open>The next entry, and the end.\<close>

lemma iterator_next:
  assumes "valid K rep it"
  shows "case rest it of
      [] \<Rightarrow> \<exists>it'. hamt_iterator_next it = Some (None, it')
    | (k, v) # xs \<Rightarrow> \<exists>it'. hamt_iterator_next it = Some (Some (k, v), it') \<and> valid K rep it' \<and> rest it' = xs"
  using assms
proof (induction it rule: measure_induct_rule [of iter_work])
  case (less it)
  show ?case
  proof (cases "i_level it < 0")
    case True
    then have "hamt_iterator_next it = Some (None, it)" "rest it = []"
      by (simp_all add: hamt_iterator_next.simps [of it] rest_def frames_def)
    then show ?thesis by simp
  next
    case False
    then have "steps_to K rep it (hamt_iterator_step it)"
      using iterator_step [OF less.prems] by simp
    then show ?thesis
    proof (cases "hamt_iterator_step it")
      case (Some s)
      then have nx: "hamt_iterator_next it = (case s of Again it' \<Rightarrow> hamt_iterator_next it' | I_ITEM k v it' \<Rightarrow> Some (Some (k, v), it'))"
        using False by (simp add: hamt_iterator_next.simps [of it])
      show ?thesis
      proof (cases s)
        case (Again it')
        with \<open>steps_to K rep it (hamt_iterator_step it)\<close> Some
        have "valid K rep it'" "rest it' = rest it" "iter_work it' < iter_work it"
          by (simp_all add: steps_to_def)
        with less.IH [of it'] nx Again show ?thesis
          by (cases "rest it") auto
      next
        case (I_ITEM k v it')
        with \<open>steps_to K rep it (hamt_iterator_step it)\<close> Some nx show ?thesis
          by (simp add: steps_to_def)
      qed
    qed (simp add: steps_to_def)
  qed
qed

lemma iterator_next_Nil: "valid K rep it \<Longrightarrow> rest it = [] \<Longrightarrow> \<exists>it'. hamt_iterator_next it = Some (None, it')"
  using iterator_next [of K rep it] by simp

lemma iterator_next_Cons:
  assumes "valid K rep it" and "rest it = (k, v) # xs"
  obtains it' where "hamt_iterator_next it = Some (Some (k, v), it')" and "valid K rep it'" and "rest it' = xs"
  using iterator_next [OF assms(1)] assms(2) by auto

text \<open>The loop of a program over an iterator.\<close>

partial_function (option) exhaust :: "('k, 'v, 'y) hamt_iterator \<Rightarrow> 'y list option" where
  "exhaust it = Option.bind (hamt_baseiter_tp_iternext it)
     (\<lambda>(item, it'). case item of None \<Rightarrow> Some [] | Some y \<Rightarrow> Option.bind (exhaust it') (\<lambda>ys. Some (y # ys)))"

lemma exhaust_rest:
  "valid K rep (hi_iter it) \<Longrightarrow> exhaust it = Some (map (\<lambda>(k, v). hi_yield it k v) (rest (hi_iter it)))"
proof (induction "rest (hi_iter it)" arbitrary: it)
  case Nil
  then show ?case
    using iterator_next_Nil [OF Nil(2)] by (auto simp: exhaust.simps [of it] hamt_baseiter_tp_iternext_def)
next
  case (Cons kv xs)
  obtain k v where kv: "kv = (k, v)" by (cases kv)
  obtain i where i: "hamt_iterator_next (hi_iter it) = Some (Some (k, v), i)" "valid K rep i" "rest i = xs"
    using iterator_next_Cons [OF Cons(3)] Cons(2) kv by metis
  have "exhaust (it\<lparr> hi_iter := i \<rparr>) = Some (map (\<lambda>(k, v). hi_yield it k v) xs)"
    using Cons(1) [of "it\<lparr> hi_iter := i \<rparr>"] i by simp
  then show ?case
    using i by (simp add: exhaust.simps [of it] hamt_baseiter_tp_iternext_def Cons(2) [symmetric] kv)
qed

text \<open>The loop of \<^verbatim>\<open>_PyHamt_Eq\<close>: all entries of one in the other, with equal values.\<close>

lemma eq_loop:
  assumes "valid K rep it" and "\<And>k. hamt_find K w k = Some (found (f k))"
    and "\<And>a b. val_eq a b = Some (eqv a b)"
  shows "hamt_eq_loop K val_eq w it =
    Some (if \<forall>(k, v) \<in> set (rest it). \<exists>u. f k = Some u \<and> eqv v u then 1 else 0)"
  using assms(1)
proof (induction "rest it" arbitrary: it)
  case Nil
  then show ?case
    using iterator_next_Nil [OF Nil(2)] by (auto simp: hamt_eq_loop.simps [of _ _ _ it])
next
  case (Cons kv xs)
  obtain k v where kv: "kv = (k, v)" by (cases kv)
  obtain i where i: "hamt_iterator_next it = Some (Some (k, v), i)" "valid K rep i" "rest i = xs"
    using iterator_next_Cons [OF Cons(3)] Cons(2) kv by metis
  have step: "hamt_eq_loop K val_eq w it = (case f k of None \<Rightarrow> Some 0
      | Some u \<Rightarrow> if eqv v u then hamt_eq_loop K val_eq w i else Some 0)"
    using i(1) by (simp add: hamt_eq_loop.simps [of _ _ _ it] assms(2,3) split: option.split)
  show ?case
    using Cons(1) [of i] i(2,3) by (auto simp: step Cons(2) [symmetric] kv split: option.split)
qed

end
