(* ===== verification/Hamt_Map.thy ===== *)
theory Hamt_Map
  imports Hamt_Iter
begin

text \<open>
  The mapping object as a finite map: the interface its clients rely on, with the trie as its provider, and the
  properties of the type.
\<close>

subsection \<open>The interface\<close>

text \<open>
  An immutable map whose operations may fail with an exception (the inner option). \<open>keys\<close> says what the keys obey and
  stand for, \<open>rel\<close> which finite map an object is.
\<close>

datatype ('k, 'v) map_op = Put 'k 'v | Del 'k

fun run_ops :: "('h \<Rightarrow> 'k \<Rightarrow> 'v \<Rightarrow> 'h option option) \<Rightarrow> ('h \<Rightarrow> 'k \<Rightarrow> 'h option option) \<Rightarrow> ('k, 'v) map_op list \<Rightarrow> 'h
    \<Rightarrow> 'h option option" where
  "run_ops put del [] h = Some (Some h)"
| "run_ops put del (Put k v # ops) h =
     (case put h k v of Some (Some h') \<Rightarrow> run_ops put del ops h' | r \<Rightarrow> r)"
| "run_ops put del (Del k # ops) h =
     (case del h k of Some (Some h') \<Rightarrow> run_ops put del ops h' | r \<Rightarrow> r)"

fun spec_ops :: "('k \<Rightarrow> 'r) \<Rightarrow> ('k, 'v) map_op list \<Rightarrow> ('r \<Rightarrow> 'v option) \<Rightarrow> 'r \<Rightarrow> 'v option" where
  "spec_ops rep [] m = m"
| "spec_ops rep (Put k v # ops) m = spec_ops rep ops (m(rep k \<mapsto> v))"
| "spec_ops rep (Del k # ops) m = spec_ops rep ops (m(rep k := None))"

locale immutable_map =
  fixes keys :: "'c \<Rightarrow> ('k \<Rightarrow> 'r) \<Rightarrow> bool"
    and empty :: "'h"
    and put :: "'c \<Rightarrow> 'h \<Rightarrow> 'k \<Rightarrow> 'v \<Rightarrow> 'h option option"
    and del :: "'c \<Rightarrow> 'h \<Rightarrow> 'k \<Rightarrow> 'h option option"
    and get :: "'c \<Rightarrow> 'h \<Rightarrow> 'k \<Rightarrow> 'v hamt_find_t option"
    and len :: "'h \<Rightarrow> int"
    and rel :: "'c \<Rightarrow> ('k \<Rightarrow> 'r) \<Rightarrow> 'h \<Rightarrow> ('r \<Rightarrow> 'v option) \<Rightarrow> bool"
  assumes rel_empty: "keys c rep \<Longrightarrow> rel c rep empty Map.empty"
    and rel_put: "keys c rep \<Longrightarrow> rel c rep h m \<Longrightarrow> \<exists>h'. put c h k v = Some (Some h') \<and> rel c rep h' (m(rep k \<mapsto> v))"
    and rel_del: "keys c rep \<Longrightarrow> rel c rep h m \<Longrightarrow> \<exists>h'. del c h k = Some (Some h') \<and> rel c rep h' (m(rep k := None))"
    and rel_get: "keys c rep \<Longrightarrow> rel c rep h m \<Longrightarrow> get c h k = Some (found (m (rep k)))"
    and rel_len: "rel c rep h m \<Longrightarrow> len h = int (card (dom m))"
begin

lemma run_rel:
  assumes "keys c rep" and "rel c rep h m"
  shows "\<exists>h'. run_ops (put c) (del c) ops h = Some (Some h') \<and> rel c rep h' (spec_ops rep ops m)"
  using assms(2)
proof (induction ops arbitrary: h m)
  case (Cons x ops)
  show ?case
  proof (cases x)
    case (Put k v)
    obtain h' where "put c h k v = Some (Some h')" "rel c rep h' (m(rep k \<mapsto> v))"
      using rel_put [OF assms(1) Cons.prems] by blast
    with Cons.IH Put show ?thesis by simp
  next
    case (Del k)
    obtain h' where "del c h k = Some (Some h')" "rel c rep h' (m(rep k := None))"
      using rel_del [OF assms(1) Cons.prems] by blast
    with Cons.IH Del show ?thesis by simp
  qed
qed simp

lemma run_refines:
  assumes "keys c rep"
  shows "\<exists>h. run_ops (put c) (del c) ops empty = Some (Some h) \<and> (\<forall>k. get c h k = Some (found (spec_ops rep ops Map.empty (rep k))))
    \<and> len h = int (card (dom (spec_ops rep ops Map.empty)))"
  using run_rel [OF assms rel_empty [OF assms], of ops] rel_get [OF assms] rel_len by blast

end

subsection \<open>The trie provides it\<close>

definition hamt_rel :: "'k keyops \<Rightarrow> ('k \<Rightarrow> 'r) \<Rightarrow> ('k, 'v) hamt \<Rightarrow> ('r \<Rightarrow> 'v option) \<Rightarrow> bool" where
  "hamt_rel K rep h m \<longleftrightarrow> wf_node K rep [] (h_root h) \<and> (\<forall>k. look K 0 (h_root h) k = m (rep k))
     \<and> dom m \<subseteq> range rep \<and> finite (dom m) \<and> h_count h = int (card (dom m))"

lemma hamt_rel_New: "lawful K rep \<Longrightarrow> hamt_rel K rep PyHamt_New Map.empty"
  by (simp add: hamt_rel_def PyHamt_New_def wf_empty look_bitmap)

lemma hamt_rel_Assoc:
  assumes K: "lawful K rep" and h: "hamt_rel K rep h m"
  shows "\<exists>h'. PyHamt_Assoc K h k v = Some (Some h') \<and> hamt_rel K rep h' (m(rep k \<mapsto> v))"
proof -
  from h have w: "wf_node K rep [] (h_root h)" "\<And>k. look K 0 (h_root h) k = m (rep k)" and m: "dom m \<subseteq> range rep" "finite (dom m)"
    and c: "h_count h = int (card (dom m))" by (auto simp: hamt_rel_def)
  have "assoc_result K rep [] (h_root h) k v (hamt_node_assoc K (h_root h) 0 (hamt_hash K k) k v)"
    using assoc_all [OF K, of 0] w(1) by (fastforce simp: assoc_ok_def)
  then show ?thesis
  proof (cases rule: assoc_resultE)
    case 1
    with w(2) [of k] have "m(rep k \<mapsto> v) = m" by auto
    with 1 h show ?thesis by (simp add: PyHamt_Assoc_def lawful_hash [OF K])
  next
    case (2 leaf n)
    have "look K 0 n k' = (m(rep k \<mapsto> v)) (rep k')" for k'
      using updated_look [OF 2(6), of k'] w(2) by simp
    moreover have "leaf = (rep k \<notin> dom m)"
      using 2(5) w(2) [of k] by auto
    then have "(if leaf then h_count h + 1 else h_count h) = int (card (dom (m(rep k \<mapsto> v))))"
      using m(2) c by (auto simp: insert_absorb card_insert_if)
    ultimately show ?thesis
      using 2(1,2) m by (auto simp: PyHamt_Assoc_def lawful_hash [OF K] hamt_rel_def)
  qed
qed

lemma look_thin_item:
  assumes K: "lawful K rep" and w: "wf_node K rep [] n" "thin n" and k: "look K 0 n k \<noteq> None"
    and m: "\<And>k. look K 0 n k = m (rep k)" "dom m \<subseteq> range rep" and other: "\<And>k'. rep k' \<noteq> rep k \<Longrightarrow> look K 0 n k' = None"
  shows "m(rep k := None) = Map.empty"
proof (rule ext)
  fix r
  show "(m(rep k := None)) r = None"
  proof (cases "r \<in> range rep")
    case True
    then show ?thesis using other m(1) by auto
  next
    case False
    then show ?thesis using m(2) by (auto simp: domIff)
  qed
qed

lemma hamt_rel_Without:
  assumes K: "lawful K rep" and h: "hamt_rel K rep h m"
  shows "\<exists>h'. PyHamt_Without K h k = Some (Some h') \<and> hamt_rel K rep h' (m(rep k := None))"
proof -
  from h have w: "wf_node K rep [] (h_root h)" "\<And>k. look K 0 (h_root h) k = m (rep k)" and m: "dom m \<subseteq> range rep" "finite (dom m)"
    and c: "h_count h = int (card (dom m))" by (auto simp: hamt_rel_def)
  have "without_result K rep [] (h_root h) k (hamt_node_without K (h_root h) 0 (hamt_hash K k) k)"
    using without_all [OF K, of 0] w(1) by (fastforce simp: without_ok_def)
  then show ?thesis
  proof (cases rule: without_resultE)
    case 1
    with w(2) [of k] have "m(rep k := None) = m" by auto
    with 1 h show ?thesis by (simp add: PyHamt_Without_def lawful_hash [OF K])
  next
    case 2
    have "m(rep k := None) = Map.empty"
      by (rule look_thin_item [OF K w(1) 2(2) _ w(2) m(1)]) (use 2 in auto)
    with 2(1) hamt_rel_New [OF K] show ?thesis
      by (simp add: PyHamt_Without_def lawful_hash [OF K])
  next
    case (3 n)
    have n: "wf_node K rep [] n" "updated K rep 0 (h_root h) n k None"
      using 3(3) by (simp_all add: new_ok_def)
    have "look K 0 n k' = (m(rep k := None)) (rep k')" for k'
      using updated_look [OF n(2), of k'] w(2) by simp
    moreover have "rep k \<in> dom m" using 3(2) w(2) [of k] by auto
    then have "h_count h - 1 = int (card (dom (m(rep k := None))))"
      using m(2) c card_gt_0_iff [of "dom m"] by (auto simp: of_nat_diff Suc_leI)
    ultimately show ?thesis
      using 3(1) n(1) m by (auto simp: PyHamt_Without_def lawful_hash [OF K] hamt_rel_def)
  qed
qed

lemma hamt_rel_find:
  assumes K: "lawful K rep" and h: "hamt_rel K rep h m"
  shows "hamt_find K h k = Some (found (m (rep k)))"
proof (cases "h_count h = 0")
  case True
  with h have "m = Map.empty" by (auto simp: hamt_rel_def)
  with True show ?thesis by (simp add: hamt_find_def)
next
  case False
  from h have w: "wf_node K rep [] (h_root h)" "look K 0 (h_root h) k = m (rep k)" by (auto simp: hamt_rel_def)
  from find_look(1) [OF w(1) K, of k] w(2) False show ?thesis
    by (simp add: hamt_find_def lawful_hash [OF K])
qed

interpretation hamt: immutable_map lawful PyHamt_New PyHamt_Assoc PyHamt_Without hamt_find PyHamt_Len hamt_rel
  by unfold_locales
    (simp_all add: hamt_rel_New hamt_rel_Assoc hamt_rel_Without hamt_rel_find PyHamt_Len_def, simp add: hamt_rel_def)

text \<open>The entries an iterator passes.\<close>

lemma hamt_rel_items:
  assumes K: "lawful K rep" and h: "hamt_rel K rep h m"
  shows "distinct (map (rep \<circ> fst) (items (h_root h)))" and "map_of (assoc_of rep (items (h_root h))) = m"
    and "int (length (items (h_root h))) = h_count h"
proof -
  let ?xs = "items (h_root h)"
  from h have w: "wf_node K rep [] (h_root h)" "\<And>k. look K 0 (h_root h) k = m (rep k)" and m: "dom m \<subseteq> range rep"
    and c: "h_count h = int (card (dom m))" by (auto simp: hamt_rel_def)
  note l = lists_keysD [OF lists_items(1) [OF K w(1)], simplified]
  show d: "distinct (map (rep \<circ> fst) ?xs)" using l(1) by (simp add: comp_def)
  show e: "map_of (assoc_of rep ?xs) = m"
  proof (rule ext)
    fix r
    show "map_of (assoc_of rep ?xs) r = m r"
    proof (cases "r \<in> range rep")
      case True
      then show ?thesis using l(3) w(2) by auto
    next
      case False
      then have "r \<notin> set (map (rep \<circ> fst) ?xs)" by auto
      moreover have "m r = None" using False m by (metis domIff subsetD)
      ultimately show ?thesis by (simp add: map_of_assoc_None)
    qed
  qed
  have "map fst (assoc_of rep ?xs) = map (rep \<circ> fst) ?xs" by (auto simp: assoc_of_def)
  then have "card (dom m) = length ?xs"
    using d by (simp add: e [symmetric] dom_map_of_conv_image_fst flip: set_map) (metis distinct_card length_map)
  with c show "int (length ?xs) = h_count h" by simp
qed

lemma hamt_rel_item:
  assumes "lawful K rep" and "hamt_rel K rep h m"
  shows "(\<exists>k. rep k = r \<and> (k, v) \<in> set (items (h_root h))) \<longleftrightarrow> m r = Some v"
proof -
  note i = hamt_rel_items [OF assms]
  have "map fst (assoc_of rep (items (h_root h))) = map (rep \<circ> fst) (items (h_root h))"
    by (auto simp: assoc_of_def)
  then have "m r = Some v \<longleftrightarrow> (r, v) \<in> set (assoc_of rep (items (h_root h)))"
    using i(1) by (simp flip: i(2))
  then show ?thesis by (auto simp: assoc_of_def)
qed

lemma hamt_rel_iter:
  assumes "lawful K rep" and "hamt_rel K rep h m"
  shows "valid K rep (hamt_iterator_init (h_root h))" and "exhaust (hamt_baseiter_new f h) = Some (map (\<lambda>(k, v). f k v) (items (h_root h)))"
proof -
  show v: "valid K rep (hamt_iterator_init (h_root h))"
    using assms(2) by (intro valid_init) (simp add: hamt_rel_def)
  show "exhaust (hamt_baseiter_new f h) = Some (map (\<lambda>(k, v). f k v) (items (h_root h)))"
    using exhaust_rest [of K rep "hamt_baseiter_new f h"] v by (simp add: hamt_baseiter_new_def rest_init)
qed

definition maps_eq :: "('v \<Rightarrow> 'v \<Rightarrow> bool) \<Rightarrow> ('r \<Rightarrow> 'v option) \<Rightarrow> ('r \<Rightarrow> 'v option) \<Rightarrow> bool" where
  "maps_eq eqv m m' \<longleftrightarrow> dom m = dom m' \<and> (\<forall>r v v'. m r = Some v \<longrightarrow> m' r = Some v' \<longrightarrow> eqv v v')"

lemma hamt_rel_eq:
  fixes v :: "('k, 'v) hamt"
  assumes K: "lawful K rep" and v: "hamt_rel K rep v m" and w: "hamt_rel K rep w m'"
    and e: "\<And>a b. val_eq a b = Some (eqv a b)" and r: "\<And>a. eqv a a" and same: "same \<Longrightarrow> v = w"
  shows "PyHamt_Eq K val_eq same v w = Some (if maps_eq eqv m m' then 1 else 0)"
proof (cases same)
  case True
  then have "m = m'"
    using same hamt_rel_items(2) [OF K v] hamt_rel_items(2) [OF K w] by simp
  then have "maps_eq eqv m m'" using r by (auto simp: maps_eq_def)
  with True show ?thesis by (simp add: PyHamt_Eq_def)
next
  case False
  have fin: "finite (dom m)" "finite (dom m')" and c: "h_count v = int (card (dom m))" "h_count w = int (card (dom m'))"
    using v w by (auto simp: hamt_rel_def)
  show ?thesis
  proof (cases "h_count v = h_count w")
    case True
    have "(\<forall>(k, a) \<in> set (items (h_root v)). \<exists>u. m' (rep k) = Some u \<and> eqv a u)
        \<longleftrightarrow> (\<forall>r a. m r = Some a \<longrightarrow> (\<exists>u. m' r = Some u \<and> eqv a u))"
      by (simp add: hamt_rel_item [OF K v, symmetric]) blast
    also have "\<dots> \<longleftrightarrow> maps_eq eqv m m'"
    proof
      assume a: "\<forall>r a. m r = Some a \<longrightarrow> (\<exists>u. m' r = Some u \<and> eqv a u)"
      then have "dom m \<subseteq> dom m'" by auto
      then have "dom m = dom m'"
        using True c fin by (intro card_subset_eq) auto
      with a show "maps_eq eqv m m'" by (fastforce simp: maps_eq_def)
    qed (fastforce simp: maps_eq_def dom_def)
    finally show ?thesis
      using False True eq_loop [OF hamt_rel_iter(1) [OF K v] hamt_rel_find [OF K w], of val_eq eqv] e
      by (simp add: PyHamt_Eq_def rest_init)
  next
    case no: False
    with c have "\<not> maps_eq eqv m m'" by (auto simp: maps_eq_def)
    with no False show ?thesis by (simp add: PyHamt_Eq_def)
  qed
qed

subsection \<open>Properties\<close>

text \<open>
  C11. A HAMT is a finite map with persistent updates: after any sequence of set and delete operations, with any hashes
  (equal ones included), the code has stayed within defined behaviour but for one shift, no operation has failed, a
  lookup of any key gives what the same operations make of a map on what the keys stand for, and the count is
  the size of that map.
\<close>

theorem hamt_refines_map:
  assumes "lawful K rep"
  shows "\<exists>h. run_ops (PyHamt_Assoc K) (PyHamt_Without K) ops PyHamt_New = Some (Some h)
    \<and> (\<forall>k. hamt_find K h k = Some (found (spec_ops rep ops Map.empty (rep k))))
    \<and> PyHamt_Len h = int (card (dom (spec_ops rep ops Map.empty)))"
  by (rule hamt.run_refines [OF assms])

lemma run_hamt_rel:
  assumes "lawful K rep" and "run_ops (PyHamt_Assoc K) (PyHamt_Without K) ops PyHamt_New = Some (Some h)"
  shows "hamt_rel K rep h (spec_ops rep ops Map.empty)"
  using hamt.run_rel [OF assms(1) hamt_rel_New [OF assms(1)], of ops] assms(2) by auto

text \<open>
  C12. Iterating ends and is complete: a loop over the items of a HAMT built by any operations passes every entry of the
  map exactly once, and loops over its keys and its values pass the same entries in the same order.
\<close>

theorem hamt_iterates:
  assumes "lawful K rep" and "run_ops (PyHamt_Assoc K) (PyHamt_Without K) ops PyHamt_New = Some (Some h)"
  shows "\<exists>xs. exhaust (PyHamt_NewIterItems h) = Some xs \<and> exhaust (PyHamt_NewIterKeys h) = Some (map fst xs)
    \<and> exhaust (PyHamt_NewIterValues h) = Some (map snd xs) \<and> distinct (map (\<lambda>x. rep (fst x)) xs)
    \<and> map_of (map (\<lambda>(k, v). (rep k, v)) xs) = spec_ops rep ops Map.empty"
proof -
  note h = run_hamt_rel [OF assms]
  show ?thesis
    using hamt_rel_items(1,2) [OF assms(1) h]
    by (intro exI [of _ "items (h_root h)"])
      (simp add: PyHamt_NewIterItems_def PyHamt_NewIterKeys_def PyHamt_NewIterValues_def hamt_rel_iter(2) [OF assms(1) h]
        assoc_of_def comp_def split_beta)
qed

text \<open>
  C13. Comparing two HAMTs decides the equality of the maps they stand for, whatever the order of the operations that
  built them and however the tries look.
\<close>

theorem hamt_eq_decides:
  assumes "lawful K rep" and "\<forall>a b. val_eq a b = Some (eqv a b)" and "\<forall>a. eqv a a"
    and "run_ops (PyHamt_Assoc K) (PyHamt_Without K) ops PyHamt_New = Some (Some v)"
    and "run_ops (PyHamt_Assoc K) (PyHamt_Without K) ops' PyHamt_New = Some (Some w)" and "same \<longrightarrow> v = w"
  shows "PyHamt_Eq K val_eq same v w =
    Some (if maps_eq eqv (spec_ops rep ops Map.empty) (spec_ops rep ops' Map.empty) then 1 else 0)"
  using hamt_rel_eq [OF assms(1) run_hamt_rel [OF assms(1,4)] run_hamt_rel [OF assms(1,5)]] assms(2,3,6) by blast

subsection \<open>Keys that collide\<close>

text \<open>Numbers as keys with two hashes only, which agree in their lowest group.\<close>

definition demo_keys :: "nat keyops" where
  "demo_keys = \<lparr> py_hash = (\<lambda>k. if even k then 7 else 39), py_eq = (\<lambda>a b. Some (a = b)), stray = (\<lambda>h s. 0) \<rparr>"

lemma lawful_demo: "lawful demo_keys (\<lambda>k. k)"
  by (simp add: lawful_def demo_keys_def)

definition demo_ops :: "(nat, nat) map_op list" where
  "demo_ops = [Put 0 10, Put 2 12, Put 1 11, Del 0]"

definition demo_ops2 :: "(nat, nat) map_op list" where
  "demo_ops2 = [Put 1 11, Put 2 5, Put 2 12]"

lemma demo_spec: "spec_ops (\<lambda>k. k) demo_ops Map.empty = [1 \<mapsto> 11, 2 \<mapsto> 12]" "spec_ops (\<lambda>k. k) demo_ops2 Map.empty = [1 \<mapsto> 11, 2 \<mapsto> 12]"
  by (auto simp: demo_ops_def demo_ops2_def)

lemma demo_run:
  "\<exists>h. run_ops (PyHamt_Assoc demo_keys) (PyHamt_Without demo_keys) demo_ops PyHamt_New = Some (Some h)"
  "\<exists>h. run_ops (PyHamt_Assoc demo_keys) (PyHamt_Without demo_keys) demo_ops2 PyHamt_New = Some (Some h)"
  using hamt.run_refines [OF lawful_demo] by blast+

theorem hamt_refines_map_witness:
  "\<exists>h. run_ops (PyHamt_Assoc demo_keys) (PyHamt_Without demo_keys) demo_ops PyHamt_New = Some (Some h)
    \<and> hamt_find demo_keys h 2 = Some (F_FOUND 12) \<and> hamt_find demo_keys h 0 = Some F_NOT_FOUND \<and> PyHamt_Len h = 2"
proof -
  have "dom [1 \<mapsto> 11, 2 \<mapsto> 12] = {1, 2 :: nat}" by auto
  with hamt_refines_map [OF lawful_demo, of demo_ops] show ?thesis
    by (fastforce simp: demo_spec)
qed

theorem hamt_iterates_witness:
  "\<exists>h xs. run_ops (PyHamt_Assoc demo_keys) (PyHamt_Without demo_keys) demo_ops PyHamt_New = Some (Some h)
    \<and> exhaust (PyHamt_NewIterItems h) = Some xs \<and> map_of xs = [1 \<mapsto> 11, 2 \<mapsto> 12]"
proof -
  obtain h where h: "run_ops (PyHamt_Assoc demo_keys) (PyHamt_Without demo_keys) demo_ops PyHamt_New = Some (Some h)"
    using demo_run by blast
  from hamt_iterates [OF lawful_demo h] h show ?thesis
    by (auto simp: demo_spec)
qed

theorem hamt_eq_decides_witness:
  "\<exists>v w. run_ops (PyHamt_Assoc demo_keys) (PyHamt_Without demo_keys) demo_ops PyHamt_New = Some (Some v)
    \<and> run_ops (PyHamt_Assoc demo_keys) (PyHamt_Without demo_keys) demo_ops2 PyHamt_New = Some (Some w)
    \<and> PyHamt_Eq demo_keys (\<lambda>a b. Some (a = b)) False v w = Some 1"
proof -
  obtain v w where "run_ops (PyHamt_Assoc demo_keys) (PyHamt_Without demo_keys) demo_ops PyHamt_New = Some (Some v)"
    "run_ops (PyHamt_Assoc demo_keys) (PyHamt_Without demo_keys) demo_ops2 PyHamt_New = Some (Some w)"
    using demo_run by blast
  moreover from this have "PyHamt_Eq demo_keys (\<lambda>a b. Some (a = b)) False v w = Some 1"
    using hamt_eq_decides [OF lawful_demo, of "\<lambda>a b. Some (a = b)" "(=)" demo_ops v demo_ops2 w False]
    by (simp add: demo_spec maps_eq_def)
  ultimately show ?thesis by blast
qed

end
