(* ===== verification/Contexts.thy ===== *)
theory Contexts
  imports Hamt_Map
begin

text \<open>
  Context variables: src/Python/context.c. A context is an immutable mapping from variables to values, kept as a
  HAMT. Each thread has a current context; \<^verbatim>\<open>Context.run\<close> enters and leaves them like a stack. A variable caches the
  value it last had, with the thread and the version of the thread's context it had it in; a token
  remembers what \<^verbatim>\<open>ContextVar.set\<close> replaced.

  References to contexts, variables and tokens are numbers, handed out in ascending order; objects are not freed.
  As in Hamt, the outer option is \<open>None\<close> where the code has no defined behaviour: a reference to an object that does not
  exist, or a NULL field in an object the garbage collector cleared. Running out of memory and reference counts are
  left out, and each call is one step.
\<close>

subsection \<open>Objects\<close>

datatype pyobj = Py_None | Token_MISSING | Str string | Context nat | ContextVar nat | Token nat | Object nat

text \<open>\<open>HashError\<close> stands for an exception that hashing or comparing a key raises.\<close>

datatype exc = TypeError | RuntimeError | ValueError | LookupError | KeyError | HashError | ReprError

record pycontext =
  ctx_prev :: "nat option"
  ctx_vars :: "(nat, pyobj) hamt option"
  ctx_entered :: bool

record contextvar =
  var_name :: "string option"
  var_default :: "pyobj option"
  var_cached :: "pyobj option"
  var_cached_tsid :: u64
  var_cached_tsver :: u64
  var_hash :: u64

record contexttoken =
  tok_ctx :: "nat option"
  tok_var :: "nat option"
  tok_oldval :: "pyobj option"
  tok_used :: bool

text \<open>The fields of \<^verbatim>\<open>PyThreadState\<close> and \<^verbatim>\<open>PyInterpreterState\<close> the code uses. Threads are named by their id.\<close>

record tstate =
  ts_context :: "nat option"
  context_ver :: u64

definition CONTEXT_MAX_WATCHERS :: nat where
  "CONTEXT_MAX_WATCHERS = 8"

record interp =
  contexts :: "pycontext list"
  ctxvars :: "contextvar list"
  tokens :: "contexttoken list"
  threads :: "u64 \<Rightarrow> tstate"
  context_watchers :: "nat option list"
  active_context_watchers :: u8

text \<open>
  What is not in context.c: \<^verbatim>\<open>PyObject_Hash\<close> of a string (-1 for an exception), \<^verbatim>\<open>Py_HashPointer\<close>, the watcher
  callbacks (the event is always \<^verbatim>\<open>Py_CONTEXT_SWITCHED\<close>), \<^verbatim>\<open>PyObject_Repr\<close> (None for an exception), the \<^verbatim>\<open>%p\<close> of an
  address, the comparison of values, and \<open>stray\<close> of Hamt.
\<close>

record ctx_env =
  hash_str :: "string \<Rightarrow> u64"
  hash_pointer :: "nat \<Rightarrow> u64"
  watch_callback :: "nat \<Rightarrow> pyobj \<Rightarrow> interp \<Rightarrow> int \<times> interp"
  py_repr :: "pyobj \<Rightarrow> string option"
  show_pointer :: "pyobj \<Rightarrow> string"
  compare_values :: "pyobj \<Rightarrow> pyobj \<Rightarrow> bool option"
  stray_bit :: "u32 \<Rightarrow> nat \<Rightarrow> u32"

type_synonym 'a outcome = "((exc + 'a) \<times> interp) option"

text \<open>\<^verbatim>\<open>contextvar_tp_hash\<close>, and comparison by identity, which is what \<^verbatim>\<open>ContextVar\<close> inherits from \<^verbatim>\<open>object\<close>.\<close>

definition contextvar_tp_hash :: "interp \<Rightarrow> nat \<Rightarrow> u64" where
  "contextvar_tp_hash s v = (case item_at (ctxvars s) v of None \<Rightarrow> 0 | Some var \<Rightarrow> var_hash var)"

definition var_keys :: "ctx_env \<Rightarrow> interp \<Rightarrow> nat keyops" where
  "var_keys E s = \<lparr> py_hash = contextvar_tp_hash s, py_eq = (\<lambda>a b. Some (a = b)), stray = stray_bit E \<rparr>"

subsection \<open>Contexts\<close>

definition context_get_vars :: "interp \<Rightarrow> nat \<Rightarrow> (nat, pyobj) hamt option" where
  "context_get_vars s c = Option.bind (item_at (contexts s) c) ctx_vars"

definition context_set_vars :: "nat \<Rightarrow> (nat, pyobj) hamt \<Rightarrow> interp \<Rightarrow> interp" where
  "context_set_vars c new_vars s =
     s\<lparr> contexts := (contexts s)[c := (contexts s ! c)\<lparr> ctx_vars := Some new_vars \<rparr>] \<rparr>"

definition context_new_from_vars :: "(nat, pyobj) hamt \<Rightarrow> interp \<Rightarrow> nat \<times> interp" where
  "context_new_from_vars vars s =
     (length (contexts s),
      s\<lparr> contexts := contexts s @ [\<lparr> ctx_prev = None, ctx_vars = Some vars, ctx_entered = False \<rparr>] \<rparr>)"

definition context_new_empty :: "interp \<Rightarrow> nat \<times> interp" where
  "context_new_empty s = context_new_from_vars PyHamt_New s"

definition set_context :: "u64 \<Rightarrow> nat option \<Rightarrow> interp \<Rightarrow> interp" where
  "set_context t c s = s\<lparr> threads := (threads s)(t := (threads s t)\<lparr> ts_context := c \<rparr>) \<rparr>"

definition context_get :: "u64 \<Rightarrow> interp \<Rightarrow> nat \<times> interp" where
  "context_get t s =
     (case ts_context (threads s t) of
        Some c \<Rightarrow> (c, s)
      | None \<Rightarrow> (let (c, s') = context_new_empty s in (c, set_context t (Some c) s')))"

definition PyContext_New :: "interp \<Rightarrow> pyobj outcome" where
  "PyContext_New s = (let (c, s') = context_new_empty s in Some (Inr (Context c), s'))"

definition PyContext_Copy :: "pyobj \<Rightarrow> interp \<Rightarrow> pyobj outcome" where
  "PyContext_Copy octx s =
     (case octx of
        Context c \<Rightarrow> do {
          vars \<leftarrow> context_get_vars s c;
          let (c', s') = context_new_from_vars vars s;
          Some (Inr (Context c'), s')
        }
      | _ \<Rightarrow> Some (Inl TypeError, s))"

definition PyContext_CopyCurrent :: "u64 \<Rightarrow> interp \<Rightarrow> pyobj outcome" where
  "PyContext_CopyCurrent t s =
     (let (c, s') = context_get t s
      in do {
        vars \<leftarrow> context_get_vars s' c;
        let (c', s'') = context_new_from_vars vars s';
        Some (Inr (Context c'), s'')
      })"

subsection \<open>Watchers\<close>

lemma half_less: "x \<noteq> 0 \<Longrightarrow> unat (x div 2) < unat (x :: u8)"
  using unat_gt_0 [of x] by (simp add: unat_div)

function notify_loop :: "ctx_env \<Rightarrow> pyobj \<Rightarrow> u8 \<Rightarrow> nat \<Rightarrow> interp \<Rightarrow> interp" where
  "notify_loop E ctx active i s =
     (if active = 0 then s
      else notify_loop E ctx (drop_bit 1 active) (i + 1)
        (if active AND 1 \<noteq> 0 then
           (case context_watchers s ! i of
              None \<Rightarrow> s
            | Some cb \<Rightarrow> snd (watch_callback E cb ctx s))
         else s))"
  by pat_completeness auto
termination
  by (relation "measure (\<lambda>(E, ctx, active, i, s). unat active)") (auto simp: drop_bit_Suc half_less)

declare notify_loop.simps [simp del]

definition notify_context_watchers :: "ctx_env \<Rightarrow> nat option \<Rightarrow> interp \<Rightarrow> interp" where
  "notify_context_watchers E ctx s =
     notify_loop E (case ctx of None \<Rightarrow> Py_None | Some c \<Rightarrow> Context c) (active_context_watchers s) 0 s"

definition PyContext_AddWatcher :: "nat \<Rightarrow> interp \<Rightarrow> int outcome" where
  "PyContext_AddWatcher callback s =
     (case first_slot (\<lambda>w. w = None) (take CONTEXT_MAX_WATCHERS (context_watchers s)) of
        Some i \<Rightarrow>
          Some (Inr (int i),
            s\<lparr> context_watchers := (context_watchers s)[i := Some callback],
               active_context_watchers := active_context_watchers s OR push_bit i 1 \<rparr>)
      | None \<Rightarrow> Some (Inl RuntimeError, s))"

definition PyContext_ClearWatcher :: "int \<Rightarrow> interp \<Rightarrow> int outcome" where
  "PyContext_ClearWatcher watcher_id s =
     (if watcher_id < 0 \<or> watcher_id \<ge> int CONTEXT_MAX_WATCHERS then Some (Inl ValueError, s)
      else if context_watchers s ! nat watcher_id = None then Some (Inl ValueError, s)
      else Some (Inr 0,
        s\<lparr> context_watchers := (context_watchers s)[nat watcher_id := None],
           active_context_watchers := active_context_watchers s AND NOT (push_bit (nat watcher_id) 1) \<rparr>))"

definition context_switched :: "ctx_env \<Rightarrow> u64 \<Rightarrow> interp \<Rightarrow> interp" where
  "context_switched E t s =
     (let s' = s\<lparr> threads := (threads s)(t := (threads s t)\<lparr> context_ver := context_ver (threads s t) + 1 \<rparr>) \<rparr>
      in notify_context_watchers E (ts_context (threads s' t)) s')"

subsection \<open>Entering and leaving\<close>

definition PyContext_Enter :: "ctx_env \<Rightarrow> u64 \<Rightarrow> pyobj \<Rightarrow> interp \<Rightarrow> unit outcome" where
  "PyContext_Enter E t octx s =
     (case octx of
        Context c \<Rightarrow> do {
          ctx \<leftarrow> item_at (contexts s) c;
          if ctx_entered ctx then Some (Inl RuntimeError, s)
          else
            let s1 = s\<lparr> contexts := (contexts s)[c := ctx\<lparr> ctx_prev := ts_context (threads s t), ctx_entered := True \<rparr>] \<rparr>
            in Some (Inr (), context_switched E t (set_context t (Some c) s1))
        }
      | _ \<Rightarrow> Some (Inl TypeError, s))"

definition PyContext_Exit :: "ctx_env \<Rightarrow> u64 \<Rightarrow> pyobj \<Rightarrow> interp \<Rightarrow> unit outcome" where
  "PyContext_Exit E t octx s =
     (case octx of
        Context c \<Rightarrow> do {
          ctx \<leftarrow> item_at (contexts s) c;
          if \<not> ctx_entered ctx then Some (Inl RuntimeError, s)
          else if ts_context (threads s t) \<noteq> Some c then Some (Inl RuntimeError, s)
          else
            let s1 = set_context t (ctx_prev ctx) s;
                s2 = s1\<lparr> contexts := (contexts s1)[c := ctx\<lparr> ctx_prev := None, ctx_entered := False \<rparr>] \<rparr>
            in Some (Inr (), context_switched E t s2)
        }
      | _ \<Rightarrow> Some (Inl TypeError, s))"

text \<open>
  \<^verbatim>\<open>Context.run\<close>. \<open>body\<close> is the call of the first argument with the others; what it returns, an exception included, is
  the result unless leaving fails.
\<close>

definition context_run ::
    "ctx_env \<Rightarrow> u64 \<Rightarrow> nat \<Rightarrow> nat \<Rightarrow> (interp \<Rightarrow> 'a outcome) \<Rightarrow> interp \<Rightarrow> 'a outcome" where
  "context_run E t self nargs body s =
     (if nargs < 1 then Some (Inl TypeError, s)
      else do {
        (r, s1) \<leftarrow> PyContext_Enter E t (Context self) s;
        case r of
          Inl e \<Rightarrow> Some (Inl e, s1)
        | Inr _ \<Rightarrow> do {
            (call_result, s2) \<leftarrow> body s1;
            (r, s3) \<leftarrow> PyContext_Exit E t (Context self) s2;
            case r of
              Inl e \<Rightarrow> Some (Inl e, s3)
            | Inr _ \<Rightarrow> Some (call_result, s3)
          }
      })"

subsection \<open>Variables\<close>

definition contextvar_generate_hash :: "ctx_env \<Rightarrow> nat \<Rightarrow> string \<Rightarrow> u64" where
  "contextvar_generate_hash E addr name =
     (let name_hash = hash_str E name
      in if name_hash = - 1 then - 1
         else let res = hash_pointer E addr XOR name_hash
              in if res = - 1 then - 2 else res)"

definition contextvar_new :: "ctx_env \<Rightarrow> pyobj \<Rightarrow> pyobj option \<Rightarrow> interp \<Rightarrow> pyobj outcome" where
  "contextvar_new E name def s =
     (case name of
        Str n \<Rightarrow>
          (let v = length (ctxvars s);
               hash = contextvar_generate_hash E v n
           in if hash = - 1 then Some (Inl HashError, s)
              else Some (Inr (ContextVar v),
                s\<lparr> ctxvars := ctxvars s @ [\<lparr> var_name = Some n, var_default = def, var_cached = None,
                   var_cached_tsid = 0, var_cached_tsver = 0, var_hash = hash \<rparr>] \<rparr>))
      | _ \<Rightarrow> Some (Inl TypeError, s))"

text \<open>\<^verbatim>\<open>PyUnicode_FromString\<close> makes a string of the name.\<close>

definition PyContextVar_New :: "ctx_env \<Rightarrow> string \<Rightarrow> pyobj option \<Rightarrow> interp \<Rightarrow> pyobj outcome" where
  "PyContextVar_New E name def s = contextvar_new E (Str name) def s"

text \<open>
  \<^verbatim>\<open>ContextVar(name, *, default=...)\<close>: the format \<^verbatim>\<open>O|$O\<close> takes one positional argument and the keyword \<^verbatim>\<open>default\<close>.
\<close>

definition contextvar_tp_new :: "ctx_env \<Rightarrow> pyobj list \<Rightarrow> (string \<times> pyobj) list \<Rightarrow> interp \<Rightarrow> pyobj outcome" where
  "contextvar_tp_new E args kwds s =
     (case args of
        [name] \<Rightarrow>
          if list_all (\<lambda>(k, _). k = ''default'') kwds then contextvar_new E name (map_of kwds ''default'') s
          else Some (Inl TypeError, s)
      | _ \<Rightarrow> Some (Inl TypeError, s))"

definition set_var :: "nat \<Rightarrow> (contextvar \<Rightarrow> contextvar) \<Rightarrow> interp \<Rightarrow> interp" where
  "set_var v f s = s\<lparr> ctxvars := (ctxvars s)[v := f (ctxvars s ! v)] \<rparr>"

definition cache_value :: "u64 \<Rightarrow> nat \<Rightarrow> pyobj \<Rightarrow> interp \<Rightarrow> interp" where
  "cache_value t v x s =
     set_var v (\<lambda>var. var\<lparr> var_cached := Some x, var_cached_tsid := t, var_cached_tsver := context_ver (threads s t) \<rparr>) s"

definition drop_cache :: "nat \<Rightarrow> interp \<Rightarrow> interp" where
  "drop_cache v s = set_var v (\<lambda>var. var\<lparr> var_cached := None \<rparr>) s"

definition default_value :: "contextvar \<Rightarrow> pyobj option \<Rightarrow> pyobj option" where
  "default_value var def = (case def of None \<Rightarrow> var_default var | Some d \<Rightarrow> Some d)"

definition PyContextVar_Get :: "ctx_env \<Rightarrow> u64 \<Rightarrow> pyobj \<Rightarrow> pyobj option \<Rightarrow> interp \<Rightarrow> pyobj option outcome" where
  "PyContextVar_Get E t ovar def s =
     (case ovar of
        ContextVar v \<Rightarrow> do {
          var \<leftarrow> item_at (ctxvars s) v;
          case ts_context (threads s t) of
            None \<Rightarrow> Some (Inr (default_value var def), s)
          | Some c \<Rightarrow>
              if var_cached var \<noteq> None \<and> var_cached_tsid var = t
                \<and> var_cached_tsver var = context_ver (threads s t)
              then Some (Inr (var_cached var), s)
              else do {
                vars \<leftarrow> context_get_vars s c;
                (res, found) \<leftarrow> PyHamt_Find (var_keys E s) vars v;
                if res < 0 then Some (Inl HashError, s)
                else if res = 1 then do {
                  x \<leftarrow> found;
                  Some (Inr (Some x), cache_value t v x s)
                }
                else Some (Inr (default_value var def), s)
              }
        }
      | _ \<Rightarrow> Some (Inl TypeError, s))"

definition token_new :: "nat \<Rightarrow> nat \<Rightarrow> pyobj option \<Rightarrow> interp \<Rightarrow> nat \<times> interp" where
  "token_new ctx var val s =
     (length (tokens s),
      s\<lparr> tokens := tokens s @ [\<lparr> tok_ctx = Some ctx, tok_var = Some var, tok_oldval = val, tok_used = False \<rparr>] \<rparr>)"

definition contextvar_set :: "ctx_env \<Rightarrow> u64 \<Rightarrow> nat \<Rightarrow> pyobj \<Rightarrow> interp \<Rightarrow> unit outcome" where
  "contextvar_set E t v val s =
     (let s1 = drop_cache v s;
          (c, s2) = context_get t s1
      in do {
        vars \<leftarrow> context_get_vars s2 c;
        r \<leftarrow> PyHamt_Assoc (var_keys E s2) vars v val;
        case r of
          None \<Rightarrow> Some (Inl HashError, s2)
        | Some new_vars \<Rightarrow> Some (Inr (), context_set_vars c new_vars (cache_value t v val s2))
      })"

text \<open>
  \<^verbatim>\<open>_PyHamt_Without\<close> returns the mapping it was given when the key is not in it, and otherwise one with a smaller count,
  so the comparison of the two pointers is one of the two values.
\<close>

definition contextvar_del :: "ctx_env \<Rightarrow> u64 \<Rightarrow> nat \<Rightarrow> interp \<Rightarrow> unit outcome" where
  "contextvar_del E t v s =
     (let s1 = drop_cache v s;
          (c, s2) = context_get t s1
      in do {
        vars \<leftarrow> context_get_vars s2 c;
        r \<leftarrow> PyHamt_Without (var_keys E s2) vars v;
        case r of
          None \<Rightarrow> Some (Inl HashError, s2)
        | Some new_vars \<Rightarrow>
            if vars = new_vars then Some (Inl LookupError, s2)
            else Some (Inr (), context_set_vars c new_vars s2)
      })"

definition PyContextVar_Set :: "ctx_env \<Rightarrow> u64 \<Rightarrow> pyobj \<Rightarrow> pyobj \<Rightarrow> interp \<Rightarrow> pyobj outcome" where
  "PyContextVar_Set E t ovar val s =
     (case ovar of
        ContextVar v \<Rightarrow>
          (let (c, s1) = context_get t s
           in do {
             _ \<leftarrow> item_at (ctxvars s1) v;
             vars \<leftarrow> context_get_vars s1 c;
             (found, old_val) \<leftarrow> PyHamt_Find (var_keys E s1) vars v;
             if found < 0 then Some (Inl HashError, s1)
             else
               let (tok, s2) = token_new c v old_val s1
               in do {
                 (r, s3) \<leftarrow> contextvar_set E t v val s2;
                 case r of
                   Inl e \<Rightarrow> Some (Inl e, s3)
                 | Inr _ \<Rightarrow> Some (Inr (Token tok), s3)
               }
           })
      | _ \<Rightarrow> Some (Inl TypeError, s))"

definition PyContextVar_Reset :: "ctx_env \<Rightarrow> u64 \<Rightarrow> pyobj \<Rightarrow> pyobj \<Rightarrow> interp \<Rightarrow> unit outcome" where
  "PyContextVar_Reset E t ovar otok s =
     (case (ovar, otok) of
        (ContextVar v, Token k) \<Rightarrow> do {
          _ \<leftarrow> item_at (ctxvars s) v;
          tok \<leftarrow> item_at (tokens s) k;
          if tok_used tok then Some (Inl RuntimeError, s)
          else if tok_var tok \<noteq> Some v then Some (Inl ValueError, s)
          else
            let (c, s1) = context_get t s
            in if tok_ctx tok \<noteq> Some c then Some (Inl ValueError, s1)
               else
                 let s2 = s1\<lparr> tokens := (tokens s1)[k := tok\<lparr> tok_used := True \<rparr>] \<rparr>
                 in case tok_oldval tok of
                      None \<Rightarrow> contextvar_del E t v s2
                    | Some x \<Rightarrow> contextvar_set E t v x s2
        }
      | _ \<Rightarrow> Some (Inl TypeError, s))"

subsection \<open>The methods of the types\<close>

text \<open>\<open>self\<close> is of the type of the method; the other arguments are any objects.\<close>

definition context_check_key_type :: "pyobj \<Rightarrow> nat option" where
  "context_check_key_type key = (case key of ContextVar v \<Rightarrow> Some v | _ \<Rightarrow> None)"

definition context_tp_new :: "nat \<Rightarrow> nat option \<Rightarrow> interp \<Rightarrow> pyobj outcome" where
  "context_tp_new nargs kwds s =
     (if nargs \<noteq> 0 \<or> (case kwds of None \<Rightarrow> False | Some n \<Rightarrow> n \<noteq> 0) then Some (Inl TypeError, s) else PyContext_New s)"

definition context_tp_len :: "nat \<Rightarrow> interp \<Rightarrow> int outcome" where
  "context_tp_len self s = do { vars \<leftarrow> context_get_vars s self; Some (Inr (PyHamt_Len vars), s) }"

definition context_tp_subscript :: "ctx_env \<Rightarrow> nat \<Rightarrow> pyobj \<Rightarrow> interp \<Rightarrow> pyobj outcome" where
  "context_tp_subscript E self key s =
     (case context_check_key_type key of
        None \<Rightarrow> Some (Inl TypeError, s)
      | Some v \<Rightarrow> do {
          vars \<leftarrow> context_get_vars s self;
          (found, val) \<leftarrow> PyHamt_Find (var_keys E s) vars v;
          if found < 0 then Some (Inl HashError, s)
          else if found = 0 then Some (Inl KeyError, s)
          else do { x \<leftarrow> val; Some (Inr x, s) }
        })"

definition context_tp_contains :: "ctx_env \<Rightarrow> nat \<Rightarrow> pyobj \<Rightarrow> interp \<Rightarrow> bool outcome" where
  "context_tp_contains E self key s =
     (case context_check_key_type key of
        None \<Rightarrow> Some (Inl TypeError, s)
      | Some v \<Rightarrow> do {
          vars \<leftarrow> context_get_vars s self;
          (res, _) \<leftarrow> PyHamt_Find (var_keys E s) vars v;
          Some (if res < 0 then Inl HashError else Inr (res \<noteq> 0), s)
        })"

definition Context_get_impl :: "ctx_env \<Rightarrow> nat \<Rightarrow> pyobj \<Rightarrow> pyobj \<Rightarrow> interp \<Rightarrow> pyobj outcome" where
  "Context_get_impl E self key def s =
     (case context_check_key_type key of
        None \<Rightarrow> Some (Inl TypeError, s)
      | Some v \<Rightarrow> do {
          vars \<leftarrow> context_get_vars s self;
          (found, val) \<leftarrow> PyHamt_Find (var_keys E s) vars v;
          if found < 0 then Some (Inl HashError, s)
          else if found = 0 then Some (Inr def, s)
          else do { x \<leftarrow> val; Some (Inr x, s) }
        })"

definition Context_items_impl :: "nat \<Rightarrow> interp \<Rightarrow> (nat, pyobj, nat \<times> pyobj) hamt_iterator option" where
  "Context_items_impl self s = map_option PyHamt_NewIterItems (context_get_vars s self)"

definition Context_keys_impl :: "nat \<Rightarrow> interp \<Rightarrow> (nat, pyobj, nat) hamt_iterator option" where
  "Context_keys_impl self s = map_option PyHamt_NewIterKeys (context_get_vars s self)"

definition Context_values_impl :: "nat \<Rightarrow> interp \<Rightarrow> (nat, pyobj, pyobj) hamt_iterator option" where
  "Context_values_impl self s = map_option PyHamt_NewIterValues (context_get_vars s self)"

definition context_tp_iter :: "nat \<Rightarrow> interp \<Rightarrow> (nat, pyobj, nat) hamt_iterator option" where
  "context_tp_iter self s = map_option PyHamt_NewIterKeys (context_get_vars s self)"

definition Context_copy_impl :: "nat \<Rightarrow> interp \<Rightarrow> pyobj outcome" where
  "Context_copy_impl self s = do {
     vars \<leftarrow> context_get_vars s self;
     let (c, s') = context_new_from_vars vars s;
     Some (Inr (Context c), s')
   }"

text \<open>\<open>same\<close> is whether the two contexts share one mapping object. The result None is \<^verbatim>\<open>NotImplemented\<close>.\<close>

definition context_tp_richcompare ::
    "ctx_env \<Rightarrow> bool \<Rightarrow> pyobj \<Rightarrow> pyobj \<Rightarrow> compare_op \<Rightarrow> interp \<Rightarrow> bool option outcome" where
  "context_tp_richcompare E same v w op s =
     (case (v, w) of
        (Context a, Context b) \<Rightarrow>
          if op \<noteq> Py_EQ \<and> op \<noteq> Py_NE then Some (Inr None, s)
          else do {
            v_vars \<leftarrow> context_get_vars s a;
            w_vars \<leftarrow> context_get_vars s b;
            res \<leftarrow> PyHamt_Eq (var_keys E s) (compare_values E) same v_vars w_vars;
            if res < 0 then Some (Inl HashError, s)
            else Some (Inr (Some (if op = Py_NE then res = 0 else res \<noteq> 0)), s)
          }
      | _ \<Rightarrow> Some (Inr None, s))"

definition ContextVar_get_impl :: "ctx_env \<Rightarrow> u64 \<Rightarrow> nat \<Rightarrow> pyobj option \<Rightarrow> interp \<Rightarrow> pyobj outcome" where
  "ContextVar_get_impl E t self def s = do {
     (r, s') \<leftarrow> PyContextVar_Get E t (ContextVar self) def s;
     Some (case r of
         Inl e \<Rightarrow> Inl e
       | Inr None \<Rightarrow> Inl LookupError
       | Inr (Some x) \<Rightarrow> Inr x, s')
   }"

definition ContextVar_set_impl :: "ctx_env \<Rightarrow> u64 \<Rightarrow> nat \<Rightarrow> pyobj \<Rightarrow> interp \<Rightarrow> pyobj outcome" where
  "ContextVar_set_impl E t self val s = PyContextVar_Set E t (ContextVar self) val s"

definition ContextVar_reset_impl :: "ctx_env \<Rightarrow> u64 \<Rightarrow> nat \<Rightarrow> pyobj \<Rightarrow> interp \<Rightarrow> pyobj outcome" where
  "ContextVar_reset_impl E t self token s =
     (case token of
        Token _ \<Rightarrow> do {
          (r, s') \<leftarrow> PyContextVar_Reset E t (ContextVar self) token s;
          Some (case r of Inl e \<Rightarrow> Inl e | Inr _ \<Rightarrow> Inr Py_None, s')
        }
      | _ \<Rightarrow> Some (Inl TypeError, s))"

definition contextvar_tp_repr :: "ctx_env \<Rightarrow> nat \<Rightarrow> interp \<Rightarrow> string outcome" where
  "contextvar_tp_repr E self s = do {
     var \<leftarrow> item_at (ctxvars s) self;
     name \<leftarrow> var_name var;
     Some (case py_repr E (Str name) of
         None \<Rightarrow> Inl ReprError
       | Some n \<Rightarrow>
           let w = ''<ContextVar name='' @ n;
               end = '' at '' @ show_pointer E (ContextVar self) @ ''>''
           in case var_default var of
                None \<Rightarrow> Inr (w @ end)
              | Some d \<Rightarrow>
                  (case py_repr E d of
                     None \<Rightarrow> Inl ReprError
                   | Some r \<Rightarrow> Inr (w @ '' default='' @ r @ end)), s)
   }"

definition token_tp_repr :: "ctx_env \<Rightarrow> nat \<Rightarrow> interp \<Rightarrow> string outcome" where
  "token_tp_repr E self s = do {
     tok \<leftarrow> item_at (tokens s) self;
     v \<leftarrow> tok_var tok;
     (r, s') \<leftarrow> contextvar_tp_repr E v s;
     Some (case r of
         Inl e \<Rightarrow> Inl e
       | Inr x \<Rightarrow> Inr (''<Token'' @ (if tok_used tok then '' used'' else '''') @ '' var='' @ x
           @ '' at '' @ show_pointer E (Token self) @ ''>''), s')
   }"

definition get_token_missing :: pyobj where
  "get_token_missing = Token_MISSING"

definition token_tp_new :: "interp \<Rightarrow> pyobj outcome" where
  "token_tp_new s = Some (Inl RuntimeError, s)"

definition token_get_var :: "nat \<Rightarrow> interp \<Rightarrow> pyobj outcome" where
  "token_get_var self s = do { tok \<leftarrow> item_at (tokens s) self; v \<leftarrow> tok_var tok; Some (Inr (ContextVar v), s) }"

definition token_get_old_value :: "nat \<Rightarrow> interp \<Rightarrow> pyobj outcome" where
  "token_get_old_value self s = do {
     tok \<leftarrow> item_at (tokens s) self;
     Some (Inr (case tok_oldval tok of None \<Rightarrow> get_token_missing | Some x \<Rightarrow> x), s)
   }"

definition token_enter_impl :: "nat \<Rightarrow> interp \<Rightarrow> pyobj outcome" where
  "token_enter_impl self s = Some (Inr (Token self), s)"

definition token_exit_impl :: "ctx_env \<Rightarrow> u64 \<Rightarrow> nat \<Rightarrow> interp \<Rightarrow> pyobj outcome" where
  "token_exit_impl E t self s = do {
     tok \<leftarrow> item_at (tokens s) self;
     v \<leftarrow> tok_var tok;
     (r, s') \<leftarrow> PyContextVar_Reset E t (ContextVar v) (Token self) s;
     Some (case r of Inl e \<Rightarrow> Inl e | Inr _ \<Rightarrow> Inr Py_None, s')
   }"

text \<open>What the garbage collector does to the objects of a cycle nothing else refers to.\<close>

definition context_tp_clear :: "nat \<Rightarrow> interp \<Rightarrow> interp" where
  "context_tp_clear self s =
     s\<lparr> contexts := (contexts s)[self := (contexts s ! self)\<lparr> ctx_prev := None, ctx_vars := None \<rparr>] \<rparr>"

definition contextvar_tp_clear :: "nat \<Rightarrow> interp \<Rightarrow> interp" where
  "contextvar_tp_clear self s =
     set_var self (\<lambda>var. var\<lparr> var_name := None, var_default := None, var_cached := None,
       var_cached_tsid := 0, var_cached_tsver := 0 \<rparr>) s"

definition token_tp_clear :: "nat \<Rightarrow> interp \<Rightarrow> interp" where
  "token_tp_clear self s =
     s\<lparr> tokens := (tokens s)[self := (tokens s ! self)\<lparr> tok_ctx := None, tok_var := None, tok_oldval := None \<rparr>] \<rparr>"

text \<open>The part of \<^verbatim>\<open>PyThreadState_Clear\<close> (src/Python/pystate.c) that drops the context of a thread that ends.\<close>

definition thread_clear_context :: "u64 \<Rightarrow> interp \<Rightarrow> interp" where
  "thread_clear_context t s = set_context t None s"

end
