(* ===== verification/Contexts_Spec.thy ===== *)
theory Contexts_Spec
  imports Contexts
begin

text \<open>
  What context variables promise: contexts are finite maps, each thread has at most one current context, and a
  variable has the value the current context gives it. No tries, no hashes, no caches, no versions and
  no watchers. Below it are the calls of the API as one type, and both machines that answer them.
\<close>

subsection \<open>The abstract state\<close>

record spec_ctx =
  sc_prev :: "nat option"
  sc_map :: "nat \<Rightarrow> pyobj option"
  sc_entered :: bool

record spec =
  sp_ctxs :: "spec_ctx list"
  sp_defaults :: "pyobj option list"
  sp_toks :: "contexttoken list"
  sp_cur :: "u64 \<Rightarrow> nat option"

type_synonym 'a spec_outcome = "((exc + 'a) \<times> spec) option"

definition sp_add :: "(nat \<Rightarrow> pyobj option) \<Rightarrow> spec \<Rightarrow> spec" where
  "sp_add m \<sigma> = \<sigma>\<lparr> sp_ctxs := sp_ctxs \<sigma> @ [\<lparr> sc_prev = None, sc_map = m, sc_entered = False \<rparr>] \<rparr>"

definition sp_current :: "u64 \<Rightarrow> spec \<Rightarrow> nat \<times> spec" where
  "sp_current t \<sigma> =
     (case sp_cur \<sigma> t of
        Some c \<Rightarrow> (c, \<sigma>)
      | None \<Rightarrow> (length (sp_ctxs \<sigma>), (sp_add Map.empty \<sigma>)\<lparr> sp_cur := (sp_cur \<sigma>)(t \<mapsto> length (sp_ctxs \<sigma>)) \<rparr>))"

definition sp_map :: "nat \<Rightarrow> spec \<Rightarrow> nat \<Rightarrow> pyobj option" where
  "sp_map c \<sigma> = sc_map (sp_ctxs \<sigma> ! c)"

definition sp_value :: "u64 \<Rightarrow> nat \<Rightarrow> spec \<Rightarrow> pyobj option" where
  "sp_value t v \<sigma> = Option.bind (sp_cur \<sigma> t) (\<lambda>c. sp_map c \<sigma> v)"

definition sp_update :: "nat \<Rightarrow> nat \<Rightarrow> pyobj option \<Rightarrow> spec \<Rightarrow> spec" where
  "sp_update c v x \<sigma> =
     \<sigma>\<lparr> sp_ctxs := (sp_ctxs \<sigma>)[c := (sp_ctxs \<sigma> ! c)\<lparr> sc_map := (sp_map c \<sigma>)(v := x) \<rparr>] \<rparr>"

subsection \<open>The operations\<close>

definition sp_new :: "spec \<Rightarrow> pyobj spec_outcome" where
  "sp_new \<sigma> = Some (Inr (Context (length (sp_ctxs \<sigma>))), sp_add Map.empty \<sigma>)"

definition sp_copy :: "pyobj \<Rightarrow> spec \<Rightarrow> pyobj spec_outcome" where
  "sp_copy octx \<sigma> =
     (case octx of
        Context c \<Rightarrow> do {
          x \<leftarrow> item_at (sp_ctxs \<sigma>) c;
          Some (Inr (Context (length (sp_ctxs \<sigma>))), sp_add (sc_map x) \<sigma>)
        }
      | _ \<Rightarrow> Some (Inl TypeError, \<sigma>))"

definition sp_copy_current :: "u64 \<Rightarrow> spec \<Rightarrow> pyobj spec_outcome" where
  "sp_copy_current t \<sigma> =
     (let (c, \<sigma>') = sp_current t \<sigma>
      in Some (Inr (Context (length (sp_ctxs \<sigma>'))), sp_add (sp_map c \<sigma>') \<sigma>'))"

definition sp_enter :: "u64 \<Rightarrow> pyobj \<Rightarrow> spec \<Rightarrow> unit spec_outcome" where
  "sp_enter t octx \<sigma> =
     (case octx of
        Context c \<Rightarrow> do {
          x \<leftarrow> item_at (sp_ctxs \<sigma>) c;
          if sc_entered x then Some (Inl RuntimeError, \<sigma>)
          else Some (Inr (),
            \<sigma>\<lparr> sp_ctxs := (sp_ctxs \<sigma>)[c := x\<lparr> sc_prev := sp_cur \<sigma> t, sc_entered := True \<rparr>],
               sp_cur := (sp_cur \<sigma>)(t \<mapsto> c) \<rparr>)
        }
      | _ \<Rightarrow> Some (Inl TypeError, \<sigma>))"

definition sp_exit :: "u64 \<Rightarrow> pyobj \<Rightarrow> spec \<Rightarrow> unit spec_outcome" where
  "sp_exit t octx \<sigma> =
     (case octx of
        Context c \<Rightarrow> do {
          x \<leftarrow> item_at (sp_ctxs \<sigma>) c;
          if \<not> sc_entered x \<or> sp_cur \<sigma> t \<noteq> Some c then Some (Inl RuntimeError, \<sigma>)
          else Some (Inr (),
            \<sigma>\<lparr> sp_ctxs := (sp_ctxs \<sigma>)[c := x\<lparr> sc_prev := None, sc_entered := False \<rparr>],
               sp_cur := (sp_cur \<sigma>)(t := sc_prev x) \<rparr>)
        }
      | _ \<Rightarrow> Some (Inl TypeError, \<sigma>))"

definition sp_run :: "u64 \<Rightarrow> nat \<Rightarrow> (spec \<Rightarrow> 'a spec_outcome) \<Rightarrow> spec \<Rightarrow> 'a spec_outcome" where
  "sp_run t self body \<sigma> = do {
     (r, \<sigma>1) \<leftarrow> sp_enter t (Context self) \<sigma>;
     case r of
       Inl e \<Rightarrow> Some (Inl e, \<sigma>1)
     | Inr _ \<Rightarrow> do {
         (call_result, \<sigma>2) \<leftarrow> body \<sigma>1;
         (r, \<sigma>3) \<leftarrow> sp_exit t (Context self) \<sigma>2;
         case r of Inl e \<Rightarrow> Some (Inl e, \<sigma>3) | Inr _ \<Rightarrow> Some (call_result, \<sigma>3)
       }
   }"

text \<open>A new variable: \<open>bad\<close> says which names have no usable hash.\<close>

definition sp_new_var :: "(nat \<Rightarrow> string \<Rightarrow> bool) \<Rightarrow> pyobj \<Rightarrow> pyobj option \<Rightarrow> spec \<Rightarrow> pyobj spec_outcome" where
  "sp_new_var bad name def \<sigma> =
     (case name of
        Str n \<Rightarrow>
          if bad (length (sp_defaults \<sigma>)) n then Some (Inl HashError, \<sigma>)
          else Some (Inr (ContextVar (length (sp_defaults \<sigma>))), \<sigma>\<lparr> sp_defaults := sp_defaults \<sigma> @ [def] \<rparr>)
      | _ \<Rightarrow> Some (Inl TypeError, \<sigma>))"

definition or_else :: "'a option \<Rightarrow> 'a option \<Rightarrow> 'a option" where
  "or_else x y = (case x of None \<Rightarrow> y | Some _ \<Rightarrow> x)"

definition sp_get :: "u64 \<Rightarrow> pyobj \<Rightarrow> pyobj option \<Rightarrow> spec \<Rightarrow> pyobj option spec_outcome" where
  "sp_get t ovar def \<sigma> =
     (case ovar of
        ContextVar v \<Rightarrow> do {
          d \<leftarrow> item_at (sp_defaults \<sigma>) v;
          Some (Inr (or_else (sp_value t v \<sigma>) (or_else def d)), \<sigma>)
        }
      | _ \<Rightarrow> Some (Inl TypeError, \<sigma>))"

definition sp_set :: "u64 \<Rightarrow> pyobj \<Rightarrow> pyobj \<Rightarrow> spec \<Rightarrow> pyobj spec_outcome" where
  "sp_set t ovar val \<sigma> =
     (case ovar of
        ContextVar v \<Rightarrow> do {
          _ \<leftarrow> item_at (sp_defaults \<sigma>) v;
          let (c, \<sigma>1) = sp_current t \<sigma>;
          Some (Inr (Token (length (sp_toks \<sigma>1))),
            (sp_update c v (Some val) \<sigma>1)\<lparr> sp_toks := sp_toks \<sigma>1 @
              [\<lparr> tok_ctx = Some c, tok_var = Some v, tok_oldval = sp_map c \<sigma>1 v, tok_used = False \<rparr>] \<rparr>)
        }
      | _ \<Rightarrow> Some (Inl TypeError, \<sigma>))"

definition sp_reset :: "u64 \<Rightarrow> pyobj \<Rightarrow> pyobj \<Rightarrow> spec \<Rightarrow> unit spec_outcome" where
  "sp_reset t ovar otok \<sigma> =
     (case (ovar, otok) of
        (ContextVar v, Token k) \<Rightarrow> do {
          _ \<leftarrow> item_at (sp_defaults \<sigma>) v;
          tok \<leftarrow> item_at (sp_toks \<sigma>) k;
          if tok_used tok then Some (Inl RuntimeError, \<sigma>)
          else if tok_var tok \<noteq> Some v then Some (Inl ValueError, \<sigma>)
          else
            let (c, \<sigma>1) = sp_current t \<sigma>
            in if tok_ctx tok \<noteq> Some c then Some (Inl ValueError, \<sigma>1)
               else
                 let \<sigma>2 = \<sigma>1\<lparr> sp_toks := (sp_toks \<sigma>1)[k := tok\<lparr> tok_used := True \<rparr>] \<rparr>
                 in if tok_oldval tok = None \<and> sp_map c \<sigma>1 v = None then Some (Inl LookupError, \<sigma>2)
                    else Some (Inr (), sp_update c v (tok_oldval tok) \<sigma>2)
        }
      | _ \<Rightarrow> Some (Inl TypeError, \<sigma>))"

text \<open>The value of a key in a given context: \<open>missing\<close> answers for a key that is not in it.\<close>

definition sp_read :: "nat \<Rightarrow> pyobj \<Rightarrow> exc + 'a \<Rightarrow> (pyobj \<Rightarrow> 'a) \<Rightarrow> spec \<Rightarrow> 'a spec_outcome" where
  "sp_read self key missing present \<sigma> =
     (case key of
        ContextVar v \<Rightarrow> do {
          x \<leftarrow> item_at (sp_ctxs \<sigma>) self;
          Some (case sc_map x v of None \<Rightarrow> missing | Some y \<Rightarrow> Inr (present y), \<sigma>)
        }
      | _ \<Rightarrow> Some (Inl TypeError, \<sigma>))"

subsection \<open>Calls\<close>

text \<open>\<open>CRun\<close> has the calls of the body, which may be of any thread.\<close>

datatype ctx_call =
    CNew
  | CCopy pyobj
  | CCopyCurrent
  | CEnter pyobj
  | CExit pyobj
  | CRun nat "(u64 \<times> ctx_call) list"
  | CNewVar pyobj "pyobj option"
  | CGet pyobj "pyobj option"
  | CSet pyobj pyobj
  | CReset pyobj pyobj
  | CSubscript nat pyobj
  | CContains nat pyobj
  | CLookup nat pyobj pyobj
  | CLen nat

datatype ctx_answer = Obj pyobj | Val "pyobj option" | Num int | Flag bool | Done | Results "(exc + ctx_answer) list"

definition answered :: "('a \<Rightarrow> 'b) \<Rightarrow> ((exc + 'a) \<times> 's) option \<Rightarrow> ((exc + 'b) \<times> 's) option" where
  "answered f r = map_option (map_prod (map_sum id f) id) r"

lemma context_run_cong [fundef_cong]:
  "E = E' \<Longrightarrow> t = t' \<Longrightarrow> self = self' \<Longrightarrow> n = n' \<Longrightarrow> s = s' \<Longrightarrow> (\<And>x. body x = body' x)
    \<Longrightarrow> context_run E t self n body s = context_run E' t' self' n' body' s'"
  by presburger

lemma sp_run_cong [fundef_cong]:
  "t = t' \<Longrightarrow> self = self' \<Longrightarrow> s = s' \<Longrightarrow> (\<And>x. body x = body' x) \<Longrightarrow> sp_run t self body s = sp_run t' self' body' s'"
  by presburger

fun exec :: "ctx_env \<Rightarrow> u64 \<Rightarrow> ctx_call \<Rightarrow> interp \<Rightarrow> ctx_answer outcome"
  and exec_list :: "ctx_env \<Rightarrow> (u64 \<times> ctx_call) list \<Rightarrow> interp \<Rightarrow> ((exc + ctx_answer) list \<times> interp) option"
where
  "exec E t CNew s = answered Obj (PyContext_New s)"
| "exec E t (CCopy octx) s = answered Obj (PyContext_Copy octx s)"
| "exec E t CCopyCurrent s = answered Obj (PyContext_CopyCurrent t s)"
| "exec E t (CEnter octx) s = answered (\<lambda>_. Done) (PyContext_Enter E t octx s)"
| "exec E t (CExit octx) s = answered (\<lambda>_. Done) (PyContext_Exit E t octx s)"
| "exec E t (CRun self cs) s =
     context_run E t self 1 (\<lambda>s. map_option (\<lambda>(rs, s'). (Inr (Results rs), s')) (exec_list E cs s)) s"
| "exec E t (CNewVar name def) s = answered Obj (contextvar_new E name def s)"
| "exec E t (CGet ovar def) s = answered Val (PyContextVar_Get E t ovar def s)"
| "exec E t (CSet ovar val) s = answered Obj (PyContextVar_Set E t ovar val s)"
| "exec E t (CReset ovar otok) s = answered (\<lambda>_. Done) (PyContextVar_Reset E t ovar otok s)"
| "exec E t (CSubscript self key) s = answered Obj (context_tp_subscript E self key s)"
| "exec E t (CContains self key) s = answered Flag (context_tp_contains E self key s)"
| "exec E t (CLookup self key def) s = answered Obj (Context_get_impl E self key def s)"
| "exec E t (CLen self) s = answered Num (context_tp_len self s)"
| "exec_list E [] s = Some ([], s)"
| "exec_list E ((t, c) # cs) s = do {
     (r, s1) \<leftarrow> exec E t c s;
     (rs, s2) \<leftarrow> exec_list E cs s1;
     Some (r # rs, s2)
   }"

fun spec_exec :: "(nat \<Rightarrow> string \<Rightarrow> bool) \<Rightarrow> u64 \<Rightarrow> ctx_call \<Rightarrow> spec \<Rightarrow> ctx_answer spec_outcome"
  and spec_exec_list :: "(nat \<Rightarrow> string \<Rightarrow> bool) \<Rightarrow> (u64 \<times> ctx_call) list \<Rightarrow> spec \<Rightarrow> ((exc + ctx_answer) list \<times> spec) option"
where
  "spec_exec bad t CNew \<sigma> = answered Obj (sp_new \<sigma>)"
| "spec_exec bad t (CCopy octx) \<sigma> = answered Obj (sp_copy octx \<sigma>)"
| "spec_exec bad t CCopyCurrent \<sigma> = answered Obj (sp_copy_current t \<sigma>)"
| "spec_exec bad t (CEnter octx) \<sigma> = answered (\<lambda>_. Done) (sp_enter t octx \<sigma>)"
| "spec_exec bad t (CExit octx) \<sigma> = answered (\<lambda>_. Done) (sp_exit t octx \<sigma>)"
| "spec_exec bad t (CRun self cs) \<sigma> =
     sp_run t self (\<lambda>\<sigma>. map_option (\<lambda>(rs, \<sigma>'). (Inr (Results rs), \<sigma>')) (spec_exec_list bad cs \<sigma>)) \<sigma>"
| "spec_exec bad t (CNewVar name def) \<sigma> = answered Obj (sp_new_var bad name def \<sigma>)"
| "spec_exec bad t (CGet ovar def) \<sigma> = answered Val (sp_get t ovar def \<sigma>)"
| "spec_exec bad t (CSet ovar val) \<sigma> = answered Obj (sp_set t ovar val \<sigma>)"
| "spec_exec bad t (CReset ovar otok) \<sigma> = answered (\<lambda>_. Done) (sp_reset t ovar otok \<sigma>)"
| "spec_exec bad t (CSubscript self key) \<sigma> = sp_read self key (Inl KeyError) Obj \<sigma>"
| "spec_exec bad t (CContains self key) \<sigma> = sp_read self key (Inr (Flag False)) (\<lambda>_. Flag True) \<sigma>"
| "spec_exec bad t (CLookup self key def) \<sigma> = sp_read self key (Inr (Obj def)) Obj \<sigma>"
| "spec_exec bad t (CLen self) \<sigma> = do {
     x \<leftarrow> item_at (sp_ctxs \<sigma>) self;
     Some (Inr (Num (int (card (dom (sc_map x))))), \<sigma>)
   }"
| "spec_exec_list bad [] \<sigma> = Some ([], \<sigma>)"
| "spec_exec_list bad ((t, c) # cs) \<sigma> = do {
     (r, \<sigma>1) \<leftarrow> spec_exec bad t c \<sigma>;
     (rs, \<sigma>2) \<leftarrow> spec_exec_list bad cs \<sigma>1;
     Some (r # rs, \<sigma>2)
   }"

text \<open>How often the calls may switch the context of a thread.\<close>

fun switches :: "ctx_call \<Rightarrow> nat" and switches_list :: "(u64 \<times> ctx_call) list \<Rightarrow> nat" where
  "switches (CEnter _) = 1"
| "switches (CExit _) = 1"
| "switches (CRun _ cs) = switches_list cs + 2"
| "switches _ = 0"
| "switches_list [] = 0"
| "switches_list ((_, c) # cs) = switches c + switches_list cs"

subsection \<open>The abstraction\<close>

definition vars_map :: "(nat, pyobj) hamt option \<Rightarrow> nat \<Rightarrow> pyobj option" where
  "vars_map vars = (case vars of None \<Rightarrow> Map.empty | Some h \<Rightarrow> map_of (items (h_root h)))"

definition abs_ctx :: "pycontext \<Rightarrow> spec_ctx" where
  "abs_ctx ctx = \<lparr> sc_prev = ctx_prev ctx, sc_map = vars_map (ctx_vars ctx), sc_entered = ctx_entered ctx \<rparr>"

definition abs_state :: "interp \<Rightarrow> spec" where
  "abs_state s = \<lparr> sp_ctxs = map abs_ctx (contexts s), sp_defaults = map var_default (ctxvars s), sp_toks = tokens s,
     sp_cur = (\<lambda>t. ts_context (threads s t)) \<rparr>"

definition bad_name :: "ctx_env \<Rightarrow> nat \<Rightarrow> string \<Rightarrow> bool" where
  "bad_name E v name \<longleftrightarrow> contextvar_generate_hash E v name = - 1"

text \<open>An interpreter before any context, variable or token is made.\<close>

definition interp_start :: interp where
  "interp_start = \<lparr> contexts = [], ctxvars = [], tokens = [],
     threads = (\<lambda>t. \<lparr> ts_context = None, context_ver = 1 \<rparr>), context_watchers = replicate CONTEXT_MAX_WATCHERS None,
     active_context_watchers = 0 \<rparr>"

end
