(* ===== verification/Contexts_Inv.thy ===== *)
theory Contexts_Inv
  imports Contexts_Spec
begin

text \<open>
  The invariant of the context variables: each context holds a well-formed mapping over existing variables, and a
  cached value is the value the context it was cached for gives, as long as its version is current.
\<close>

subsection \<open>Mappings and new variables\<close>

text \<open>A mapping keeps its meaning when keys that are not in it change their hashes.\<close>

lemma wf_rehash:
  fixes n :: "('k, 'v) node" and x :: "('k, 'v) slot"
  shows "wf_node K rep p n \<Longrightarrow> (\<And>k v. (k, v) \<in> set (items n) \<Longrightarrow> hamt_hash K' k = hamt_hash K k) \<Longrightarrow> wf_node K' rep p n"
    and "wf_slot K rep q x \<Longrightarrow> (\<And>k v. (k, v) \<in> set (slot_items x) \<Longrightarrow> hamt_hash K' k = hamt_hash K k) \<Longrightarrow> wf_slot K' rep q x"
proof (induction rule: wf_node_wf_slot.inducts)
  case (wf_bitmap p sl bm)
  show ?case
  proof (rule wf_node_wf_slot.wf_bitmap [OF wf_bitmap(1-3)])
    fix i x assume e: "entry bm sl i = Some x"
    show "wf_slot K' rep (p @ [i]) x"
      using entry_mem [OF e] by (intro wf_bitmap(5) [OF e] wf_bitmap(6)) auto
  qed
next
  case (wf_array p arr count)
  show ?case
  proof (rule wf_node_wf_slot.wf_array [OF wf_array(1-4) _ wf_array(5)])
    fix i n assume i: "i < 32" "arr ! i = Some n"
    then have "Some n \<in> set arr" using wf_array(2) by (metis nth_mem)
    then show "wf_node K' rep (p @ [i]) n"
      by (intro wf_array(7) [OF i] wf_array(8)) (auto intro!: bexI [of _ "Some n"])
  qed
next
  case (wf_collision p h xs)
  then show ?case by (intro wf_node_wf_slot.wf_collision) auto
qed auto

lemma hamt_rel_rehash:
  assumes h: "hamt_rel K rep h m" and K: "lawful K rep" and K': "lawful K' rep"
    and same: "\<And>k. rep k \<in> dom m \<Longrightarrow> py_hash K' k = py_hash K k"
  shows "hamt_rel K' rep h m"
proof -
  have w: "wf_node K rep [] (h_root h)" and m: "dom m \<subseteq> range rep" "finite (dom m)" "h_count h = int (card (dom m))"
    using h by (simp_all add: hamt_rel_def)
  have w': "wf_node K' rep [] (h_root h)"
  proof (rule wf_rehash(1) [OF w])
    fix k v assume "(k, v) \<in> set (items (h_root h))"
    then have "rep k \<in> dom m" using hamt_rel_item [OF K h, of "rep k" v] by blast
    then show "hamt_hash K' k = hamt_hash K k" by (simp only: hamt_hash_def same)
  qed
  have "look K' 0 (h_root h) k = m (rep k)" for k
    using lists_keysD(3) [OF lists_items(1) [OF K' w'], of k] hamt_rel_items(2) [OF K h] by simp
  with w' m show ?thesis by (simp add: hamt_rel_def)
qed

lemma vars_map_rel:
  assumes "lawful K id" and "hamt_rel K id h m"
  shows "vars_map (Some h) = m"
proof -
  have "assoc_of id xs = xs" for xs :: "(nat \<times> pyobj) list"
    by (induction xs) (auto simp: assoc_of_def)
  with hamt_rel_items(2) [OF assms] show ?thesis
    unfolding vars_map_def by (simp only: option.case)
qed

lemma PyHamt_Find_rel:
  assumes "lawful K id" and "hamt_rel K id h m"
  shows "PyHamt_Find K h v = Some (case m v of None \<Rightarrow> (0, None) | Some x \<Rightarrow> (1, Some x))"
  using hamt.rel_get [OF assms] by (simp add: PyHamt_Find_def split: option.split)

lemma PyHamt_Without_miss:
  assumes "lawful K rep" and "hamt_rel K rep h m" and "m (rep k) = None"
  shows "PyHamt_Without K h k = Some (Some h)"
proof -
  have w: "wf_node K rep [] (h_root h)" "look K 0 (h_root h) k = None"
    using assms(2,3) by (simp_all add: hamt_rel_def)
  have "without_result K rep [] (h_root h) k (hamt_node_without K (h_root h) 0 (hamt_hash K k) k)"
    using without_all [OF assms(1), of 0] w(1) by (fastforce simp: without_ok_def)
  then have "hamt_node_without K (h_root h) 0 (hamt_hash K k) k = Some W_NOT_FOUND"
    using w(2) by (cases rule: without_resultE) simp_all
  then show ?thesis by (simp add: PyHamt_Without_def lawful_hash [OF assms(1)])
qed

lemma PyHamt_Without_same:
  fixes h :: "(nat, pyobj) hamt"
  assumes "lawful K id" and "hamt_rel K id h m"
  obtains h' where "PyHamt_Without K h v = Some (Some h')" and "hamt_rel K id h' (m(v := None))" and "h = h' \<longleftrightarrow> m v = None"
proof -
  obtain h' where h': "PyHamt_Without K h v = Some (Some h')" "hamt_rel K id h' (m(v := None))"
    using hamt.rel_del [OF assms, of v] by auto
  have e: "h = h' \<longleftrightarrow> m v = None"
  proof
    assume "h = h'"
    then have "m = m(v := None)"
      using vars_map_rel [OF assms] vars_map_rel [OF assms(1) h'(2)] by simp
    then show "m v = None" by (metis fun_upd_same)
  next
    assume n: "m v = None"
    then have "PyHamt_Without K h v = Some (Some h)"
      by (intro PyHamt_Without_miss [OF assms]) simp
    with h'(1) show "h = h'" by simp
  qed
  show thesis by (rule that [OF h' e])
qed

subsection \<open>The invariant\<close>

definition ctx_ok :: "ctx_env \<Rightarrow> interp \<Rightarrow> pycontext \<Rightarrow> bool" where
  "ctx_ok E s ctx \<longleftrightarrow> (\<exists>h m. ctx_vars ctx = Some h \<and> hamt_rel (var_keys E s) id h m \<and> dom m \<subseteq> {..<length (ctxvars s)})
     \<and> (\<forall>p. ctx_prev ctx = Some p \<longrightarrow> p < length (contexts s))"

text \<open>The second part says what a hit of the cache relies on.\<close>

definition cache_ok :: "interp \<Rightarrow> nat \<Rightarrow> bool" where
  "cache_ok s v \<longleftrightarrow> (let var = ctxvars s ! v; t = var_cached_tsid var; ver = context_ver (threads s t)
     in \<forall>x. var_cached var = Some x \<longrightarrow> var_cached_tsver var \<le> ver
       \<and> (var_cached_tsver var = ver \<longrightarrow> sp_value t v (abs_state s) = Some x))"

text \<open>\<open>n\<close> bounds the versions of the contexts of the threads.\<close>

definition ctx_inv :: "ctx_env \<Rightarrow> nat \<Rightarrow> interp \<Rightarrow> bool" where
  "ctx_inv E n s \<longleftrightarrow> (\<forall>var \<in> set (ctxvars s). var_hash var \<noteq> - 1) \<and> (\<forall>ctx \<in> set (contexts s). ctx_ok E s ctx)
     \<and> (\<forall>t c. ts_context (threads s t) = Some c \<longrightarrow> c < length (contexts s))
     \<and> (\<forall>t. unat (context_ver (threads s t)) \<le> n) \<and> (\<forall>v < length (ctxvars s). cache_ok s v)"

lemma abs_simps [simp]:
  "length (sp_ctxs (abs_state s)) = length (contexts s)" "sp_defaults (abs_state s) = map var_default (ctxvars s)"
  "sp_toks (abs_state s) = tokens s" "sp_cur (abs_state s) t = ts_context (threads s t)"
  "sc_map (abs_ctx ctx) = vars_map (ctx_vars ctx)" "sc_prev (abs_ctx ctx) = ctx_prev ctx" "sc_entered (abs_ctx ctx) = ctx_entered ctx"
  by (simp_all add: abs_state_def abs_ctx_def)

lemma item_at_abs [simp]: "item_at (sp_ctxs (abs_state s)) c = map_option abs_ctx (item_at (contexts s) c)"
  by (simp add: item_at_def abs_state_def)

lemma item_at_map [simp]: "item_at (map f xs) i = map_option f (item_at xs i)"
  by (simp add: item_at_def)

lemma sp_map_abs: "c < length (contexts s) \<Longrightarrow> sp_map c (abs_state s) = vars_map (ctx_vars (contexts s ! c))"
  by (simp add: sp_map_def abs_state_def)

lemma lawful_vars: "\<forall>var \<in> set (ctxvars s). var_hash var \<noteq> - 1 \<Longrightarrow> lawful (var_keys E s) id"
  by (auto simp: lawful_def var_keys_def contextvar_tp_hash_def item_at_def)

lemma inv_lawful: "ctx_inv E n s \<Longrightarrow> lawful (var_keys E s) id"
  unfolding ctx_inv_def by (elim conjE) (rule lawful_vars)

lemma inv_vars:
  assumes "ctx_inv E n s" and "c < length (contexts s)"
  obtains h where "context_get_vars s c = Some h" and "ctx_vars (contexts s ! c) = Some h"
    and "hamt_rel (var_keys E s) id h (sp_map c (abs_state s))" and "dom (sp_map c (abs_state s)) \<subseteq> {..<length (ctxvars s)}"
proof -
  from assms have "ctx_ok E s (contexts s ! c)" by (auto simp: ctx_inv_def)
  then obtain h m where h: "ctx_vars (contexts s ! c) = Some h" "hamt_rel (var_keys E s) id h m" "dom m \<subseteq> {..<length (ctxvars s)}"
    by (auto simp: ctx_ok_def)
  have "sp_map c (abs_state s) = m"
    using vars_map_rel [OF inv_lawful [OF assms(1)] h(2)] assms(2) by (simp add: sp_map_abs h(1))
  with h assms(2) that show thesis by (simp add: context_get_vars_def item_at_def)
qed

lemma inv_current: "ctx_inv E n s \<Longrightarrow> ts_context (threads s t) = Some c \<Longrightarrow> c < length (contexts s)"
  by (auto simp: ctx_inv_def)

lemma var_keys_cong: "map var_hash (ctxvars s') = map var_hash (ctxvars s) \<Longrightarrow> var_keys E s' = var_keys E s"
proof -
  assume m: "map var_hash (ctxvars s') = map var_hash (ctxvars s)"
  then have "length (ctxvars s') = length (ctxvars s)" by (rule map_eq_imp_length_eq)
  moreover have "var_hash (ctxvars s' ! v) = var_hash (ctxvars s ! v)" if "v < length (ctxvars s)" for v
    using that calculation m by (metis nth_map)
  ultimately have "contextvar_tp_hash s' = contextvar_tp_hash s"
    by (simp add: fun_eq_iff contextvar_tp_hash_def item_at_def)
  then show ?thesis by (simp add: var_keys_def)
qed

text \<open>The parts of the state the invariant does not look at.\<close>

lemma inv_irrelevant [simp]:
  "ctx_inv E n (s\<lparr> tokens := ts \<rparr>) = ctx_inv E n s"
  "ctx_inv E n (s\<lparr> context_watchers := w, active_context_watchers := a \<rparr>) = ctx_inv E n s"
  by (simp_all add: ctx_inv_def ctx_ok_def cache_ok_def sp_value_def sp_map_def abs_state_def var_keys_def contextvar_tp_hash_def [abs_def])

lemma abs_irrelevant [simp]:
  "abs_state (s\<lparr> tokens := ts \<rparr>) = (abs_state s)\<lparr> sp_toks := ts \<rparr>"
  "abs_state (s\<lparr> context_watchers := w, active_context_watchers := a \<rparr>) = abs_state s"
  by (simp_all add: abs_state_def)

lemma inv_mono: "ctx_inv E n s \<Longrightarrow> n \<le> n' \<Longrightarrow> ctx_inv E n' s"
  by (fastforce simp: ctx_inv_def intro: le_trans)

end
