(* ===== verification/Contexts_Sim.thy ===== *)
theory Contexts_Sim
  imports Contexts_Inv
begin

text \<open>Each operation keeps the invariant and does to the abstract state what the specification says.\<close>

lemma nth_abs [simp]: "c < length (contexts s) \<Longrightarrow> sp_ctxs (abs_state s) ! c = abs_ctx (contexts s ! c)"
  by (simp add: abs_state_def)

subsection \<open>Simulation\<close>

definition sim :: "ctx_env \<Rightarrow> nat \<Rightarrow> ('a \<times> interp) option \<Rightarrow> ('a \<times> spec) option \<Rightarrow> bool" where
  "sim E n r r' \<longleftrightarrow> map_option (map_prod id abs_state) r = r' \<and> (\<forall>x s. r = Some (x, s) \<longrightarrow> ctx_inv E n s)"

lemma sim_None [simp]: "sim E n None r' \<longleftrightarrow> r' = None"
  by (auto simp: sim_def)

lemma sim_Some [simp]: "sim E n (Some (x, s)) r' \<longleftrightarrow> r' = Some (x, abs_state s) \<and> ctx_inv E n s"
  by (auto simp: sim_def)

lemma sim_bind:
  assumes "sim E n r r'" and "\<And>x s. r = Some (x, s) \<Longrightarrow> ctx_inv E n s \<Longrightarrow> sim E n' (f (x, s)) (f' (x, abs_state s))"
  shows "sim E n' (Option.bind r f) (Option.bind r' f')"
  using assms by (cases r) (auto simp: sim_def)

lemma sim_mono: "sim E n r r' \<Longrightarrow> n \<le> n' \<Longrightarrow> sim E n' r r'"
  by (auto simp: sim_def intro: inv_mono)

lemma sim_answered: "sim E n r r' \<Longrightarrow> sim E n (answered f r) (answered f r')"
  by (auto simp: sim_def answered_def option.map_comp comp_def map_prod_def split_beta)

lemma sim_result: "sim E n r r' \<Longrightarrow> sim E n (map_option (\<lambda>(x, s). (f x, s)) r) (map_option (\<lambda>(x, s). (f x, s)) r')"
  by (auto simp: sim_def option.map_comp comp_def map_prod_def split_beta)

subsection \<open>New contexts and the current one\<close>

lemma cache_transfer:
  assumes "cache_ok s v" and "ctxvars s' ! v = ctxvars s ! v" and "\<And>t. context_ver (threads s' t) = context_ver (threads s t)"
    and "\<And>t. sp_value t v (abs_state s') = sp_value t v (abs_state s)"
  shows "cache_ok s' v"
  using assms by (simp add: cache_ok_def)

lemma ctx_ok_transfer:
  assumes "ctx_ok E s ctx" and "map var_hash (ctxvars s') = map var_hash (ctxvars s)" and "length (contexts s) \<le> length (contexts s')"
  shows "ctx_ok E s' ctx"
  using assms map_eq_imp_length_eq [OF assms(2)] by (fastforce simp: ctx_ok_def var_keys_cong [OF assms(2)])

lemma sp_value_add:
  assumes "\<And>c. sp_cur \<sigma> t = Some c \<Longrightarrow> c < length (sp_ctxs \<sigma>)"
  shows "sp_value t v (sp_add m \<sigma>) = sp_value t v \<sigma>"
  using assms by (cases "sp_cur \<sigma> t") (simp_all add: sp_value_def sp_map_def sp_add_def nth_append)

lemma new_from_vars:
  assumes inv: "ctx_inv E n s" and h: "hamt_rel (var_keys E s) id h m" "dom m \<subseteq> {..<length (ctxvars s)}"
    and s': "context_new_from_vars h s = (c, s')"
  shows "c = length (contexts s)" and "ctx_inv E n s'" and "abs_state s' = sp_add m (abs_state s)"
proof -
  show "c = length (contexts s)" using s' by (simp add: context_new_from_vars_def)
  have m: "vars_map (Some h) = m" by (rule vars_map_rel [OF inv_lawful [OF inv] h(1)])
  show a: "abs_state s' = sp_add m (abs_state s)"
    using s' m by (auto simp: context_new_from_vars_def abs_state_def abs_ctx_def sp_add_def)
  have v: "sp_value t v (abs_state s') = sp_value t v (abs_state s)" for t v
    unfolding a using inv by (intro sp_value_add) (simp add: inv_current)
  have same: "ctxvars s' = ctxvars s" "threads s' = threads s" "length (contexts s') = Suc (length (contexts s))"
    "contexts s' = contexts s @ [\<lparr> ctx_prev = None, ctx_vars = Some h, ctx_entered = False \<rparr>]"
    using s' by (auto simp: context_new_from_vars_def)
  have k: "var_keys E s' = var_keys E s" by (rule var_keys_cong) (simp add: same)
  have "ctx_ok E s' ctx" if "ctx \<in> set (contexts s)" for ctx
    by (rule ctx_ok_transfer [of E s]) (use inv that in \<open>simp_all add: ctx_inv_def same(1,3)\<close>)
  moreover have "ctx_ok E s' \<lparr> ctx_prev = None, ctx_vars = Some h, ctx_entered = False \<rparr>"
    using h by (auto simp: ctx_ok_def k same)
  moreover have "cache_ok s' v" if "v < length (ctxvars s)" for v
    by (rule cache_transfer [of s]) (use inv that v in \<open>simp_all add: ctx_inv_def same(1,2)\<close>)
  ultimately show "ctx_inv E n s'"
    using inv by (auto simp: ctx_inv_def same(1,2,4) less_Suc_eq)
qed

lemma empty_rel: "ctx_inv E n s \<Longrightarrow> hamt_rel (var_keys E s) id PyHamt_New Map.empty"
  by (rule hamt.rel_empty [OF inv_lawful])

text \<open>Making the first context of a thread changes no value: before it, the thread had none.\<close>

lemma context_get_all:
  assumes inv: "ctx_inv E n s" and s': "context_get t s = (c, s')"
  shows "sp_current t (abs_state s) = (c, abs_state s') \<and> ctx_inv E n s' \<and> ts_context (threads s' t) = Some c
    \<and> c < length (contexts s') \<and> ctxvars s' = ctxvars s \<and> tokens s' = tokens s
    \<and> (\<forall>u. context_ver (threads s' u) = context_ver (threads s u))"
proof (cases "ts_context (threads s t)")
  case (Some d)
  then show ?thesis
    using s' inv by (auto simp: context_get_def sp_current_def inv_current)
next
  case None
  obtain s1 where s1: "context_new_from_vars PyHamt_New s = (c, s1)" "s' = set_context t (Some c) s1"
    using s' None by (auto simp: context_get_def context_new_empty_def split: prod.splits)
  note n = new_from_vars [OF inv empty_rel [OF inv] _ s1(1), simplified]
  have same: "ctxvars s1 = ctxvars s" "threads s1 = threads s" "tokens s1 = tokens s" "length (contexts s1) = Suc (length (contexts s))"
    using s1(1) by (auto simp: context_new_from_vars_def)
  have same': "ctxvars s' = ctxvars s" "context_ver (threads s' u) = context_ver (threads s u)" for u
    by (simp_all add: s1(2) set_context_def same)
  have a: "abs_state s' = (sp_add Map.empty (abs_state s))\<lparr> sp_cur := (sp_cur (abs_state s))(t \<mapsto> c) \<rparr>"
    using n(3) by (auto simp: s1(2) abs_state_def set_context_def same fun_eq_iff sp_add_def)
  have val: "sp_value u v (abs_state s') = sp_value u v (abs_state s)" for u v
  proof (cases "u = t")
    case True
    then show ?thesis using None by (simp add: a sp_value_def sp_map_def sp_add_def n(1) nth_append)
  next
    case False
    then have "sp_value u v (abs_state s') = sp_value u v (sp_add Map.empty (abs_state s))"
      by (simp add: a sp_value_def sp_map_def sp_add_def)
    also have "\<dots> = sp_value u v (abs_state s)"
      using inv by (intro sp_value_add) (simp add: inv_current)
    finally show ?thesis .
  qed
  have "cache_ok s' v" if "v < length (ctxvars s)" for v
    by (rule cache_transfer [of s]) (use inv that in \<open>simp_all add: ctx_inv_def val same'\<close>)
  moreover have "ctx_ok E s' ctx = ctx_ok E s1 ctx" for ctx
    by (simp add: s1(2) ctx_ok_def set_context_def var_keys_def contextvar_tp_hash_def [abs_def])
  ultimately have "ctx_inv E n s'"
    using n(2) unfolding ctx_inv_def by (auto simp: s1(2) set_context_def same n(1))
  then show ?thesis
    using None n(1) by (simp add: sp_current_def a) (simp add: s1(2) set_context_def same)
qed

lemma context_get_step:
  assumes "ctx_inv E n s" and "context_get t s = (c, s')"
  shows "sp_current t (abs_state s) = (c, abs_state s')" and "ctx_inv E n s'" and "ts_context (threads s' t) = Some c"
    and "c < length (contexts s')" and "ctxvars s' = ctxvars s" and "tokens s' = tokens s"
    and "context_ver (threads s' u) = context_ver (threads s u)"
  using context_get_all [OF assms] by simp_all

lemma sim_New:
  assumes "ctx_inv E n s"
  shows "sim E n (PyContext_New s) (sp_new (abs_state s))"
proof -
  obtain c s' where s': "context_new_from_vars PyHamt_New s = (c, s')" by fastforce
  from new_from_vars [OF assms empty_rel [OF assms] _ s'] s' show ?thesis
    by (simp add: PyContext_New_def context_new_empty_def sp_new_def)
qed

lemma get_vars_None: "\<not> c < length (contexts s) \<Longrightarrow> context_get_vars s c = None"
  by (simp add: context_get_vars_def item_at_def)

lemma sim_Copy:
  assumes "ctx_inv E n s"
  shows "sim E n (PyContext_Copy octx s) (sp_copy octx (abs_state s))"
proof (cases octx)
  case (Context c)
  show ?thesis
  proof (cases "c < length (contexts s)")
    case True
    with inv_vars [OF assms] obtain h where h: "context_get_vars s c = Some h" "hamt_rel (var_keys E s) id h (sp_map c (abs_state s))"
      "dom (sp_map c (abs_state s)) \<subseteq> {..<length (ctxvars s)}" by metis
    then show ?thesis
      using Context True new_from_vars [OF assms h(2,3)]
      by (auto simp: PyContext_Copy_def sp_copy_def item_at_def sp_map_def split: prod.split)
  next
    case False
    then show ?thesis
      using Context by (simp add: PyContext_Copy_def sp_copy_def get_vars_None item_at_def)
  qed
qed (use assms in \<open>simp_all add: PyContext_Copy_def sp_copy_def\<close>)

lemma sim_CopyCurrent:
  assumes "ctx_inv E n s"
  shows "sim E n (PyContext_CopyCurrent t s) (sp_copy_current t (abs_state s))"
proof -
  obtain c s' where s': "context_get t s = (c, s')" by fastforce
  note g = context_get_step [OF assms s']
  obtain h where h: "context_get_vars s' c = Some h" "hamt_rel (var_keys E s') id h (sp_map c (abs_state s'))"
      "dom (sp_map c (abs_state s')) \<subseteq> {..<length (ctxvars s')}"
    using inv_vars [OF g(2,4)] by metis
  show ?thesis
    using new_from_vars [OF g(2) h(2,3)] h(1)
    by (auto simp: PyContext_CopyCurrent_def sp_copy_current_def s' g(1) split: prod.split)
qed

subsection \<open>Entering and leaving\<close>

text \<open>A watcher callback may add and remove watchers, and do anything outside of context variables.\<close>

definition quiet_watchers :: "ctx_env \<Rightarrow> bool" where
  "quiet_watchers E \<longleftrightarrow> (\<forall>cb ctx s. \<exists>w a. snd (watch_callback E cb ctx s) = s\<lparr> context_watchers := w, active_context_watchers := a \<rparr>)"

definition only_watchers :: "interp \<Rightarrow> interp \<Rightarrow> bool" where
  "only_watchers s s' \<longleftrightarrow> (\<exists>w a. s' = s\<lparr> context_watchers := w, active_context_watchers := a \<rparr>)"

lemma only_watchers_refl: "only_watchers s s"
  unfolding only_watchers_def by (rule exI [of _ "context_watchers s"], rule exI [of _ "active_context_watchers s"]) simp

lemma only_watchers_trans: "only_watchers s s' \<Longrightarrow> only_watchers s' s'' \<Longrightarrow> only_watchers s s''"
  unfolding only_watchers_def by (elim exE) (simp, blast)

lemma notify_quiet:
  assumes "quiet_watchers E"
  shows "only_watchers s (notify_loop E ctx active i s)"
  using assms
proof (induction E ctx active i s rule: notify_loop.induct)
  case (1 E ctx active i s)
  have "only_watchers s (snd (watch_callback E cb ctx s))" for cb
    using 1(2) unfolding only_watchers_def quiet_watchers_def by blast
  then have "only_watchers s (if active AND 1 \<noteq> 0 then case context_watchers s ! i of None \<Rightarrow> s
      | Some cb \<Rightarrow> snd (watch_callback E cb ctx s) else s)" (is "only_watchers s ?s1")
    by (simp add: only_watchers_refl split: option.split)
  moreover have "only_watchers ?s1 (notify_loop E ctx (drop_bit 1 active) (i + 1) ?s1)" if "active \<noteq> 0"
    by (rule 1(1) [OF that 1(2)])
  ultimately show ?case
    by (cases "active = 0"; subst notify_loop.simps)
      (simp_all only: if_True if_False only_watchers_refl simp_thms, blast intro: only_watchers_trans)
qed

lemma context_switched_step:
  assumes inv: "ctx_inv E n s" and n: "n + 1 < 2 ^ 64" and q: "quiet_watchers E"
    and cs: "map ctx_vars cs = map ctx_vars (contexts s)" "\<forall>ctx \<in> set cs. \<forall>p. ctx_prev ctx = Some p \<longrightarrow> p < length (contexts s)"
    and d: "\<forall>c. d = Some c \<longrightarrow> c < length (contexts s)"
    and s2: "contexts s2 = cs" "threads s2 = (threads s)(t := (threads s t)\<lparr> ts_context := d \<rparr>)" "ctxvars s2 = ctxvars s" "tokens s2 = tokens s"
  shows "ctx_inv E (n + 1) (context_switched E t s2)" and "abs_state (context_switched E t s2) = abs_state s2"
proof -
  let ?ver = "context_ver (threads s t)"
  define s3 where "s3 = s2\<lparr> threads := (threads s2)(t := (threads s2 t)\<lparr> context_ver := context_ver (threads s2 t) + 1 \<rparr>) \<rparr>"
  obtain w a where sw: "context_switched E t s2 = s3\<lparr> context_watchers := w, active_context_watchers := a \<rparr>"
    using notify_quiet [OF q, of s3 "case ts_context (threads s3 t) of None \<Rightarrow> Py_None | Some c \<Rightarrow> Context c" "active_context_watchers s3" 0]
    unfolding context_switched_def notify_context_watchers_def only_watchers_def Let_def s3_def by blast
  have a3: "abs_state s3 = abs_state s2" by (auto simp: abs_state_def s3_def)
  show "abs_state (context_switched E t s2) = abs_state s2" by (simp add: sw a3)
  have v: "unat ?ver \<le> n" using inv by (simp add: ctx_inv_def)
  then have up: "unat (?ver + 1) = unat ?ver + 1"
    using n by (simp add: unat_word_ariths)
  have len: "length cs = length (contexts s)" using cs(1) by (rule map_eq_imp_length_eq)
  have vars: "ctx_vars (cs ! c) = ctx_vars (contexts s ! c)" if "c < length (contexts s)" for c
    using that cs(1) len by (metis nth_map)
  have "cache_ok s3 v" if vv: "v < length (ctxvars s)" for v
  proof -
    let ?id = "var_cached_tsid (ctxvars s ! v)"
    have c: "cache_ok s v" using inv vv by (simp add: ctx_inv_def)
    show ?thesis
    proof (cases "?id = t")
      case True
      have "x \<le> ?ver \<Longrightarrow> x \<le> ?ver + 1 \<and> x \<noteq> ?ver + 1" for x
        using up by (auto simp: word_le_nat_alt)
      with c True show ?thesis by (auto simp: cache_ok_def s3_def s2 Let_def)
    next
      case False
      have "sp_value ?id v (abs_state s3) = sp_value ?id v (abs_state s)"
        using False vars inv_current [OF inv, of ?id] len
        by (cases "ts_context (threads s ?id)") (auto simp: s3_def sp_value_def s2 sp_map_def abs_state_def abs_ctx_def)
      with c False show ?thesis by (auto simp: cache_ok_def s3_def s2 Let_def)
    qed
  qed
  moreover have "ctx_ok E s3 ctx" if m: "ctx \<in> set cs" for ctx
  proof -
    obtain c where c: "c < length cs" "ctx = cs ! c" using m by (auto simp: in_set_conv_nth)
    then have "ctx_ok E s (contexts s ! c)" using inv len by (auto simp: ctx_inv_def)
    with c m cs(2) vars [of c] len show ?thesis
      by (auto simp: ctx_ok_def s3_def s2 var_keys_def contextvar_tp_hash_def [abs_def])
  qed
  moreover have "unat (context_ver (threads s3 u)) \<le> n + 1" for u
    using inv v up by (auto simp: s3_def s2 ctx_inv_def intro: le_SucI)
  ultimately have "ctx_inv E (n + 1) s3"
    using inv d len unfolding ctx_inv_def by (auto simp: s3_def s2)
  then show "ctx_inv E (n + 1) (context_switched E t s2)" by (simp add: sw)
qed

lemma map_vars_update: "ctx_vars x = ctx_vars (xs ! c) \<Longrightarrow> map ctx_vars (xs[c := x]) = map ctx_vars xs"
  by (metis list_update_id map_update)

lemma in_set_updateE:
  assumes "x \<in> set (xs[i := y])"
  obtains "x = y" | "x \<in> set xs"
  using assms set_update_subset_insert [of xs i y] by blast

lemma inv_prev: "ctx_inv E n s \<Longrightarrow> ctx \<in> set (contexts s) \<Longrightarrow> ctx_prev ctx = Some p \<Longrightarrow> p < length (contexts s)"
  by (auto simp: ctx_inv_def ctx_ok_def)

lemma sim_Enter:
  assumes inv: "ctx_inv E n s" and n: "n + 1 < 2 ^ 64" and q: "quiet_watchers E"
  shows "sim E (n + 1) (PyContext_Enter E t octx s) (sp_enter t octx (abs_state s))"
proof (cases octx)
  case (Context c)
  show ?thesis
  proof (cases "c < length (contexts s) \<and> \<not> ctx_entered (contexts s ! c)")
    case True
    let ?x = "(contexts s ! c)\<lparr> ctx_prev := ts_context (threads s t), ctx_entered := True \<rparr>"
    let ?s2 = "set_context t (Some c) (s\<lparr> contexts := (contexts s)[c := ?x] \<rparr>)"
    have "ctx_inv E (n + 1) (context_switched E t ?s2) \<and> abs_state (context_switched E t ?s2) = abs_state ?s2"
      using True inv_prev [OF inv] inv_current [OF inv]
      by (intro conjI context_switched_step [OF inv n q, where cs = "(contexts s)[c := ?x]" and d = "Some c"] ballI allI impI)
        (auto simp: set_context_def map_vars_update elim!: in_set_updateE)
    moreover have "abs_state ?s2 = (abs_state s)\<lparr> sp_ctxs := (sp_ctxs (abs_state s))[c := (abs_ctx (contexts s ! c))
        \<lparr> sc_prev := sp_cur (abs_state s) t, sc_entered := True \<rparr>], sp_cur := (sp_cur (abs_state s))(t \<mapsto> c) \<rparr>"
      by (auto simp: abs_state_def set_context_def map_update abs_ctx_def)
    ultimately show ?thesis
      using True Context by (simp add: PyContext_Enter_def sp_enter_def item_at_def)
  next
    case False
    then show ?thesis
      using Context inv_mono [OF inv] by (auto simp: PyContext_Enter_def sp_enter_def item_at_def)
  qed
qed (use inv_mono [OF inv] in \<open>simp_all add: PyContext_Enter_def sp_enter_def\<close>)

lemma sim_Exit:
  assumes inv: "ctx_inv E n s" and n: "n + 1 < 2 ^ 64" and q: "quiet_watchers E"
  shows "sim E (n + 1) (PyContext_Exit E t octx s) (sp_exit t octx (abs_state s))"
proof (cases octx)
  case (Context c)
  show ?thesis
  proof (cases "c < length (contexts s) \<and> ctx_entered (contexts s ! c) \<and> ts_context (threads s t) = Some c")
    case True
    let ?x = "(contexts s ! c)\<lparr> ctx_prev := None, ctx_entered := False \<rparr>"
    let ?s1 = "set_context t (ctx_prev (contexts s ! c)) s"
    let ?s2 = "?s1\<lparr> contexts := (contexts ?s1)[c := ?x] \<rparr>"
    have "ctx_inv E (n + 1) (context_switched E t ?s2) \<and> abs_state (context_switched E t ?s2) = abs_state ?s2"
      using True inv_prev [OF inv] inv_prev [OF inv nth_mem [of c]]
      by (intro conjI context_switched_step [OF inv n q, where cs = "(contexts s)[c := ?x]" and d = "ctx_prev (contexts s ! c)"]
          ballI allI impI)
        (auto simp: set_context_def map_vars_update elim!: in_set_updateE)
    moreover have "abs_state ?s2 = (abs_state s)\<lparr> sp_ctxs := (sp_ctxs (abs_state s))[c := (abs_ctx (contexts s ! c))
        \<lparr> sc_prev := None, sc_entered := False \<rparr>], sp_cur := (sp_cur (abs_state s))(t := ctx_prev (contexts s ! c)) \<rparr>"
      by (auto simp: abs_state_def set_context_def map_update abs_ctx_def)
    ultimately show ?thesis
      using True Context by (simp add: PyContext_Exit_def sp_exit_def item_at_def Let_def)
  next
    case False
    then show ?thesis
      using Context inv_mono [OF inv] by (auto simp: PyContext_Exit_def sp_exit_def item_at_def)
  qed
qed (use inv_mono [OF inv] in \<open>simp_all add: PyContext_Exit_def sp_exit_def\<close>)

lemma sim_run:
  assumes inv: "ctx_inv E n s" and n: "n + k + 2 < 2 ^ 64" and q: "quiet_watchers E"
    and body: "\<And>s. ctx_inv E (n + 1) s \<Longrightarrow> sim E (n + 1 + k) (body s) (body' (abs_state s))"
  shows "sim E (n + k + 2) (context_run E t self 1 body s) (sp_run t self body' (abs_state s))"
proof -
  have "sim E (n + k + 2) (Option.bind (PyContext_Enter E t (Context self) s) f) (Option.bind (sp_enter t (Context self) (abs_state s)) f')"
    if "\<And>x s. ctx_inv E (n + 1) s \<Longrightarrow> sim E (n + k + 2) (f (x, s)) (f' (x, abs_state s))" for f f'
    by (rule sim_bind [OF sim_Enter [OF inv _ q]]) (use n that in auto)
  note enter = this
  have "sim E (n + k + 2) (Option.bind (PyContext_Exit E t (Context self) s) f) (Option.bind (sp_exit t (Context self) (abs_state s)) f')"
    if "ctx_inv E (n + 1 + k) s" "\<And>x s. ctx_inv E (n + k + 2) s \<Longrightarrow> sim E (n + k + 2) (f (x, s)) (f' (x, abs_state s))" for f f' s
    using sim_bind [OF sim_Exit [OF that(1) _ q], of t "Context self" "n + k + 2" f f'] n that(2) by (simp add: add.commute add.left_commute)
  note leave = this
  show ?thesis
    unfolding context_run_def sp_run_def if_not_P [OF less_irrefl]
    by (rule enter) (auto split: sum.split intro!: leave [simplified] sim_bind [OF body] intro: inv_mono)
qed

end
