(* ===== verification/Contexts_Vars.thy ===== *)
theory Contexts_Vars
  imports Contexts_Sim
begin

text \<open>The operations on variables: values, caches, tokens.\<close>

subsection \<open>Changing a variable or a mapping\<close>

lemma inv_set_var:
  assumes inv: "ctx_inv E n s" and f: "var_hash (f (ctxvars s ! v)) = var_hash (ctxvars s ! v)" "var_default (f (ctxvars s ! v)) = var_default (ctxvars s ! v)"
    and c: "v < length (ctxvars s) \<Longrightarrow> cache_ok (set_var v f s) v"
  shows "ctx_inv E n (set_var v f s)" and "abs_state (set_var v f s) = abs_state s"
proof -
  have same: "map g ((ctxvars s)[v := f (ctxvars s ! v)]) = map g (ctxvars s)" if "g (f (ctxvars s ! v)) = g (ctxvars s ! v)" for g
    using that by (metis list_update_id map_update)
  show a: "abs_state (set_var v f s) = abs_state s"
    using same [OF f(2)] by (simp add: abs_state_def set_var_def)
  have h: "map var_hash (ctxvars (set_var v f s)) = map var_hash (ctxvars s)"
    using same [OF f(1)] by (simp add: set_var_def)
  have "var_hash ` set (ctxvars (set_var v f s)) = var_hash ` set (ctxvars s)"
    using arg_cong [OF h, of set] by simp
  then have "\<forall>var \<in> set (ctxvars (set_var v f s)). var_hash var \<noteq> - 1"
    using inv by (metis (no_types, lifting) ctx_inv_def image_iff)
  moreover have "ctx_ok E (set_var v f s) ctx" if "ctx \<in> set (contexts s)" for ctx
    by (rule ctx_ok_transfer [of E s]) (use inv that h in \<open>simp_all add: ctx_inv_def, simp add: set_var_def\<close>)
  moreover have "cache_ok (set_var v f s) u" if "u < length (ctxvars s)" for u
  proof (cases "u = v")
    case False
    show ?thesis
      by (rule cache_transfer [of s]) (use inv that False a in \<open>simp_all add: ctx_inv_def\<close>, simp_all add: set_var_def)
  qed (use c that in simp)
  ultimately show "ctx_inv E n (set_var v f s)"
    using inv unfolding ctx_inv_def by (simp add: set_var_def)
qed

lemma drop_cache_step:
  assumes "ctx_inv E n s"
  shows "ctx_inv E n (drop_cache v s)" and "abs_state (drop_cache v s) = abs_state s"
    and "v < length (ctxvars s) \<Longrightarrow> var_cached (ctxvars (drop_cache v s) ! v) = None"
    and "length (ctxvars (drop_cache v s)) = length (ctxvars s)"
  using inv_set_var [OF assms, of "\<lambda>var. var\<lparr> var_cached := None \<rparr>" v]
  by (simp_all add: drop_cache_def cache_ok_def set_var_def)

text \<open>The cache may hold the value the variable has now.\<close>

lemma cache_value_step:
  assumes "ctx_inv E n s" and "sp_value t v (abs_state s) = Some x"
  shows "ctx_inv E n (cache_value t v x s)" and "abs_state (cache_value t v x s) = abs_state s"
proof -
  let ?f = "\<lambda>var. var\<lparr> var_cached := Some x, var_cached_tsid := t, var_cached_tsver := context_ver (threads s t) \<rparr>"
  have a: "abs_state (set_var v ?f s) = abs_state s"
    by (simp add: abs_state_def set_var_def map_update [symmetric]) (metis (no_types, lifting) contextvar.select_convs(2) contextvar.surjective contextvar.update_convs(3,4,5) list_update_id map_update)
  have "cache_ok (set_var v ?f s) v" if "v < length (ctxvars s)"
    using that assms(2) a by (simp add: cache_ok_def) (simp add: set_var_def)
  then show "ctx_inv E n (cache_value t v x s)" "abs_state (cache_value t v x s) = abs_state s"
    using inv_set_var [OF assms(1), of ?f v] by (simp_all add: cache_value_def)
qed

text \<open>A mapping may change at a variable that is not cached.\<close>

lemma set_vars_step:
  assumes inv: "ctx_inv E n s" and c: "c < length (contexts s)" and v: "v < length (ctxvars s)" "var_cached (ctxvars s ! v) = None"
    and h: "hamt_rel (var_keys E s) id h ((sp_map c (abs_state s))(v := x))"
  shows "ctx_inv E n (context_set_vars c h s)" and "abs_state (context_set_vars c h s) = sp_update c v x (abs_state s)"
proof -
  let ?s = "context_set_vars c h s"
  have m: "vars_map (Some h) = (sp_map c (abs_state s))(v := x)"
    by (rule vars_map_rel [OF inv_lawful [OF inv] h])
  show a: "abs_state ?s = sp_update c v x (abs_state s)"
    using c m by (simp add: context_set_vars_def sp_update_def sp_map_def) (simp add: abs_state_def map_update abs_ctx_def)
  have same: "ctxvars ?s = ctxvars s" "threads ?s = threads s" "length (contexts ?s) = length (contexts s)"
    by (simp_all add: context_set_vars_def)
  have "cache_ok ?s u" if "u < length (ctxvars s)" for u
  proof (cases "u = v")
    case True
    with v show ?thesis by (simp add: cache_ok_def same)
  next
    case False
    have val: "sp_value t u (abs_state ?s) = sp_value t u (abs_state s)" for t
    proof (cases "ts_context (threads s t)")
      case (Some d)
      with False c inv_current [OF inv Some] show ?thesis
        unfolding a by (cases "c = d") (simp_all add: sp_value_def sp_map_def sp_update_def)
    qed (unfold a, simp add: sp_value_def sp_update_def)
    show ?thesis
      by (rule cache_transfer [of s]) (use inv that in \<open>simp_all add: ctx_inv_def same val\<close>)
  qed
  moreover have "ctx_ok E ?s ctx" if "ctx \<in> set (contexts ?s)" for ctx
  proof -
    obtain h0 where h0: "dom (sp_map c (abs_state s)) \<subseteq> {..<length (ctxvars s)}"
      using inv_vars [OF inv c] by metis
    have k: "var_keys E ?s = var_keys E s" by (rule var_keys_cong) (simp add: same)
    have "ctx_ok E s (contexts s ! c)" using inv c by (simp add: ctx_inv_def)
    moreover have "dom ((sp_map c (abs_state s))(v := x)) \<subseteq> {..<length (ctxvars s)}"
      using h0 v(1) by (auto split: if_splits)
    ultimately have "ctx_ok E ?s ((contexts s ! c)\<lparr> ctx_vars := Some h \<rparr>)"
      using h unfolding ctx_ok_def k same by fastforce
    moreover have "ctx_ok E ?s ctx" if "ctx \<in> set (contexts s)"
      by (rule ctx_ok_transfer [of E s]) (use inv that in \<open>simp_all add: ctx_inv_def same\<close>)
    ultimately show ?thesis
      using that by (auto simp: context_set_vars_def elim: in_set_updateE)
  qed
  ultimately show "ctx_inv E n ?s"
    using inv unfolding ctx_inv_def by (simp add: same)
qed

lemma set_commutes: "context_set_vars c h (cache_value t v x s) = cache_value t v x (context_set_vars c h s)"
  by (simp add: context_set_vars_def cache_value_def set_var_def)

subsection \<open>Setting and deleting\<close>

lemma sim_contextvar_set:
  assumes inv: "ctx_inv E n s" and v: "v < length (ctxvars s)" and cur: "sp_current t (abs_state s) = (c, \<sigma>1)"
  shows "sim E n (contextvar_set E t v x s) (Some (Inr (), sp_update c v (Some x) \<sigma>1))"
proof -
  obtain d s2 where s2: "context_get t (drop_cache v s) = (d, s2)" by fastforce
  note dc = drop_cache_step [OF inv, of v]
  note g = context_get_step [OF dc(1) s2]
  have [simp]: "d = c" "\<sigma>1 = abs_state s2" using g(1) cur by (simp_all add: dc(2))
  have v2: "v < length (ctxvars s2)" "var_cached (ctxvars s2 ! v) = None" using v dc(3,4) by (simp_all add: g(5))
  obtain h where h: "context_get_vars s2 c = Some h" "hamt_rel (var_keys E s2) id h (sp_map c (abs_state s2))"
    using inv_vars [OF g(2,4)] by (metis \<open>d = c\<close>)
  obtain h' where h': "PyHamt_Assoc (var_keys E s2) h v x = Some (Some h')"
      "hamt_rel (var_keys E s2) id h' ((sp_map c (abs_state s2))(v := Some x))"
    using hamt.rel_put [OF inv_lawful [OF g(2)] h(2), of v x] by auto
  have "c < length (contexts s2)" using g(4) by simp
  note w = set_vars_step [OF g(2) this v2 h'(2)]
  have "sp_value t v (abs_state (context_set_vars c h' s2)) = Some x"
    using \<open>c < length (contexts s2)\<close> g(3) by (simp only: w(2)) (simp add: sp_value_def sp_map_def sp_update_def)
  from cache_value_step [OF w(1) this] show ?thesis
    by (simp add: contextvar_set_def s2 h(1) h'(1) set_commutes w(2))
qed

lemma sim_contextvar_del:
  assumes inv: "ctx_inv E n s" and v: "v < length (ctxvars s)" and cur: "sp_current t (abs_state s) = (c, \<sigma>1)"
  shows "sim E n (contextvar_del E t v s)
    (Some (if sp_map c \<sigma>1 v = None then (Inl LookupError, \<sigma>1) else (Inr (), sp_update c v None \<sigma>1)))"
proof -
  obtain d s2 where s2: "context_get t (drop_cache v s) = (d, s2)" by fastforce
  note dc = drop_cache_step [OF inv, of v]
  note g = context_get_step [OF dc(1) s2]
  have [simp]: "d = c" "\<sigma>1 = abs_state s2" using g(1) cur by (simp_all add: dc(2))
  have v2: "v < length (ctxvars s2)" "var_cached (ctxvars s2 ! v) = None" using v dc(3,4) by (simp_all add: g(5))
  obtain h where h: "context_get_vars s2 c = Some h" "hamt_rel (var_keys E s2) id h (sp_map c (abs_state s2))"
    using inv_vars [OF g(2,4)] by (metis \<open>d = c\<close>)
  obtain h' where h': "PyHamt_Without (var_keys E s2) h v = Some (Some h')"
      "hamt_rel (var_keys E s2) id h' ((sp_map c (abs_state s2))(v := None))" "h = h' \<longleftrightarrow> sp_map c (abs_state s2) v = None"
    by (rule PyHamt_Without_same [OF inv_lawful [OF g(2)] h(2)])
  have "c < length (contexts s2)" using g(4) by simp
  note w = set_vars_step [OF g(2) this v2 h'(2)]
  show ?thesis
    using w g(2) h'(3) by (simp add: contextvar_del_def s2 h(1) h'(1))
qed

subsection \<open>The operations of the API\<close>

lemma sim_contextvar_new:
  assumes inv: "ctx_inv E n s"
  shows "sim E n (contextvar_new E name def s) (sp_new_var (bad_name E) name def (abs_state s))"
proof (cases name)
  case (Str nm)
  let ?hash = "contextvar_generate_hash E (length (ctxvars s)) nm"
  let ?var = "\<lparr> var_name = Some nm, var_default = def, var_cached = None, var_cached_tsid = 0, var_cached_tsver = 0,
    var_hash = ?hash \<rparr>"
  let ?s = "s\<lparr> ctxvars := ctxvars s @ [?var] \<rparr>"
  show ?thesis
  proof (cases "?hash = - 1")
    case False
    have a: "abs_state ?s = (abs_state s)\<lparr> sp_defaults := sp_defaults (abs_state s) @ [def] \<rparr>"
      by (simp add: abs_state_def)
    have hash: "\<forall>var \<in> set (ctxvars ?s). var_hash var \<noteq> - 1"
      using inv False by (auto simp: ctx_inv_def)
    have "ctx_ok E ?s ctx" if ctx: "ctx \<in> set (contexts s)" for ctx
    proof -
      have "ctx_ok E s ctx" using inv ctx by (simp add: ctx_inv_def)
      then obtain h m where h: "ctx_vars ctx = Some h" "hamt_rel (var_keys E s) id h m" "dom m \<subseteq> {..<length (ctxvars s)}"
        by (auto simp: ctx_ok_def)
      have "hamt_rel (var_keys E ?s) id h m"
        using h(3) by (intro hamt_rel_rehash [OF h(2) inv_lawful [OF inv] lawful_vars [OF hash]])
          (auto simp: var_keys_def contextvar_tp_hash_def item_at_def nth_append)
      with h(1,3) \<open>ctx_ok E s ctx\<close> show ?thesis by (fastforce simp: ctx_ok_def)
    qed
    moreover have "cache_ok ?s v" if "v < length (ctxvars ?s)" for v
    proof (cases "v = length (ctxvars s)")
      case True
      then show ?thesis by (simp add: cache_ok_def)
    next
      case False
      show ?thesis
        by (rule cache_transfer [of s]) (use False that inv in \<open>simp_all add: ctx_inv_def nth_append a sp_value_def sp_map_def\<close>)
    qed
    ultimately have "ctx_inv E n ?s"
      using inv hash unfolding ctx_inv_def by simp
    with False Str a show ?thesis
      by (simp add: contextvar_new_def sp_new_var_def bad_name_def Let_def)
  qed (use inv Str in \<open>simp add: contextvar_new_def sp_new_var_def bad_name_def Let_def\<close>)
qed (use inv in \<open>simp_all add: contextvar_new_def sp_new_var_def\<close>)

lemma default_or_else: "or_else None (or_else def (var_default var)) = default_value var def"
  by (simp add: or_else_def default_value_def split: option.split)

text \<open>A lookup gives the value in the current context, from the cache or from the mapping.\<close>

lemma sim_Get:
  assumes inv: "ctx_inv E n s"
  shows "sim E n (PyContextVar_Get E t ovar def s) (sp_get t ovar def (abs_state s))"
proof (cases ovar)
  case (ContextVar v)
  show ?thesis
  proof (cases "v < length (ctxvars s)")
    case True
    let ?var = "ctxvars s ! v"
    show ?thesis
    proof (cases "ts_context (threads s t)")
      case None
      with True inv show ?thesis
        by (simp add: ContextVar PyContextVar_Get_def sp_get_def item_at_def sp_value_def default_or_else)
    next
      case (Some c)
      note c = inv_current [OF inv Some]
      obtain h where h: "context_get_vars s c = Some h" "hamt_rel (var_keys E s) id h (sp_map c (abs_state s))"
        using inv_vars [OF inv c] by metis
      have val: "sp_value t v (abs_state s) = sp_map c (abs_state s) v" by (simp add: sp_value_def Some)
      show ?thesis
      proof (cases "var_cached ?var \<noteq> None \<and> var_cached_tsid ?var = t \<and> var_cached_tsver ?var = context_ver (threads s t)")
        case hit: True
        then have "sp_value t v (abs_state s) = var_cached ?var"
          using inv True by (auto simp: ctx_inv_def cache_ok_def Let_def)
        with hit True inv show ?thesis
          by (auto simp: ContextVar PyContextVar_Get_def sp_get_def item_at_def Some or_else_def)
      next
        case miss: False
        show ?thesis
        proof (cases "sp_map c (abs_state s) v")
          case None
          then show ?thesis
            using miss True inv PyHamt_Find_rel [OF inv_lawful [OF inv] h(2), of v]
            by (auto simp: ContextVar PyContextVar_Get_def sp_get_def item_at_def Some h(1) val default_or_else)
        next
          case x: (Some x)
          then show ?thesis
            using miss True cache_value_step [OF inv, of t v x] PyHamt_Find_rel [OF inv_lawful [OF inv] h(2), of v]
            by (auto simp: ContextVar PyContextVar_Get_def sp_get_def item_at_def Some h(1) val or_else_def)
        qed
      qed
    qed
  qed (simp add: ContextVar PyContextVar_Get_def sp_get_def item_at_def)
qed (use inv in \<open>simp_all add: PyContextVar_Get_def sp_get_def\<close>)

lemma sim_Set:
  assumes inv: "ctx_inv E n s"
  shows "sim E n (PyContextVar_Set E t ovar x s) (sp_set t ovar x (abs_state s))"
proof (cases ovar)
  case (ContextVar v)
  obtain c s1 where s1: "context_get t s = (c, s1)" by fastforce
  note g = context_get_step [OF inv s1]
  show ?thesis
  proof (cases "v < length (ctxvars s)")
    case True
    obtain h where h: "context_get_vars s1 c = Some h" "hamt_rel (var_keys E s1) id h (sp_map c (abs_state s1))"
      using inv_vars [OF g(2,4)] by metis
    let ?s2 = "snd (token_new c v (sp_map c (abs_state s1) v) s1)"
    have inv2: "ctx_inv E n ?s2" using g(2) by (simp add: token_new_def)
    have abs2: "sp_current t (abs_state ?s2) = (c, abs_state ?s2)"
      using g(3) by (simp add: token_new_def sp_current_def)
    have "v < length (ctxvars ?s2)" using True by (simp add: token_new_def g(5))
    note set = sim_contextvar_set [OF inv2 this abs2, of x]
    have upd: "sp_update c v (Some x) (abs_state ?s2) = (sp_update c v (Some x) (abs_state s1))\<lparr> sp_toks := tokens ?s2 \<rparr>"
      by (simp add: token_new_def sp_update_def sp_map_def)
    obtain s3 where s3: "contextvar_set E t v x ?s2 = Some (Inr (), s3)"
        "abs_state s3 = (sp_update c v (Some x) (abs_state s1))\<lparr> sp_toks := tokens ?s2 \<rparr>" "ctx_inv E n s3"
      using set unfolding upd by (auto simp: sim_def)
    have "PyContextVar_Set E t ovar x s = Some (Inr (Token (length (tokens s1))), s3)"
      using s3(1) True PyHamt_Find_rel [OF inv_lawful [OF g(2)] h(2), of v]
      by (auto simp: ContextVar PyContextVar_Set_def s1 item_at_def g(5) h(1) token_new_def split: option.splits)
    then show ?thesis
      using True s3(2,3) by (simp add: sp_set_def ContextVar item_at_def g(1)) (simp add: token_new_def)
  qed (simp add: ContextVar PyContextVar_Set_def sp_set_def item_at_def s1 g(5))
qed (use inv in \<open>simp_all add: PyContextVar_Set_def sp_set_def\<close>)

lemma sim_Reset:
  assumes inv: "ctx_inv E n s"
  shows "sim E n (PyContextVar_Reset E t ovar otok s) (sp_reset t ovar otok (abs_state s))"
proof (cases "\<exists>v k. ovar = ContextVar v \<and> otok = Token k")
  case True
  then obtain v k where a: "ovar = ContextVar v" "otok = Token k" by blast
  obtain c s1 where s1: "context_get t s = (c, s1)" by fastforce
  note g = context_get_step [OF inv s1]
  show ?thesis
  proof (cases "v < length (ctxvars s) \<and> k < length (tokens s) \<and> \<not> tok_used (tokens s ! k)
      \<and> tok_var (tokens s ! k) = Some v \<and> tok_ctx (tokens s ! k) = Some c")
    case True
    let ?tok = "tokens s ! k"
    let ?s2 = "s1\<lparr> tokens := (tokens s1)[k := ?tok\<lparr> tok_used := True \<rparr>] \<rparr>"
    have inv2: "ctx_inv E n ?s2" and v2: "v < length (ctxvars ?s2)" using g(2,5) True by simp_all
    have abs2: "sp_current t (abs_state ?s2) = (c, abs_state ?s2)" using g(3) by (simp add: sp_current_def)
    have m: "sp_map c (abs_state ?s2) = sp_map c (abs_state s1)" by (simp add: sp_map_def)
    show ?thesis
      using True sim_contextvar_set [OF inv2 v2 abs2] sim_contextvar_del [OF inv2 v2 abs2] unfolding m
      by (cases "sp_map c (abs_state s1) v")
        (simp_all add: a PyContextVar_Reset_def sp_reset_def item_at_def s1 g(1,6) Let_def split: option.split)
  next
    case False
    then show ?thesis
      using inv g(2) by (auto simp: a PyContextVar_Reset_def sp_reset_def item_at_def s1 g(1))
  qed
next
  case False
  then have "PyContextVar_Reset E t ovar otok s = Some (Inl TypeError, s)"
    "sp_reset t ovar otok (abs_state s) = Some (Inl TypeError, abs_state s)"
    by (auto simp: PyContextVar_Reset_def sp_reset_def split: pyobj.splits)
  with inv show ?thesis by simp
qed

lemma sim_reads:
  assumes inv: "ctx_inv E n s"
  shows "sim E n (answered Obj (context_tp_subscript E self key s)) (sp_read self key (Inl KeyError) Obj (abs_state s))"
    and "sim E n (answered Flag (context_tp_contains E self key s)) (sp_read self key (Inr (Flag False)) (\<lambda>_. Flag True) (abs_state s))"
    and "sim E n (answered Obj (Context_get_impl E self key def s)) (sp_read self key (Inr (Obj def)) Obj (abs_state s))"
    and "sim E n (answered Num (context_tp_len self s))
      (Option.bind (item_at (sp_ctxs (abs_state s)) self) (\<lambda>x. Some (Inr (Num (int (card (dom (sc_map x))))), abs_state s)))"
proof -
  have find: "\<exists>h. context_get_vars s self = Some h \<and> (\<forall>v. PyHamt_Find (var_keys E s) h v =
      Some (case sp_map self (abs_state s) v of None \<Rightarrow> (0, None) | Some x \<Rightarrow> (1, Some x)))
      \<and> PyHamt_Len h = int (card (dom (sp_map self (abs_state s))))" if self: "self < length (contexts s)"
  proof -
    obtain h where h: "context_get_vars s self = Some h" "hamt_rel (var_keys E s) id h (sp_map self (abs_state s))"
      using inv_vars [OF inv self] by metis
    with PyHamt_Find_rel [OF inv_lawful [OF inv] h(2)] hamt.rel_len [OF h(2)] show ?thesis by simp
  qed
  note defs = context_tp_subscript_def context_tp_contains_def Context_get_impl_def context_tp_len_def sp_read_def
    context_check_key_type_def item_at_def answered_def get_vars_None
  show "sim E n (answered Obj (context_tp_subscript E self key s)) (sp_read self key (Inl KeyError) Obj (abs_state s))"
    using inv find by (cases "self < length (contexts s)") (fastforce simp: defs sp_map_def split: pyobj.split option.split)+
  show "sim E n (answered Flag (context_tp_contains E self key s)) (sp_read self key (Inr (Flag False)) (\<lambda>_. Flag True) (abs_state s))"
    using inv find by (cases "self < length (contexts s)") (fastforce simp: defs sp_map_def split: pyobj.split option.split)+
  show "sim E n (answered Obj (Context_get_impl E self key def s)) (sp_read self key (Inr (Obj def)) Obj (abs_state s))"
    using inv find by (cases "self < length (contexts s)") (fastforce simp: defs sp_map_def split: pyobj.split option.split)+
  show "sim E n (answered Num (context_tp_len self s))
      (Option.bind (item_at (sp_ctxs (abs_state s)) self) (\<lambda>x. Some (Inr (Num (int (card (dom (sc_map x))))), abs_state s)))"
    using inv find by (cases "self < length (contexts s)") (fastforce simp: defs sp_map_def)+
qed

end
