(* ===== verification/Contexts_Props.thy ===== *)
theory Contexts_Props
  imports Contexts_Vars
begin

text \<open>
  Context variables as a whole: any sequence of calls answers as the specification says, and what a token promises.
\<close>

subsection \<open>Sequences of calls\<close>

lemma exec_sim:
  shows "ctx_inv E n s \<Longrightarrow> quiet_watchers E \<Longrightarrow> n + switches call < 2 ^ 64
      \<Longrightarrow> sim E (n + switches call) (exec E t call s) (spec_exec (bad_name E) t call (abs_state s))"
    and "ctx_inv E n s \<Longrightarrow> quiet_watchers E \<Longrightarrow> n + switches_list cs < 2 ^ 64
      \<Longrightarrow> sim E (n + switches_list cs) (exec_list E cs s) (spec_exec_list (bad_name E) cs (abs_state s))"
proof (induction E t call s and E cs s arbitrary: n and n rule: exec_exec_list.induct)
  case (6 E t self cs s)
  have "sim E (n + switches_list cs + 2)
      (context_run E t self 1 (\<lambda>s. map_option (\<lambda>(rs, s'). (Inr (Results rs), s')) (exec_list E cs s)) s)
      (sp_run t self (\<lambda>\<sigma>. map_option (\<lambda>(rs, \<sigma>'). (Inr (Results rs), \<sigma>')) (spec_exec_list (bad_name E) cs \<sigma>)) (abs_state s))"
    using 6(2-4) by (intro sim_run sim_result 6(1)) simp_all
  then show ?case by simp
next
  case (16 E t c cs s)
  have "sim E (n + switches c + switches_list cs)
      (Option.bind (exec E t c s) (\<lambda>(r, s1). Option.bind (exec_list E cs s1) (\<lambda>(rs, s2). Some (r # rs, s2))))
      (Option.bind (spec_exec (bad_name E) t c (abs_state s))
        (\<lambda>(r, s1). Option.bind (spec_exec_list (bad_name E) cs s1) (\<lambda>(rs, s2). Some (r # rs, s2))))"
    using 16(3-5) by (intro sim_bind [OF 16(1)]) (auto intro!: sim_bind [OF 16(2)])
  then show ?case by (simp add: add.assoc)
qed (simp_all add: sim_answered sim_New sim_Copy sim_CopyCurrent sim_Enter [simplified] sim_Exit [simplified] sim_contextvar_new sim_Get
    sim_Set sim_Reset sim_reads [simplified])

definition spec_start :: spec where
  "spec_start = \<lparr> sp_ctxs = [], sp_defaults = [], sp_toks = [], sp_cur = (\<lambda>t. None) \<rparr>"

lemma abs_start: "abs_state interp_start = spec_start"
  by (simp add: abs_state_def interp_start_def spec_start_def)

lemma inv_start: "ctx_inv E 1 interp_start"
  by (simp add: ctx_inv_def interp_start_def)

lemma exec_start:
  assumes "quiet_watchers E" and "switches_list calls < 2 ^ 64 - 1"
  shows "sim E (1 + switches_list calls) (exec_list E calls interp_start) (spec_exec_list (bad_name E) calls spec_start)"
  using exec_sim(2) [OF inv_start assms(1), of calls] assms(2) by (simp add: abs_start)

subsection \<open>Tokens\<close>

text \<open>An unused token that says the variable had no value. There is at most one, and then the variable has a value.\<close>

definition pending :: "spec \<Rightarrow> nat \<Rightarrow> nat \<Rightarrow> nat \<Rightarrow> bool" where
  "pending \<sigma> c v k \<longleftrightarrow> k < length (sp_toks \<sigma>) \<and> \<not> tok_used (sp_toks \<sigma> ! k) \<and> tok_ctx (sp_toks \<sigma> ! k) = Some c
     \<and> tok_var (sp_toks \<sigma> ! k) = Some v \<and> tok_oldval (sp_toks \<sigma> ! k) = None"

definition sp_wf :: "spec \<Rightarrow> bool" where
  "sp_wf \<sigma> \<longleftrightarrow> (\<forall>t c. sp_cur \<sigma> t = Some c \<longrightarrow> c < length (sp_ctxs \<sigma>))
     \<and> (\<forall>ctx \<in> set (sp_ctxs \<sigma>). \<forall>p. sc_prev ctx = Some p \<longrightarrow> p < length (sp_ctxs \<sigma>))
     \<and> (\<forall>tok \<in> set (sp_toks \<sigma>). \<forall>c. tok_ctx tok = Some c \<longrightarrow> c < length (sp_ctxs \<sigma>))
     \<and> (\<forall>c v k. pending \<sigma> c v k \<longrightarrow> sp_map c \<sigma> v \<noteq> None \<and> (\<forall>k'. pending \<sigma> c v k' \<longrightarrow> k' = k))"

text \<open>Tokens change in no way but that they become used, and defaults do not change.\<close>

definition tok_le :: "contexttoken \<Rightarrow> contexttoken \<Rightarrow> bool" where
  "tok_le a b \<longleftrightarrow> tok_ctx b = tok_ctx a \<and> tok_var b = tok_var a \<and> tok_oldval b = tok_oldval a \<and> (tok_used a \<longrightarrow> tok_used b)"

definition sp_le :: "spec \<Rightarrow> spec \<Rightarrow> bool" where
  "sp_le \<sigma> \<sigma>' \<longleftrightarrow> length (sp_toks \<sigma>) \<le> length (sp_toks \<sigma>') \<and> length (sp_defaults \<sigma>) \<le> length (sp_defaults \<sigma>')
     \<and> (\<forall>k < length (sp_toks \<sigma>). tok_le (sp_toks \<sigma> ! k) (sp_toks \<sigma>' ! k))
     \<and> (\<forall>v < length (sp_defaults \<sigma>). sp_defaults \<sigma>' ! v = sp_defaults \<sigma> ! v)"

definition steps :: "spec \<Rightarrow> ('a \<times> spec) option \<Rightarrow> bool" where
  "steps \<sigma> r \<longleftrightarrow> (\<forall>x \<sigma>'. r = Some (x, \<sigma>') \<longrightarrow> sp_wf \<sigma>' \<and> sp_le \<sigma> \<sigma>')"

lemma steps_simps [simp]: "steps \<sigma> None" "steps \<sigma> (Some (x, \<sigma>')) \<longleftrightarrow> sp_wf \<sigma>' \<and> sp_le \<sigma> \<sigma>'"
  by (auto simp: steps_def)

lemma sp_le_same: "sp_toks \<sigma>' = sp_toks \<sigma> \<Longrightarrow> sp_defaults \<sigma>' = sp_defaults \<sigma> \<Longrightarrow> sp_le \<sigma> \<sigma>'"
  by (simp add: sp_le_def tok_le_def)

lemma sp_le_refl [simp]: "sp_le \<sigma> \<sigma>"
  by (simp add: sp_le_same)

lemma sp_le_trans: "sp_le \<sigma> \<sigma>' \<Longrightarrow> sp_le \<sigma>' \<sigma>'' \<Longrightarrow> sp_le \<sigma> \<sigma>''"
  unfolding sp_le_def tok_le_def by (auto intro: le_trans)

lemma steps_bind:
  assumes "steps \<sigma> r" and "\<And>x \<sigma>'. r = Some (x, \<sigma>') \<Longrightarrow> sp_wf \<sigma>' \<Longrightarrow> steps \<sigma>' (f (x, \<sigma>'))"
  shows "steps \<sigma> (Option.bind r f)"
proof (cases r)
  case (Some y)
  obtain x \<sigma>' where y: "y = (x, \<sigma>')" by (cases y)
  with assms(1) Some have "sp_wf \<sigma>'" "sp_le \<sigma> \<sigma>'" by simp_all
  with assms(2) [of x \<sigma>'] show ?thesis
    using Some y by (auto simp: steps_def intro: sp_le_trans)
qed simp

lemma steps_answered: "steps \<sigma> (answered f r) = steps \<sigma> r"
  by (auto simp: steps_def answered_def)

lemma steps_resultI: "steps \<sigma> r \<Longrightarrow> steps \<sigma> (map_option (\<lambda>(x, s). (f x, s)) r)"
  by (auto simp: steps_def)

lemma wf_add: "sp_wf \<sigma> \<Longrightarrow> sp_wf (sp_add m \<sigma>)" and le_add: "sp_le \<sigma> (sp_add m \<sigma>)"
proof -
  assume w: "sp_wf \<sigma>"
  have "c < length (sp_ctxs \<sigma>)" if "pending \<sigma> c v k" for c v k
    using w that by (auto simp: sp_wf_def pending_def)
  moreover have "pending (sp_add m \<sigma>) = pending \<sigma>"
    by (simp add: fun_eq_iff pending_def sp_add_def)
  ultimately show "sp_wf (sp_add m \<sigma>)"
    using w unfolding sp_wf_def by (auto simp: sp_add_def sp_map_def nth_append less_Suc_eq)
qed (simp add: sp_le_same sp_add_def)

lemma wf_current_all:
  assumes w: "sp_wf \<sigma>" and c: "sp_current t \<sigma> = (c, \<sigma>')"
  shows "sp_wf \<sigma>' \<and> sp_le \<sigma> \<sigma>' \<and> sp_cur \<sigma>' t = Some c \<and> c < length (sp_ctxs \<sigma>') \<and> sp_toks \<sigma>' = sp_toks \<sigma>
    \<and> sp_defaults \<sigma>' = sp_defaults \<sigma> \<and> (\<forall>v. sp_map c \<sigma>' v = sp_value t v \<sigma>)"
proof (cases "sp_cur \<sigma> t")
  case None
  let ?n = "length (sp_ctxs \<sigma>)"
  have s: "c = ?n" "\<sigma>' = (sp_add Map.empty \<sigma>)\<lparr> sp_cur := (sp_cur \<sigma>)(t \<mapsto> ?n) \<rparr>"
    using c None by (auto simp: sp_current_def)
  have "sp_wf \<sigma>'"
    using wf_add [OF w, of Map.empty] unfolding s sp_wf_def pending_def sp_map_def by (auto simp: sp_add_def)
  with None show ?thesis
    by (simp add: s sp_le_same sp_value_def) (simp add: sp_add_def sp_map_def sp_le_same)
qed (use w c in \<open>auto simp: sp_current_def sp_value_def sp_wf_def\<close>)

lemma wf_current:
  assumes "sp_wf \<sigma>" and "sp_current t \<sigma> = (c, \<sigma>')"
  shows "sp_wf \<sigma>'" and "sp_le \<sigma> \<sigma>'" and "sp_cur \<sigma>' t = Some c" and "c < length (sp_ctxs \<sigma>')"
    and "sp_toks \<sigma>' = sp_toks \<sigma>" and "sp_defaults \<sigma>' = sp_defaults \<sigma>" and "sp_map c \<sigma>' v = sp_value t v \<sigma>"
  using wf_current_all [OF assms] by simp_all

lemma wf_nth:
  assumes "sp_wf \<sigma>"
  shows "c < length (sp_ctxs \<sigma>) \<Longrightarrow> sc_prev (sp_ctxs \<sigma> ! c) = Some p \<Longrightarrow> p < length (sp_ctxs \<sigma>)"
    and "k < length (sp_toks \<sigma>) \<Longrightarrow> tok_ctx (sp_toks \<sigma> ! k) = Some d \<Longrightarrow> d < length (sp_ctxs \<sigma>)"
  using assms unfolding sp_wf_def by (meson nth_mem)+

lemma update_simps [simp]: "length (sp_ctxs (sp_update c v x \<sigma>)) = length (sp_ctxs \<sigma>)" "sp_cur (sp_update c v x \<sigma>) = sp_cur \<sigma>"
  "sp_toks (sp_update c v x \<sigma>) = sp_toks \<sigma>" "sp_defaults (sp_update c v x \<sigma>) = sp_defaults \<sigma>"
  by (simp_all add: sp_update_def)

lemma pending_update [simp]: "pending (sp_update c v x \<sigma>) = pending \<sigma>"
  by (simp add: fun_eq_iff pending_def sp_update_def)

lemma map_update_at: "c < length (sp_ctxs \<sigma>) \<Longrightarrow> sp_map d (sp_update c v x \<sigma>) = (if d = c then (sp_map c \<sigma>)(v := x) else sp_map d \<sigma>)"
  by (simp add: sp_map_def sp_update_def)

lemma pending_value: "sp_wf \<sigma> \<Longrightarrow> pending \<sigma> c v k \<Longrightarrow> sp_map c \<sigma> v \<noteq> None"
  unfolding sp_wf_def by blast

lemma pending_unique: "sp_wf \<sigma> \<Longrightarrow> pending \<sigma> c v k \<Longrightarrow> pending \<sigma> c v k' \<Longrightarrow> k' = k"
  unfolding sp_wf_def by blast

text \<open>A value may be set always, and removed when no token is pending for it.\<close>

lemma wf_update:
  assumes w: "sp_wf \<sigma>" and c: "c < length (sp_ctxs \<sigma>)" and x: "\<And>k. x = None \<Longrightarrow> \<not> pending \<sigma> c v k"
  shows "sp_wf (sp_update c v x \<sigma>)"
proof -
  have "sp_map d (sp_update c v x \<sigma>) u \<noteq> None" if "pending \<sigma> d u k" for d u k
    using w x [of k] that by (cases x) (auto simp: map_update_at [OF c] sp_wf_def)
  moreover have "\<forall>ctx \<in> set (sp_ctxs (sp_update c v x \<sigma>)). \<forall>p. sc_prev ctx = Some p \<longrightarrow> p < length (sp_ctxs \<sigma>)"
    using w wf_nth(1) [OF w c] by (auto simp: sp_update_def sp_wf_def elim!: in_set_updateE)
  ultimately show ?thesis
    using w unfolding sp_wf_def by simp
qed

lemma wf_use_token:
  fixes \<sigma> :: spec
  defines "use k \<equiv> \<sigma>\<lparr> sp_toks := (sp_toks \<sigma>)[k := (sp_toks \<sigma> ! k)\<lparr> tok_used := True \<rparr>] \<rparr>"
  assumes w: "sp_wf \<sigma>" and k: "k < length (sp_toks \<sigma>)"
  shows "sp_wf (use k)" and "pending (use k) c v k' \<longleftrightarrow> pending \<sigma> c v k' \<and> k' \<noteq> k" and "sp_le \<sigma> (use k)"
proof -
  have p: "pending (use k) c v k' \<longleftrightarrow> pending \<sigma> c v k' \<and> k' \<noteq> k" for c v k'
    using k by (cases "k' = k") (simp_all add: pending_def use_def)
  then show "pending (use k) c v k' \<longleftrightarrow> pending \<sigma> c v k' \<and> k' \<noteq> k" .
  have "sp_map c (use k) = sp_map c \<sigma>" for c by (simp add: sp_map_def use_def)
  moreover have "\<forall>tok \<in> set (sp_toks (use k)). \<forall>c. tok_ctx tok = Some c \<longrightarrow> c < length (sp_ctxs \<sigma>)"
    using w wf_nth(2) [OF w k] by (auto simp: use_def sp_wf_def elim!: in_set_updateE)
  ultimately show "sp_wf (use k)"
    using w p unfolding sp_wf_def by (simp add: use_def) metis
  show "sp_le \<sigma> (use k)"
    using k by (auto simp: sp_le_def tok_le_def use_def nth_list_update)
qed

lemma wf_new_token:
  assumes w: "sp_wf \<sigma>" and c: "c < length (sp_ctxs \<sigma>)" and old: "\<And>k. old = None \<Longrightarrow> \<not> pending \<sigma> c v k"
    and v: "sp_map c \<sigma> v \<noteq> None"
  shows "sp_wf (\<sigma>\<lparr> sp_toks := sp_toks \<sigma> @ [\<lparr> tok_ctx = Some c, tok_var = Some v, tok_oldval = old, tok_used = False \<rparr>] \<rparr>)" (is "sp_wf ?s")
proof -
  have p: "pending ?s d u k \<longleftrightarrow> pending \<sigma> d u k \<or> k = length (sp_toks \<sigma>) \<and> d = c \<and> u = v \<and> old = None" for d u k
    by (auto simp: pending_def nth_append less_Suc_eq)
  have "sp_map d ?s = sp_map d \<sigma>" for d by (simp add: sp_map_def)
  moreover have "\<forall>tok \<in> set (sp_toks ?s). \<forall>c. tok_ctx tok = Some c \<longrightarrow> c < length (sp_ctxs \<sigma>)"
    using w c by (auto simp: sp_wf_def)
  ultimately show ?thesis
    using w old v unfolding sp_wf_def p by auto
qed

lemma wf_switch:
  assumes w: "sp_wf \<sigma>" and c: "c < length (sp_ctxs \<sigma>)"
    and p: "\<And>d. p = Some d \<Longrightarrow> d < length (sp_ctxs \<sigma>)" and q: "\<And>d. q = Some d \<Longrightarrow> d < length (sp_ctxs \<sigma>)"
  shows "sp_wf (\<sigma>\<lparr> sp_ctxs := (sp_ctxs \<sigma>)[c := (sp_ctxs \<sigma> ! c)\<lparr> sc_prev := p, sc_entered := e \<rparr>], sp_cur := (sp_cur \<sigma>)(t := q) \<rparr>)"
    (is "sp_wf ?s")
proof -
  have "pending ?s = pending \<sigma>" by (simp add: fun_eq_iff pending_def)
  moreover have "sp_map d ?s = sp_map d \<sigma>" for d
    by (cases "d = c") (simp_all add: sp_map_def nth_list_update c)
  moreover have "\<forall>ctx \<in> set (sp_ctxs ?s). \<forall>r. sc_prev ctx = Some r \<longrightarrow> r < length (sp_ctxs \<sigma>)"
    using w p c by (auto simp: sp_wf_def elim!: in_set_updateE)
  ultimately show ?thesis
    using w q unfolding sp_wf_def by simp
qed

subsection \<open>The specification keeps its own invariant\<close>

lemma steps_new: "sp_wf \<sigma> \<Longrightarrow> steps \<sigma> (sp_new \<sigma>)"
  by (simp add: sp_new_def wf_add le_add)

lemma steps_copy: "sp_wf \<sigma> \<Longrightarrow> steps \<sigma> (sp_copy octx \<sigma>)"
  by (cases octx) (auto simp: sp_copy_def wf_add le_add item_at_def)

lemma steps_copy_current: "sp_wf \<sigma> \<Longrightarrow> steps \<sigma> (sp_copy_current t \<sigma>)"
  using wf_current(1,2) [of \<sigma> t] by (auto simp: sp_copy_current_def wf_add split: prod.split intro: sp_le_trans le_add)

lemma steps_enter: "sp_wf \<sigma> \<Longrightarrow> steps \<sigma> (sp_enter t octx \<sigma>)"
  by (cases octx) (auto simp: sp_enter_def item_at_def sp_le_same intro!: wf_switch, auto simp: sp_wf_def)

lemma steps_exit: "sp_wf \<sigma> \<Longrightarrow> steps \<sigma> (sp_exit t octx \<sigma>)"
  by (cases octx) (auto simp: sp_exit_def item_at_def sp_le_same intro!: wf_switch, auto simp: sp_wf_def)

lemma steps_new_var: "sp_wf \<sigma> \<Longrightarrow> steps \<sigma> (sp_new_var bad name def \<sigma>)"
proof (cases name)
  case (Str n)
  assume "sp_wf \<sigma>"
  then have "sp_wf (\<sigma>\<lparr> sp_defaults := sp_defaults \<sigma> @ [def] \<rparr>)"
    unfolding sp_wf_def pending_def sp_map_def by simp
  with \<open>sp_wf \<sigma>\<close> Str show ?thesis
    by (simp add: sp_new_var_def) (simp add: sp_le_def tok_le_def nth_append)
qed (simp_all add: sp_new_var_def)

lemma steps_get: "sp_wf \<sigma> \<Longrightarrow> steps \<sigma> (sp_get t ovar def \<sigma>)"
  by (cases ovar) (auto simp: sp_get_def item_at_def)

lemma steps_read: "sp_wf \<sigma> \<Longrightarrow> steps \<sigma> (sp_read self key missing present \<sigma>)"
  by (cases key) (auto simp: sp_read_def item_at_def)

lemma steps_set:
  assumes w: "sp_wf \<sigma>"
  shows "steps \<sigma> (sp_set t ovar x \<sigma>)"
proof (cases ovar)
  case (ContextVar v)
  obtain c \<sigma>1 where c: "sp_current t \<sigma> = (c, \<sigma>1)" by fastforce
  note g = wf_current [OF w c]
  let ?\<sigma>2 = "sp_update c v (Some x) \<sigma>1"
  have 2: "sp_wf ?\<sigma>2" "c < length (sp_ctxs ?\<sigma>2)" "sp_map c ?\<sigma>2 v = Some x"
    using wf_update [OF g(1,4), of "Some x" v] g(4) by (simp_all add: map_update_at)
  have "\<not> pending ?\<sigma>2 c v k" if "sp_map c \<sigma>1 v = None" for k
    using pending_value [OF g(1), of c v k] that by auto
  with 2 have "sp_wf (?\<sigma>2\<lparr> sp_toks := sp_toks ?\<sigma>2 @
      [\<lparr> tok_ctx = Some c, tok_var = Some v, tok_oldval = sp_map c \<sigma>1 v, tok_used = False \<rparr>] \<rparr>)"
    by (intro wf_new_token) auto
  then show ?thesis
    by (auto simp: ContextVar sp_set_def c item_at_def sp_update_def sp_le_def tok_le_def g(5,6) nth_append)
qed (use w in \<open>simp_all add: sp_set_def\<close>)

lemma steps_reset:
  assumes w: "sp_wf \<sigma>"
  shows "steps \<sigma> (sp_reset t ovar otok \<sigma>)"
proof (cases "\<exists>v k. ovar = ContextVar v \<and> otok = Token k")
  case True
  then obtain v k where a: "ovar = ContextVar v" "otok = Token k" by blast
  obtain c \<sigma>1 where c: "sp_current t \<sigma> = (c, \<sigma>1)" by fastforce
  note g = wf_current [OF w c]
  show ?thesis
  proof (cases "k < length (sp_toks \<sigma>) \<and> tok_var (sp_toks \<sigma> ! k) = Some v \<and> tok_ctx (sp_toks \<sigma> ! k) = Some c
      \<and> \<not> tok_used (sp_toks \<sigma> ! k)")
    case True
    let ?\<sigma>2 = "\<sigma>1\<lparr> sp_toks := (sp_toks \<sigma>1)[k := (sp_toks \<sigma>1 ! k)\<lparr> tok_used := True \<rparr>] \<rparr>"
    have k: "k < length (sp_toks \<sigma>1)" using True g(5) by simp
    note u = wf_use_token [OF g(1) k]
    have "\<not> pending ?\<sigma>2 c v k'" if "tok_oldval (sp_toks \<sigma> ! k) = None" for k'
    proof -
      have "pending \<sigma>1 c v k" using True that g(5) by (simp add: pending_def)
      then show ?thesis using pending_unique [OF g(1)] u(2) by blast
    qed
    then have "sp_wf (sp_update c v (tok_oldval (sp_toks \<sigma> ! k)) ?\<sigma>2)"
      using u(1) g(4) by (intro wf_update) auto
    moreover have "sp_le \<sigma> ?\<sigma>2" by (rule sp_le_trans [OF g(2) u(3)])
    then have "sp_le \<sigma> (sp_update c v x ?\<sigma>2)" for x by (simp add: sp_le_def sp_update_def)
    ultimately show ?thesis
      using True u(1) \<open>sp_le \<sigma> ?\<sigma>2\<close> by (auto simp: a sp_reset_def item_at_def c g(5) Let_def)
  next
    case False
    then show ?thesis
      using w g(1,2) by (auto simp: a sp_reset_def item_at_def c)
  qed
next
  case False
  then have "sp_reset t ovar otok \<sigma> = Some (Inl TypeError, \<sigma>)"
    by (auto simp: sp_reset_def split: pyobj.splits)
  with w show ?thesis by simp
qed

lemma spec_exec_steps:
  "sp_wf \<sigma> \<Longrightarrow> steps \<sigma> (spec_exec bad t call \<sigma>)"
  "sp_wf \<sigma> \<Longrightarrow> steps \<sigma> (spec_exec_list bad cs \<sigma>)"
proof (induction bad t call \<sigma> and bad cs \<sigma> rule: spec_exec_spec_exec_list.induct)
  case (6 bad t self cs \<sigma>)
  then show ?case
    by (auto simp: sp_run_def split: sum.split intro!: steps_bind [OF steps_enter] steps_bind [OF steps_resultI] 6(1) steps_bind [OF steps_exit])
next
  case (16 bad t c cs \<sigma>)
  then show ?case by (auto intro!: steps_bind [OF 16(1)] steps_bind [OF 16(2)] simp del: not_None_eq)
qed (auto simp: steps_answered steps_new steps_copy steps_copy_current steps_enter steps_exit steps_new_var steps_get steps_set
    steps_reset steps_read item_at_def)

subsection \<open>Properties\<close>

text \<open>
  C14. Context variables are what the specification says: for any sequence of calls of any threads, the code with its
  tries, caches and versions gives the same results and exceptions as the machine whose contexts are plain maps, goes
  wrong only where that machine does (a call on an object that does not exist), and ends in a state that stands for
  its state. The bound is that of the version counter, which must not wrap.
\<close>

theorem contexts_refine:
  assumes "quiet_watchers E" and "switches_list calls < 2 ^ 64 - 1"
  shows "map_option (map_prod id abs_state) (exec_list E calls interp_start) = spec_exec_list (bad_name E) calls spec_start"
  using exec_start [OF assms] by (simp add: sim_def)

lemma spec_start_wf: "sp_wf spec_start"
  by (simp add: sp_wf_def spec_start_def pending_def)

lemma run_state:
  assumes "quiet_watchers E" and "switches_list calls < 2 ^ 64 - 1" and "exec_list E calls interp_start = Some (rs, s)"
  shows "ctx_inv E (1 + switches_list calls) s" and "sp_wf (abs_state s)"
proof -
  have r: "spec_exec_list (bad_name E) calls spec_start = Some (rs, abs_state s)"
    using exec_start [OF assms(1,2)] assms(3) by simp
  show "ctx_inv E (1 + switches_list calls) s"
    using exec_start [OF assms(1,2)] assms(3) by simp
  show "sp_wf (abs_state s)"
    using spec_exec_steps(2) [OF spec_start_wf, of "bad_name E" calls] r by simp
qed

text \<open>What a token does to the specification: reset undoes set.\<close>

lemma spec_reset:
  assumes w: "sp_wf \<sigma>" "sp_wf \<sigma>2" and set: "sp_set t (ContextVar v) x \<sigma> = Some (Inr (Token k), \<sigma>1)" and le: "sp_le \<sigma>1 \<sigma>2"
    and cur: "sp_cur \<sigma>2 u = sp_cur \<sigma>1 t" and unused: "\<not> tok_used (sp_toks \<sigma>2 ! k)"
  obtains \<sigma>3 where "sp_reset u (ContextVar v) (Token k) \<sigma>2 = Some (Inr (), \<sigma>3)"
    and "map_option fst (sp_get u (ContextVar v) def \<sigma>3) = map_option fst (sp_get t (ContextVar v) def \<sigma>)"
    and "sp_reset u' (ContextVar v) (Token k) \<sigma>3 = Some (Inl RuntimeError, \<sigma>3)"
proof -
  obtain c \<sigma>0 where c: "sp_current t \<sigma> = (c, \<sigma>0)" by fastforce
  note g = wf_current [OF w(1) c]
  have v: "v < length (sp_defaults \<sigma>)" and k: "k = length (sp_toks \<sigma>)"
    and 1: "\<sigma>1 = (sp_update c v (Some x) \<sigma>0)\<lparr> sp_toks := sp_toks \<sigma> @
      [\<lparr> tok_ctx = Some c, tok_var = Some v, tok_oldval = sp_map c \<sigma>0 v, tok_used = False \<rparr>] \<rparr>"
    using set by (auto simp: sp_set_def c g(5) item_at_def split: if_splits)
  have k2: "k < length (sp_toks \<sigma>2)" and v2: "v < length (sp_defaults \<sigma>2)" "sp_defaults \<sigma>2 ! v = sp_defaults \<sigma> ! v"
    using le v by (auto simp: sp_le_def 1 g(6) k)
  have "k < length (sp_toks \<sigma>1)" by (simp add: 1 k)
  then have "tok_le (sp_toks \<sigma>1 ! k) (sp_toks \<sigma>2 ! k)" using le by (simp add: sp_le_def)
  then have tok: "tok_ctx (sp_toks \<sigma>2 ! k) = Some c" "tok_var (sp_toks \<sigma>2 ! k) = Some v" "tok_oldval (sp_toks \<sigma>2 ! k) = sp_value t v \<sigma>"
    by (simp_all add: tok_le_def 1 k g(7))
  have cur2: "sp_cur \<sigma>2 u = Some c" using cur g(3) by (simp add: 1)
  then have c2: "c < length (sp_ctxs \<sigma>2)" using w(2) by (simp add: sp_wf_def)
  have "sp_map c \<sigma>2 v \<noteq> None" if "sp_value t v \<sigma> = None"
    using pending_value [OF w(2), of c v k] k2 unused tok that by (simp add: pending_def)
  then have r: "sp_reset u (ContextVar v) (Token k) \<sigma>2 = Some (Inr (), sp_update c v (sp_value t v \<sigma>)
      (\<sigma>2\<lparr> sp_toks := (sp_toks \<sigma>2)[k := (sp_toks \<sigma>2 ! k)\<lparr> tok_used := True \<rparr>] \<rparr>))" (is "_ = Some (Inr (), ?\<sigma>3)")
    using v2(1) k2 unused tok cur2 by (auto simp: sp_reset_def item_at_def sp_current_def Let_def)
  have "sp_value u v ?\<sigma>3 = sp_value t v \<sigma>"
    using cur2 c2 by (simp add: sp_value_def [of u] map_update_at)
  then have "map_option fst (sp_get u (ContextVar v) def ?\<sigma>3) = map_option fst (sp_get t (ContextVar v) def \<sigma>)"
    using v v2 by (simp add: sp_get_def item_at_def)
  moreover have "sp_reset u' (ContextVar v) (Token k) ?\<sigma>3 = Some (Inl RuntimeError, ?\<sigma>3)"
    using v2(1) k2 by (simp add: sp_reset_def item_at_def)
  ultimately show thesis using that r by blast
qed

lemma sim_fst: "sim E n r r' \<Longrightarrow> map_option fst r = map_option fst r'"
  by (cases r) (auto simp: sim_def)

lemma token_restores_core:
  assumes q: "quiet_watchers E" and n: "switches_list calls + switches_list calls' < 2 ^ 64 - 1"
    and s: "exec_list E calls interp_start = Some (rs, s)"
    and set: "PyContextVar_Set E t (ContextVar v) x s = Some (Inr (Token k), s1)"
    and s2: "exec_list E calls' s1 = Some (rs', s2)"
    and cur: "ts_context (threads s2 u) = ts_context (threads s1 t)" and unused: "\<not> tok_used (tokens s2 ! k)"
  shows "\<exists>s3. PyContextVar_Reset E u (ContextVar v) (Token k) s2 = Some (Inr (), s3)
    \<and> map_option fst (PyContextVar_Get E u (ContextVar v) def s3) = map_option fst (PyContextVar_Get E t (ContextVar v) def s)
    \<and> PyContextVar_Reset E u' (ContextVar v) (Token k) s3 = Some (Inl RuntimeError, s3)"
proof -
  note r = run_state [OF q _ s]
  have inv: "ctx_inv E (1 + switches_list calls) s" and w: "sp_wf (abs_state s)" using r n by simp_all
  have a1: "sp_set t (ContextVar v) x (abs_state s) = Some (Inr (Token k), abs_state s1)" and inv1: "ctx_inv E (1 + switches_list calls) s1"
    using sim_Set [OF inv, of t "ContextVar v" x] set by simp_all
  have w1: "sp_wf (abs_state s1)"
    using steps_set [OF w, of t "ContextVar v" x] a1 by simp
  have "sim E (1 + switches_list calls + switches_list calls') (Some (rs', s2)) (spec_exec_list (bad_name E) calls' (abs_state s1))"
    using exec_sim(2) [OF inv1 q, of calls'] n s2 by simp
  then have a2: "spec_exec_list (bad_name E) calls' (abs_state s1) = Some (rs', abs_state s2)"
    and inv2: "ctx_inv E (1 + switches_list calls + switches_list calls') s2" by simp_all
  have w2: "sp_wf (abs_state s2)" "sp_le (abs_state s1) (abs_state s2)"
    using spec_exec_steps(2) [OF w1, of "bad_name E" calls'] a2 by simp_all
  obtain \<sigma>3 where 3: "sp_reset u (ContextVar v) (Token k) (abs_state s2) = Some (Inr (), \<sigma>3)"
    "map_option fst (sp_get u (ContextVar v) def \<sigma>3) = map_option fst (sp_get t (ContextVar v) def (abs_state s))"
    "sp_reset u' (ContextVar v) (Token k) \<sigma>3 = Some (Inl RuntimeError, \<sigma>3)"
    by (rule spec_reset [OF w w2(1) a1 w2(2), of u def u']) (use cur unused in auto)
  obtain s3 where s3: "PyContextVar_Reset E u (ContextVar v) (Token k) s2 = Some (Inr (), s3)" "\<sigma>3 = abs_state s3"
      "ctx_inv E (1 + switches_list calls + switches_list calls') s3"
    using sim_Reset [OF inv2, of u "ContextVar v" "Token k"] 3(1) by (auto simp: sim_def)
  have get: "map_option fst (PyContextVar_Get E t' o' d s) = map_option fst (sp_get t' o' d (abs_state s))" if "ctx_inv E n s" for t' o' d n s
    by (rule sim_fst [OF sim_Get [OF that]])
  have "PyContextVar_Reset E u' (ContextVar v) (Token k) s3 = Some (Inl RuntimeError, s3)"
    using 3(3) s3(2) by (auto simp: PyContextVar_Reset_def sp_reset_def item_at_def Let_def split: if_splits prod.splits option.splits)
  with s3 3(2) get [OF s3(3)] get [OF inv] show ?thesis by auto
qed

text \<open>
  C15. A token restores the variable: whatever calls, of any thread, come between a set and the reset with its token, if
  the current context is again the one of the set and the token was not used, the reset succeeds (it never
  raises LookupError), a lookup then gives what it gave before the set, a default or no value included, and the token
  cannot be used again.
\<close>

theorem token_restores:
  assumes "quiet_watchers E" and "switches_list calls + switches_list calls' < 2 ^ 64 - 1"
    and "exec_list E calls interp_start = Some (rs, s)"
    and "PyContextVar_Set E t (ContextVar v) x s = Some (Inr (Token k), s1)"
    and "exec_list E calls' s1 = Some (rs', s2)"
    and "ts_context (threads s2 u) = ts_context (threads s1 t)" and "\<not> tok_used (tokens s2 ! k)"
  shows "\<exists>s3. PyContextVar_Reset E u (ContextVar v) (Token k) s2 = Some (Inr (), s3)
    \<and> map_option fst (PyContextVar_Get E u (ContextVar v) def s3) = map_option fst (PyContextVar_Get E t (ContextVar v) def s)
    \<and> PyContextVar_Reset E u' (ContextVar v) (Token k) s3 = Some (Inl RuntimeError, s3)"
  by (rule token_restores_core [OF assms])

subsection \<open>Comparing and iterating\<close>

text \<open>Contexts are equal when their maps are, and an iterator passes the variables of the map.\<close>

lemma contexts_compare:
  assumes inv: "ctx_inv E n s" and c: "a < length (contexts s)" "b < length (contexts s)"
    and e: "\<And>x y. compare_values E x y = Some (eqv x y)" "\<And>x. eqv x x" and same: "same \<Longrightarrow> ctx_vars (contexts s ! a) = ctx_vars (contexts s ! b)"
  shows "context_tp_richcompare E same (Context a) (Context b) Py_EQ s
      = Some (Inr (Some (maps_eq eqv (sp_map a (abs_state s)) (sp_map b (abs_state s)))), s)"
    and "context_tp_richcompare E same (Context a) (Context b) Py_NE s
      = Some (Inr (Some (\<not> maps_eq eqv (sp_map a (abs_state s)) (sp_map b (abs_state s)))), s)"
proof -
  obtain h h' where h: "context_get_vars s a = Some h" "ctx_vars (contexts s ! a) = Some h" "hamt_rel (var_keys E s) id h (sp_map a (abs_state s))"
      "context_get_vars s b = Some h'" "ctx_vars (contexts s ! b) = Some h'" "hamt_rel (var_keys E s) id h' (sp_map b (abs_state s))"
    using inv_vars [OF inv c(1)] inv_vars [OF inv c(2)] by metis
  have "same \<Longrightarrow> h = h'" using same h(2,5) by simp
  from hamt_rel_eq [where val_eq = "compare_values E" and eqv = eqv, OF inv_lawful [OF inv] h(3,6) e(1) e(2) this] show
    "context_tp_richcompare E same (Context a) (Context b) Py_EQ s
      = Some (Inr (Some (maps_eq eqv (sp_map a (abs_state s)) (sp_map b (abs_state s)))), s)"
    "context_tp_richcompare E same (Context a) (Context b) Py_NE s
      = Some (Inr (Some (\<not> maps_eq eqv (sp_map a (abs_state s)) (sp_map b (abs_state s)))), s)"
    by (simp_all add: context_tp_richcompare_def h(1,4))
qed

lemma contexts_iterate:
  assumes inv: "ctx_inv E n s" and c: "a < length (contexts s)"
  shows "\<exists>it xs. context_tp_iter a s = Some it \<and> exhaust it = Some xs \<and> distinct xs \<and> set xs = dom (sp_map a (abs_state s))"
proof -
  obtain h where h: "context_get_vars s a = Some h" "hamt_rel (var_keys E s) id h (sp_map a (abs_state s))"
    using inv_vars [OF inv c] by metis
  note i = hamt_rel_items [OF inv_lawful [OF inv] h(2)]
  have "exhaust (PyHamt_NewIterKeys h) = Some (map fst (items (h_root h)))"
    by (simp add: PyHamt_NewIterKeys_def hamt_rel_iter(2) [OF inv_lawful [OF inv] h(2)] split_beta [abs_def])
  moreover have "distinct (map fst (items (h_root h)))" using i(1) by simp
  moreover have "dom (sp_map a (abs_state s)) = set (map fst (items (h_root h)))"
    using vars_map_rel [OF inv_lawful [OF inv] h(2)] by (simp add: vars_map_def) (metis dom_map_of_conv_image_fst)
  ultimately show ?thesis by (simp add: context_tp_iter_def h(1))
qed

subsection \<open>A thread that ends\<close>

text \<open>
  \<^verbatim>\<open>PyThreadState_Clear\<close> drops the context of a thread without a new version. A finalizer that runs then and sets some
  variable makes a new context for the thread; in it, a lookup of a variable the thread had cached answers with the
  value of the dropped context, which the cache does not own, although the new context is empty.
\<close>

lemma stale_cache_after_clear:
  assumes "v < length (ctxvars s)" and "var_cached (ctxvars s ! v) = Some x" and "var_cached_tsid (ctxvars s ! v) = t"
    and "var_cached_tsver (ctxvars s ! v) = context_ver (threads s t)" and "context_get t (thread_clear_context t s) = (c, s')"
  shows "context_get_vars s' c = Some PyHamt_New" and "PyContextVar_Get E t (ContextVar v) def s' = Some (Inr (Some x), s')"
proof -
  have s': "c = length (contexts s)" "s' = set_context t (Some c) (snd (context_new_empty (thread_clear_context t s)))"
    using assms(5) by (auto simp: context_get_def thread_clear_context_def set_context_def context_new_empty_def context_new_from_vars_def)
  show "context_get_vars s' c = Some PyHamt_New"
    by (simp add: s' context_get_vars_def item_at_def set_context_def thread_clear_context_def context_new_empty_def context_new_from_vars_def)
  show "PyContextVar_Get E t (ContextVar v) def s' = Some (Inr (Some x), s')"
    using assms(1-4) by (simp add: PyContextVar_Get_def item_at_def s'(2) set_context_def thread_clear_context_def
        context_new_empty_def context_new_from_vars_def)
qed

subsection \<open>An example\<close>

text \<open>Two variables with equal names and hashes that collide, and a watcher that removes itself.\<close>

definition demo_ctx_env :: ctx_env where
  "demo_ctx_env = \<lparr> hash_str = (\<lambda>_. 5), hash_pointer = (\<lambda>_. 9),
     watch_callback = (\<lambda>cb ctx s. (0, s\<lparr> context_watchers := replicate 8 None, active_context_watchers := 0 \<rparr>)),
     py_repr = (\<lambda>_. Some ''?''), show_pointer = (\<lambda>_. ''0x1''), compare_values = (\<lambda>x y. Some (x = y)), stray_bit = (\<lambda>_ _. 0) \<rparr>"

lemma demo_quiet: "quiet_watchers demo_ctx_env"
  by (auto simp: quiet_watchers_def demo_ctx_env_def)

lemma demo_names: "\<not> bad_name demo_ctx_env v n"
  by (simp add: bad_name_def contextvar_generate_hash_def demo_ctx_env_def)

definition demo_calls :: "(u64 \<times> ctx_call) list" where
  "demo_calls = [(1, CNewVar (Str ''x'') None), (1, CNewVar (Str ''x'') (Some (Object 0))), (1, CSet (ContextVar 0) (Object 1)),
     (2, CGet (ContextVar 0) None), (1, CCopyCurrent), (1, CRun 1 [(1, CSet (ContextVar 0) (Object 2)), (2, CEnter (Context 1)),
       (1, CGet (ContextVar 0) None)]), (1, CGet (ContextVar 0) None), (1, CGet (ContextVar 1) None), (1, CReset (ContextVar 0) (Token 1)),
     (1, CReset (ContextVar 0) (Token 0)), (1, CGet (ContextVar 0) None)]"

lemma demo_spec_run:
  "map_option fst (spec_exec_list (bad_name demo_ctx_env) demo_calls spec_start) =
    Some [Inr (Obj (ContextVar 0)), Inr (Obj (ContextVar 1)), Inr (Obj (Token 0)), Inr (Val None), Inr (Obj (Context 1)),
      Inr (Results [Inr (Obj (Token 1)), Inl RuntimeError, Inr (Val (Some (Object 2)))]), Inr (Val (Some (Object 1))),
      Inr (Val (Some (Object 0))), Inl ValueError, Inr Done, Inr (Val None)]"
  by (simp add: demo_calls_def spec_start_def demo_names answered_def sp_new_var_def sp_set_def sp_current_def sp_add_def item_at_def
      sp_update_def sp_map_def sp_get_def sp_value_def or_else_def sp_copy_current_def sp_run_def sp_enter_def sp_exit_def sp_reset_def
      Let_def)

theorem contexts_refine_witness:
  "map_option fst (exec_list demo_ctx_env demo_calls interp_start) =
    Some [Inr (Obj (ContextVar 0)), Inr (Obj (ContextVar 1)), Inr (Obj (Token 0)), Inr (Val None), Inr (Obj (Context 1)),
      Inr (Results [Inr (Obj (Token 1)), Inl RuntimeError, Inr (Val (Some (Object 2)))]), Inr (Val (Some (Object 1))),
      Inr (Val (Some (Object 0))), Inl ValueError, Inr Done, Inr (Val None)]"
proof -
  have "switches_list demo_calls < 2 ^ 64 - 1" by (simp add: demo_calls_def)
  from arg_cong [OF contexts_refine [OF demo_quiet this], of "map_option fst"] show ?thesis
    by (simp add: demo_spec_run option.map_comp comp_def)
qed

definition demo_before :: "(u64 \<times> ctx_call) list" where
  "demo_before = [(1, CNewVar (Str ''x'') None), (1, CSet (ContextVar 0) (Object 1))]"

definition demo_between :: "(u64 \<times> ctx_call) list" where
  "demo_between = [(1, CSet (ContextVar 0) (Object 3)), (2, CSet (ContextVar 0) (Object 4))]"

lemmas spec_simps = spec_start_def demo_names answered_def sp_new_var_def sp_set_def sp_current_def sp_add_def item_at_def
  sp_update_def sp_map_def sp_get_def sp_value_def or_else_def Let_def

lemma sim_SomeE:
  assumes "sim E n r (Some (x, \<sigma>))"
  obtains s where "r = Some (x, s)" and "abs_state s = \<sigma>" and "ctx_inv E n s"
  using assms by (auto simp: sim_def)

abbreviation demo_token :: "pyobj option \<Rightarrow> contexttoken" where
  "demo_token old \<equiv> \<lparr> tok_ctx = Some 0, tok_var = Some 0, tok_oldval = old, tok_used = False \<rparr>"

abbreviation demo_ctx :: "nat \<Rightarrow> spec_ctx" where
  "demo_ctx x \<equiv> \<lparr> sc_prev = None, sc_map = [0 \<mapsto> Object x], sc_entered = False \<rparr>"

lemma demo_token_run:
  obtains rs s s1 rs' s2 where "exec_list demo_ctx_env demo_before interp_start = Some (rs, s)"
    and "PyContextVar_Set demo_ctx_env 1 (ContextVar 0) (Object 2) s = Some (Inr (Token 1), s1)"
    and "exec_list demo_ctx_env demo_between s1 = Some (rs', s2)"
    and "ts_context (threads s2 1) = ts_context (threads s1 1)" and "\<not> tok_used (tokens s2 ! 1)"
    and "map_option fst (PyContextVar_Get demo_ctx_env 1 (ContextVar 0) None s) = Some (Inr (Some (Object 1)))"
proof -
  let ?\<sigma> = "\<lparr> sp_ctxs = [demo_ctx 1], sp_defaults = [None], sp_toks = [demo_token None], sp_cur = [1 \<mapsto> 0] \<rparr>"
  let ?\<sigma>1 = "\<lparr> sp_ctxs = [demo_ctx 2], sp_defaults = [None], sp_toks = [demo_token None, demo_token (Some (Object 1))], sp_cur = [1 \<mapsto> 0] \<rparr>"
  have "spec_exec_list (bad_name demo_ctx_env) demo_before spec_start = Some ([Inr (Obj (ContextVar 0)), Inr (Obj (Token 0))], ?\<sigma>)"
    by (simp add: demo_before_def spec_simps)
  with exec_start [OF demo_quiet, of demo_before] obtain rs s
    where s: "exec_list demo_ctx_env demo_before interp_start = Some (rs, s)" "abs_state s = ?\<sigma>" "ctx_inv demo_ctx_env 1 s"
    by (auto simp: demo_before_def elim: sim_SomeE)
  have "sp_set 1 (ContextVar 0) (Object 2) ?\<sigma> = Some (Inr (Token 1), ?\<sigma>1)"
    by (simp add: spec_simps)
  with sim_Set [OF s(3), of 1 "ContextVar 0" "Object 2"] obtain s1
    where s1: "PyContextVar_Set demo_ctx_env 1 (ContextVar 0) (Object 2) s = Some (Inr (Token 1), s1)" "abs_state s1 = ?\<sigma>1" "ctx_inv demo_ctx_env 1 s1"
    by (auto simp: s(2) elim: sim_SomeE)
  have "\<exists>rs' \<sigma>2. spec_exec_list (bad_name demo_ctx_env) demo_between ?\<sigma>1 = Some (rs', \<sigma>2) \<and> sp_cur \<sigma>2 1 = Some 0 \<and> \<not> tok_used (sp_toks \<sigma>2 ! 1)"
    by (simp add: demo_between_def spec_simps)
  then obtain rs' \<sigma>2 where "spec_exec_list (bad_name demo_ctx_env) demo_between ?\<sigma>1 = Some (rs', \<sigma>2)" "sp_cur \<sigma>2 1 = Some 0" "\<not> tok_used (sp_toks \<sigma>2 ! 1)"
    by blast
  with exec_sim(2) [OF s1(3) demo_quiet, of demo_between] obtain s2
    where s2: "exec_list demo_ctx_env demo_between s1 = Some (rs', s2)" "ts_context (threads s2 1) = Some 0" "\<not> tok_used (tokens s2 ! 1)"
    by (auto simp: s1(2) demo_between_def elim!: sim_SomeE)
  have "ts_context (threads s1 1) = Some 0"
    using arg_cong [OF s1(2), of "\<lambda>\<sigma>. sp_cur \<sigma> 1"] by simp
  moreover have "map_option fst (PyContextVar_Get demo_ctx_env 1 (ContextVar 0) None s) = Some (Inr (Some (Object 1)))"
    using sim_fst [OF sim_Get [OF s(3), of 1 "ContextVar 0" None]] by (simp add: s(2) spec_simps)
  ultimately show thesis using that s(1) s1(1) s2 by metis
qed

theorem token_restores_witness:
  "\<exists>rs s s1 rs' s2 s3. exec_list demo_ctx_env demo_before interp_start = Some (rs, s)
    \<and> PyContextVar_Set demo_ctx_env 1 (ContextVar 0) (Object 2) s = Some (Inr (Token 1), s1)
    \<and> exec_list demo_ctx_env demo_between s1 = Some (rs', s2)
    \<and> PyContextVar_Reset demo_ctx_env 1 (ContextVar 0) (Token 1) s2 = Some (Inr (), s3)
    \<and> map_option fst (PyContextVar_Get demo_ctx_env 1 (ContextVar 0) None s3) = Some (Inr (Some (Object 1)))
    \<and> PyContextVar_Reset demo_ctx_env 2 (ContextVar 0) (Token 1) s3 = Some (Inl RuntimeError, s3)"
proof -
  obtain rs s s1 rs' s2 where r: "exec_list demo_ctx_env demo_before interp_start = Some (rs, s)"
    "PyContextVar_Set demo_ctx_env 1 (ContextVar 0) (Object 2) s = Some (Inr (Token 1), s1)"
    "exec_list demo_ctx_env demo_between s1 = Some (rs', s2)" "ts_context (threads s2 1) = ts_context (threads s1 1)"
    "\<not> tok_used (tokens s2 ! 1)" "map_option fst (PyContextVar_Get demo_ctx_env 1 (ContextVar 0) None s) = Some (Inr (Some (Object 1)))"
    by (rule demo_token_run)
  have "switches_list demo_before + switches_list demo_between < 2 ^ 64 - 1"
    by (simp add: demo_before_def demo_between_def)
  from token_restores [OF demo_quiet this r(1-5), of None 2] obtain s3
    where "PyContextVar_Reset demo_ctx_env 1 (ContextVar 0) (Token 1) s2 = Some (Inr (), s3)"
      "map_option fst (PyContextVar_Get demo_ctx_env 1 (ContextVar 0) None s3) = Some (Inr (Some (Object 1)))"
      "PyContextVar_Reset demo_ctx_env 2 (ContextVar 0) (Token 1) s3 = Some (Inl RuntimeError, s3)"
    unfolding r(6) by blast
  with r(1-3) show ?thesis by blast
qed

end
