(* ===== verification/Contexts_Watch.thy ===== *)
theory Contexts_Watch
  imports Contexts_Props
begin

text \<open>The watchers of contexts: the table and its mask agree, and a switch calls each watcher once, in order.\<close>

definition watch_ok :: "interp \<Rightarrow> bool" where
  "watch_ok s \<longleftrightarrow> length (context_watchers s) = CONTEXT_MAX_WATCHERS
     \<and> (\<forall>i < CONTEXT_MAX_WATCHERS. bit (active_context_watchers s) i \<longleftrightarrow> context_watchers s ! i \<noteq> None)"

lemma watch_ok_start: "watch_ok interp_start"
  by (simp add: watch_ok_def interp_start_def CONTEXT_MAX_WATCHERS_def)

lemma bit_u8: "bit (a :: u8) i \<Longrightarrow> i < CONTEXT_MAX_WATCHERS"
  using bit_imp_le_length [of a i] by (simp add: CONTEXT_MAX_WATCHERS_def)

text \<open>A watcher gets the first free id; there is an error when none is free.\<close>

lemma AddWatcher_ok:
  assumes "watch_ok s"
  shows "(\<exists>i s'. PyContext_AddWatcher cb s = Some (Inr (int i), s') \<and> watch_ok s' \<and> i < CONTEXT_MAX_WATCHERS
      \<and> context_watchers s ! i = None \<and> context_watchers s' = (context_watchers s)[i := Some cb])
    \<or> PyContext_AddWatcher cb s = Some (Inl RuntimeError, s) \<and> None \<notin> set (context_watchers s)"
proof (cases "first_slot (\<lambda>w. w = None) (context_watchers s)")
  case None
  moreover from None have "None \<notin> set (context_watchers s)" by auto
  moreover have "PyContext_AddWatcher cb s = Some (Inl RuntimeError, s)"
    using None assms by (simp add: PyContext_AddWatcher_def watch_ok_def del: first_slot_None)
  ultimately show ?thesis by simp
next
  case (Some i)
  note i = first_slot_lt [OF Some] first_slot_prop [OF Some]
  let ?s = "s\<lparr> context_watchers := (context_watchers s)[i := Some cb], active_context_watchers := active_context_watchers s OR push_bit i 1 \<rparr>"
  have "watch_ok ?s"
    using assms i by (auto simp: watch_ok_def bit_or_iff bit_exp_iff nth_list_update CONTEXT_MAX_WATCHERS_def possible_bit_def)
  then show ?thesis
    using Some i assms by (intro disjI1 exI [of _ i] exI [of _ ?s]) (simp add: PyContext_AddWatcher_def watch_ok_def)
qed

lemma ClearWatcher_ok:
  assumes "watch_ok s"
  shows "PyContext_ClearWatcher i s =
      (if 0 \<le> i \<and> nat i < CONTEXT_MAX_WATCHERS \<and> context_watchers s ! nat i \<noteq> None
       then Some (Inr 0, s\<lparr> context_watchers := (context_watchers s)[nat i := None],
         active_context_watchers := active_context_watchers s AND NOT (push_bit (nat i) 1) \<rparr>)
       else Some (Inl ValueError, s))"
    and "PyContext_ClearWatcher i s = Some (r, s') \<Longrightarrow> watch_ok s'"
proof -
  show c: "PyContext_ClearWatcher i s =
      (if 0 \<le> i \<and> nat i < CONTEXT_MAX_WATCHERS \<and> context_watchers s ! nat i \<noteq> None
       then Some (Inr 0, s\<lparr> context_watchers := (context_watchers s)[nat i := None],
         active_context_watchers := active_context_watchers s AND NOT (push_bit (nat i) 1) \<rparr>)
       else Some (Inl ValueError, s))"
    by (auto simp: PyContext_ClearWatcher_def)
  show "watch_ok s'" if "PyContext_ClearWatcher i s = Some (r, s')"
    using that assms unfolding c
    by (auto simp: watch_ok_def bit_and_iff bit_not_iff bit_exp_iff nth_list_update CONTEXT_MAX_WATCHERS_def possible_bit_def
        split: if_splits)
qed

definition call_watcher :: "ctx_env \<Rightarrow> pyobj \<Rightarrow> nat option \<Rightarrow> interp \<Rightarrow> interp" where
  "call_watcher E ctx w s = (case w of None \<Rightarrow> s | Some cb \<Rightarrow> snd (watch_callback E cb ctx s))"

lemma no_watchers: "\<forall>w \<in> set ws. w = None \<Longrightarrow> fold (call_watcher E ctx) ws s = s"
  by (induction ws) (simp_all add: call_watcher_def)

lemma notify_loop_fold:
  assumes keep: "\<forall>cb s. context_watchers (snd (watch_callback E cb ctx s)) = context_watchers s"
    and "\<forall>j. bit active j \<longleftrightarrow> i + j < length (context_watchers s) \<and> context_watchers s ! (i + j) \<noteq> None"
  shows "notify_loop E ctx active i s = fold (call_watcher E ctx) (drop i (context_watchers s)) s"
  using assms
proof (induction E ctx active i s rule: notify_loop.induct)
  case (1 E ctx active i s)
  let ?W = "context_watchers s"
  show ?case
  proof (cases "active = 0")
    case True
    then have "\<forall>w \<in> set (drop i ?W). w = None"
      using 1(3) by (auto simp: in_set_conv_nth)
    with True show ?thesis by (simp add: no_watchers notify_loop.simps)
  next
    case False
    then obtain j where "bit active j" by (auto simp: bit_eq_iff)
    then have i: "i < length ?W" using 1(3) by auto
    let ?s1 = "call_watcher E ctx (?W ! i) s"
    have W: "context_watchers ?s1 = ?W" using 1(2) by (simp add: call_watcher_def split: option.split)
    have "bit active 0 \<longleftrightarrow> ?W ! i \<noteq> None" using 1(3) i by (metis add_0_right)
    then have step: "(if active AND 1 \<noteq> 0 then case ?W ! i of None \<Rightarrow> s | Some cb \<Rightarrow> snd (watch_callback E cb ctx s) else s) = ?s1"
      by (auto simp: call_watcher_def and_one_eq odd_iff_mod_2_eq_one bit_0 split: option.split)
    have "\<forall>j. bit (drop_bit 1 active) j \<longleftrightarrow> i + 1 + j < length ?W \<and> ?W ! (i + 1 + j) \<noteq> None"
      using 1(3) by (simp add: bit_drop_bit_eq)
    with 1(1) [OF False 1(2)] W have "notify_loop E ctx (drop_bit 1 active) (i + 1) ?s1 = fold (call_watcher E ctx) (drop (i + 1) ?W) ?s1"
      unfolding step by simp
    then show ?thesis
      using False i by (subst notify_loop.simps) (simp add: step Cons_nth_drop_Suc [symmetric])
  qed
qed

text \<open>The watchers, in ascending order of their ids, are called once each with the context that is current now.\<close>

lemma notify_calls_all:
  assumes "watch_ok s" and "\<forall>cb ctx s. context_watchers (snd (watch_callback E cb ctx s)) = context_watchers s"
  shows "notify_context_watchers E c s =
    fold (call_watcher E (case c of None \<Rightarrow> Py_None | Some c \<Rightarrow> Context c)) (context_watchers s) s"
proof -
  have "bit (active_context_watchers s) j \<longleftrightarrow> 0 + j < length (context_watchers s) \<and> context_watchers s ! (0 + j) \<noteq> None" for j
    using assms(1) bit_u8 [of "active_context_watchers s" j] by (auto simp: watch_ok_def)
  with notify_loop_fold [of E "case c of None \<Rightarrow> Py_None | Some c \<Rightarrow> Context c" "active_context_watchers s" 0 s] assms(2) show ?thesis
    by (simp add: notify_context_watchers_def)
qed

end
